(* ===== verification/Mesh_Prelude.thy ===== *)
theory Mesh_Prelude
  imports "HOL-Library.Word" "HOL-Library.Monad_Syntax"
begin

text \<open>
  Shared vocabulary of the mesh-network development: the fixed-width integers of
  \<^verbatim>\<open>stdint.h\<close>, little-endian object representations, and C memory as byte lists that are
  written and read through a cursor.

  A C buffer that is being filled by a run of \<^verbatim>\<open>memcpy(p, ..); p += ..\<close> statements is a
  pair \<open>(done, rest)\<close>: the bytes before the pointer \<open>p\<close> and the bytes from \<open>p\<close> to the end of
  the object. A \<open>memcpy\<close> that would leave the object is \<open>None\<close>: in this development \<open>None\<close>
  always stands for undefined behaviour (an out-of-bounds access or a read of a value that
  was never set), never for an error the code handles.
  Enumerations of the code are packed into one byte.  Integers are stored little-endian,
  as on the x86 and ARM hosts the program is built for.
\<close>

type_synonym u8 = "8 word"
type_synonym u16 = "16 word"
type_synonym u32 = "32 word"
type_synonym i8 = "8 word" \<comment> \<open>read with \<open>sint\<close>\<close>

named_theorems settings \<comment> \<open>values of the compile-time constants\<close>
named_theorems codes \<comment> \<open>values of the enumerators\<close>
named_theorems fmt \<comment> \<open>functional behaviour of the formatting routines\<close>

subsection \<open>Object representation of integers\<close>

definition bytes_of_u16 :: "u16 \<Rightarrow> u8 list" where
  "bytes_of_u16 w = [ucast w, ucast (drop_bit 8 w)]"

definition u16_of_bytes :: "u8 \<Rightarrow> u8 \<Rightarrow> u16" where
  "u16_of_bytes a b = or (ucast a) (push_bit 8 (ucast b))"

definition bytes_of_u32 :: "u32 \<Rightarrow> u8 list" where
  "bytes_of_u32 w = bytes_of_u16 (ucast w) @ bytes_of_u16 (ucast (drop_bit 16 w))"

definition u32_of_bytes :: "u8 \<Rightarrow> u8 \<Rightarrow> u8 \<Rightarrow> u8 \<Rightarrow> u32" where
  "u32_of_bytes a b c d = or (ucast (u16_of_bytes a b)) (push_bit 16 (ucast (u16_of_bytes c d)))"

lemma length_bytes_of_u16 [simp]: "length (bytes_of_u16 w) = 2"
  by (simp add: bytes_of_u16_def)

lemma length_bytes_of_u32 [simp]: "length (bytes_of_u32 w) = 4"
  by (simp add: bytes_of_u32_def)

lemma u16_of_bytes_of_u16 [simp]: "u16_of_bytes (ucast w) (ucast (drop_bit 8 w)) = w"
  by (rule bit_word_eqI) (auto simp: u16_of_bytes_def bit_simps)

lemma u32_of_u16s: "or (ucast (ucast w :: u16)) (push_bit 16 (ucast (ucast (drop_bit 16 w) :: u16))) = (w :: u32)"
  by (rule bit_word_eqI) (auto simp: bit_simps)

lemma u32_of_bytes_of_u32 [simp]:
  "u32_of_bytes (ucast (ucast w :: u16)) (ucast (drop_bit 8 (ucast w :: u16)))
     (ucast (ucast (drop_bit 16 w) :: u16)) (ucast (drop_bit 8 (ucast (drop_bit 16 w) :: u16))) = w"
  by (simp only: u32_of_bytes_def u16_of_bytes_of_u16 u32_of_u16s)

lemma bytes_of_u16_inject [simp]: "bytes_of_u16 a = bytes_of_u16 b \<longleftrightarrow> a = b"
  by (metis bytes_of_u16_def list.inject u16_of_bytes_of_u16)

subsection \<open>Writing through a cursor\<close>

type_synonym wcursor = "u8 list \<times> u8 list"

definition put_bytes :: "u8 list \<Rightarrow> wcursor \<Rightarrow> wcursor option" where
  "put_bytes bs c = (case c of (before, rest) \<Rightarrow>
     if length bs \<le> length rest then Some (before @ bs, drop (length bs) rest) else None)"

definition buffer_of :: "wcursor \<Rightarrow> u8 list" where
  "buffer_of c = fst c @ snd c"

lemma put_bytes_bind [fmt]:
  "Option.bind (put_bytes as c) (put_bytes bs) = put_bytes (as @ bs) c"
  by (cases c) (auto simp: put_bytes_def add.commute)

lemma put_bytes_bind_cont [fmt]:
  "Option.bind (put_bytes as c) (\<lambda>c'. Option.bind (put_bytes bs c') f)
   = Option.bind (put_bytes (as @ bs) c) f"
  by (simp add: put_bytes_bind [symmetric])

lemma put_bytes_Some [simp]:
  "length bs \<le> length r \<Longrightarrow> put_bytes bs (d, r) = Some (d @ bs, drop (length bs) r)"
  by (simp add: put_bytes_def)

lemma put_bytes_None [simp]: "length r < length bs \<Longrightarrow> put_bytes bs (d, r) = None"
  by (simp add: put_bytes_def)

lemma put_bytes_eq_None: "put_bytes bs (d, r) = None \<longleftrightarrow> length r < length bs"
  by (auto simp: put_bytes_def)

text \<open>Moving the pointer without writing: \<open>p\<close> is set to offset \<open>k\<close> of the same object.\<close>

definition seek :: "nat \<Rightarrow> wcursor \<Rightarrow> wcursor option" where
  "seek k c = (if k \<le> length (buffer_of c) then Some (take k (buffer_of c), drop k (buffer_of c)) else None)"

lemma seek_here [simp]: "k = length d \<Longrightarrow> seek k (d, r) = Some (d, r)"
  by (simp add: seek_def buffer_of_def)

text \<open>\<open>size_t\<close> subtraction wraps at 64 bits.\<close>

definition size_sub :: "nat \<Rightarrow> nat \<Rightarrow> nat" where
  "size_sub a b = (if b \<le> a then a - b else 2 ^ 64 + a - b)"

lemma size_sub_le [simp]: "b \<le> a \<Longrightarrow> size_sub a b = a - b"
  by (simp add: size_sub_def)

subsection \<open>Reading through a cursor\<close>

type_synonym rcursor = "u8 list" \<comment> \<open>the object from the pointer to its end\<close>

definition get_bytes :: "nat \<Rightarrow> rcursor \<Rightarrow> (u8 list \<times> rcursor) option" where
  "get_bytes n p = (if n \<le> length p then Some (take n p, drop n p) else None)"

definition skip_bytes :: "nat \<Rightarrow> rcursor \<Rightarrow> rcursor option" where
  "skip_bytes n p = (if n \<le> length p then Some (drop n p) else None)"

definition get_u8 :: "rcursor \<Rightarrow> (u8 \<times> rcursor) option" where
  "get_u8 p = (case p of b # r \<Rightarrow> Some (b, r) | _ \<Rightarrow> None)"

definition get_u16 :: "rcursor \<Rightarrow> (u16 \<times> rcursor) option" where
  "get_u16 p = (case p of a # b # r \<Rightarrow> Some (u16_of_bytes a b, r) | _ \<Rightarrow> None)"

definition get_u32 :: "rcursor \<Rightarrow> (u32 \<times> rcursor) option" where
  "get_u32 p = (case p of a # b # c # d # r \<Rightarrow> Some (u32_of_bytes a b c d, r) | _ \<Rightarrow> None)"

lemma get_u8_Cons [simp]: "get_u8 (b # r) = Some (b, r)"
  by (simp add: get_u8_def)

lemma get_u16_bytes [simp]: "get_u16 (bytes_of_u16 w @ r) = Some (w, r)"
  by (simp add: get_u16_def bytes_of_u16_def)

lemma get_u32_bytes [simp]: "get_u32 (bytes_of_u32 w @ r) = Some (w, r)"
  by (simp add: get_u32_def bytes_of_u32_def bytes_of_u16_def)

lemma get_bytes_append [simp]: "length bs = n \<Longrightarrow> get_bytes n (bs @ r) = Some (bs, r)"
  by (simp add: get_bytes_def)

lemma skip_bytes_0 [simp]: "skip_bytes 0 p = Some p"
  by (simp add: skip_bytes_def)

lemma skip_bytes_Suc [simp]: "skip_bytes (Suc n) (b # p) = skip_bytes n p"
  by (simp add: skip_bytes_def)

lemma skip_bytes_append [simp]: "length bs = n \<Longrightarrow> skip_bytes n (bs @ r) = Some r"
  by (simp add: skip_bytes_def)

subsection \<open>Memory that was never written\<close>

text \<open>
  The contents of a fresh stack array or of a \<^verbatim>\<open>malloc\<close>ed object: whatever the environment
  left there. \<open>junk i\<close> is the byte at offset \<open>i\<close>.
\<close>

definition uninit :: "(nat \<Rightarrow> u8) \<Rightarrow> nat \<Rightarrow> u8 list" where
  "uninit junk n = map junk [0..<n]"

lemma length_uninit [simp]: "length (uninit junk n) = n"
  by (simp add: uninit_def)

subsection \<open>A loop over a list whose body may fail\<close>

primrec mfold :: "('a \<Rightarrow> 's \<Rightarrow> 's option) \<Rightarrow> 'a list \<Rightarrow> 's \<Rightarrow> 's option" where
  "mfold f [] s = Some s"
| "mfold f (x # xs) s = Option.bind (f x s) (mfold f xs)"

lemma mfold_append: "mfold f (xs @ ys) s = Option.bind (mfold f xs s) (mfold f ys)"
  by (induction xs arbitrary: s) (auto split: bind_splits)

lemma mfold_append_fun: "mfold f (xs @ ys) = (\<lambda>s. Option.bind (mfold f xs s) (mfold f ys))"
  by (rule ext) (rule mfold_append)

lemma mfold_Nil_fun: "mfold f [] = Some"
  by (rule ext) simp

lemma mfold_concat: "mfold (\<lambda>x. mfold f (g x)) xs s = mfold f (concat (map g xs)) s"
  by (induction xs arbitrary: s) (auto simp: mfold_append intro!: Option.bind_cong)

lemma mfold_map: "mfold (\<lambda>x. f (g x)) xs s = mfold f (map g xs) s"
  by (induction xs arbitrary: s) (auto intro!: Option.bind_cong)

subsection \<open>Generic facts\<close>

lemma bind_Some_conv: "Option.bind m f = Some y \<longleftrightarrow> (\<exists>x. m = Some x \<and> f x = Some y)"
  by (cases m) auto

lemma find_append: "find P (xs @ ys) = (case find P xs of None \<Rightarrow> find P ys | Some x \<Rightarrow> Some x)"
  by (induction xs) auto

lemma unat_u8_bound [simp]: "unat (x :: u8) < 256"
  using unsigned_less [of x, where ?'a = nat] by simp

lemma unat_u8_le [simp]: "unat (x :: u8) \<le> 255"
  using unat_u8_bound [of x] by linarith

lemma unat_u8_of_nat: "k < 256 \<Longrightarrow> unat (of_nat k :: u8) = k"
  by (simp add: unat_of_nat)

lemma unat_u8_add: "unat (x + y :: u8) = (unat x + unat y) mod 256"
  by (simp add: unat_word_ariths)

lemma unat_u8_add_small: "unat x + unat y < 256 \<Longrightarrow> unat (x + y :: u8) = unat x + unat y"
  by (simp add: unat_u8_add)

lemma foldl_take_update:
  assumes "i < n" and "n \<le> length xs"
  shows "foldl f a (take n (xs[i := y]))
       = foldl f (f (foldl f a (take i xs)) y) (drop (Suc i) (take n xs))"
proof -
  have "take n (xs[i := y]) = (take n xs)[i := y]"
    by (simp add: take_update_swap)
  also have "\<dots> = take i (take n xs) @ y # drop (Suc i) (take n xs)"
    using assms by (intro upd_conv_take_nth_drop) simp
  finally show ?thesis
    using assms by (simp add: min_def)
qed

end
