(* ===== verification/Libc.thy ===== *)
theory Libc
  imports Mesh_Prelude "HOL-Library.Char_ord"
begin

text \<open>
  What the program uses of the C library on strings: \<^verbatim>\<open>strtol(s, &endptr, 10)\<close>, with \<^verbatim>\<open>long\<close> of 64
  bits, the narrowing of its result, and \<^verbatim>\<open>snprintf\<close> of \<^verbatim>\<open>"%d"\<close>.  A string is its characters up to
  the terminator.
\<close>

definition is_space :: "char \<Rightarrow> bool" where
  "is_space c \<longleftrightarrow> of_char c \<in> {32, 9, 10, 11, 12, 13 :: nat}"

definition digit_value :: "char \<Rightarrow> nat option" where
  "digit_value c = (let n = of_char c :: nat in if 48 \<le> n \<and> n \<le> 57 then Some (n - 48) else None)"

primrec read_digits :: "string \<Rightarrow> nat \<Rightarrow> nat \<Rightarrow> nat \<times> nat" where
  "read_digits [] acc n = (acc, n)"
| "read_digits (c # cs) acc n = (case digit_value c of
      None \<Rightarrow> (acc, n) | Some d \<Rightarrow> read_digits cs (10 * acc + d) (Suc n))"

text \<open>The sign, or nothing, and the characters behind it.\<close>

definition read_sign :: "string \<Rightarrow> bool \<times> string" where
  "read_sign s = (case s of
      [] \<Rightarrow> (False, [])
    | c # cs \<Rightarrow> if of_char c = (45 :: nat) then (True, cs)
               else if of_char c = (43 :: nat) then (False, cs) else (False, c # cs))"

definition clamp_long :: "int \<Rightarrow> int" where
  "clamp_long i = max (- (2 ^ 63)) (min (2 ^ 63 - 1) i)"

text \<open>The value, or \<open>None\<close> when nothing is converted and \<^verbatim>\<open>endptr\<close> is the argument itself.\<close>

definition strtol10 :: "string \<Rightarrow> int option" where
  "strtol10 s =
     (case read_sign (dropWhile is_space s) of (neg, cs) \<Rightarrow>
        case read_digits cs 0 0 of (v, n) \<Rightarrow>
          if n = 0 then None else Some (clamp_long (if neg then - int v else int v)))"

definition digit_char :: "nat \<Rightarrow> char" where
  "digit_char d = char_of (48 + d)"

fun decimal :: "nat \<Rightarrow> string" where
  "decimal n = (if n < 10 then [digit_char n] else decimal (n div 10) @ [digit_char (n mod 10)])"

declare decimal.simps [simp del]

text \<open>\<^verbatim>\<open>snprintf(buf, cap, "%d", n)\<close>: the string stored and the value returned.\<close>

definition snprintf_d :: "nat \<Rightarrow> nat \<Rightarrow> string \<times> nat" where
  "snprintf_d cap n = (take (cap - 1) (decimal n), length (decimal n))"

lemma digit_value_char [simp]: "d < 10 \<Longrightarrow> digit_value (digit_char d) = Some d"
  by (simp add: digit_value_def digit_char_def)

lemma read_digits_append:
  "list_all (\<lambda>c. digit_value c \<noteq> None) xs \<Longrightarrow>
     read_digits (xs @ ys) acc n = (case read_digits xs acc n of (a, k) \<Rightarrow> read_digits ys a k)"
  by (induction xs arbitrary: acc n) (auto split: option.split)

lemma decimal_digits: "list_all (\<lambda>c. digit_value c \<noteq> None) (decimal n)"
  by (induction n rule: decimal.induct) (subst decimal.simps, auto)

lemma read_digits_decimal: "read_digits (decimal n) 0 0 = (n, length (decimal n))"
proof (induction n rule: decimal.induct)
  case (1 n)
  show ?case
  proof (cases "n < 10")
    case True
    then show ?thesis by (simp add: decimal.simps [of n])
  next
    case False
    then show ?thesis
      using 1 decimal_digits [of "n div 10"] by (simp add: decimal.simps [of n] read_digits_append)
  qed
qed

lemma decimal_first: "\<exists>d cs. d < 10 \<and> decimal n = digit_char d # cs"
proof (induction n rule: decimal.induct)
  case (1 n)
  show ?case
  proof (cases "n < 10")
    case True
    then show ?thesis by (auto simp: decimal.simps [of n])
  next
    case False
    with 1 obtain d cs where "d < 10" "decimal (n div 10) = digit_char d # cs" by blast
    with False show ?thesis by (simp add: decimal.simps [of n]) blast
  qed
qed

text \<open>Printing and reading back a number is the identity.\<close>

lemma strtol10_decimal:
  assumes "int n < 2 ^ 63" shows "strtol10 (decimal n) = Some (int n)"
proof -
  obtain d cs where d: "d < 10" "decimal n = digit_char d # cs" using decimal_first by blast
  have c: "of_char (digit_char d) = 48 + d" using d(1) by (simp add: digit_char_def)
  have "\<not> is_space (digit_char d)" by (simp add: is_space_def c)
  then have "read_sign (dropWhile is_space (decimal n)) = (False, decimal n)"
    by (simp add: d(2) read_sign_def c)
  note sign = this
  have "decimal n \<noteq> []" using d(2) by simp
  then show ?thesis
    using assms unfolding strtol10_def sign by (simp only: prod.case read_digits_decimal) (simp add: clamp_long_def)
qed

lemma length_decimal: "n < 100 \<Longrightarrow> length (decimal n) \<le> 2"
proof -
  assume "n < 100"
  then have "n div 10 < 10" by simp
  then show ?thesis by (simp add: decimal.simps [of n] decimal.simps [of "n div 10"])
qed

end
