(* ===== verification/Logger.thy ===== *)
theory Logger
  imports Libc
begin

text \<open>
  The logger: \<^verbatim>\<open>common/src/custom_logger.c\<close> and \<^verbatim>\<open>die_\<close> of \<^verbatim>\<open>control_utils.c\<close>, built with \<^verbatim>\<open>LOG_FILE\<close> as in
  the makefile.  A call gets the results of the library calls it makes, the text \<^verbatim>\<open>vsnprintf\<close>
  formats (\<open>None\<close> when that fails) and the static variable \<^verbatim>\<open>die_sentenced\<close>, and yields how it ends, the
  new value of the variable and what it did, in order.  No other theory depends on this one: the
  rest of the program is modelled with a logger that returns.
\<close>

subsection \<open>Lines\<close>

datatype log_type = LOG_TYPE_INFO | LOG_TYPE_ERROR | LOG_TYPE_WARN | LOG_TYPE_DEBUG

text \<open>\<^verbatim>\<open>"%-ns"\<close> and the strings of the macros \<^verbatim>\<open>ANSI_COLOR_...\<close>.\<close>

definition left_justified :: "nat \<Rightarrow> string \<Rightarrow> string" where
  "left_justified n s = s @ replicate (n - length s) CHR '' ''"

definition ansi_color :: "string \<Rightarrow> string" where
  "ansi_color code = CHR 0x1B # CHR ''['' # code @ ''m''"

definition ANSI_COLOR_RED :: string where "ANSI_COLOR_RED = ansi_color ''31''"
definition ANSI_COLOR_GREEN :: string where "ANSI_COLOR_GREEN = ansi_color ''32''"
definition ANSI_COLOR_YELLOW :: string where "ANSI_COLOR_YELLOW = ansi_color ''33''"
definition ANSI_COLOR_CYAN :: string where "ANSI_COLOR_CYAN = ansi_color ''36''"
definition ANSI_COLOR_RESET :: string where "ANSI_COLOR_RESET = ansi_color ''0''"

definition log_filename :: string where "log_filename = ''logs.log''"

definition screen_line :: "string \<Rightarrow> string \<Rightarrow> nat \<Rightarrow> string \<Rightarrow> string \<Rightarrow> string" where
  "screen_line color name line file buf = color @ '' '' @ left_justified 6 name @ '' '' @ left_justified 20 file @ '' ''
     @ left_justified 5 (decimal line) @ ANSI_COLOR_RESET @ '': '' @ left_justified 30 buf @ ''\<newline>''"

definition file_line :: "string \<Rightarrow> nat \<Rightarrow> string \<Rightarrow> string \<Rightarrow> string" where
  "file_line name line file buf = left_justified 6 name @ '' '' @ left_justified 20 file @ '' ''
     @ left_justified 5 (decimal line) @ '': '' @ left_justified 30 buf @ ''\<newline>''"

subsection \<open>Calls\<close>

text \<open>Whether each library call succeeds.\<close>

record log_calls =
  lc_open :: bool
  lc_lock :: bool
  lc_screen :: bool
  lc_file :: bool
  lc_unlock :: bool

datatype log_event = Locked | Unlocked | Screen string | Raised \<comment> \<open>\<^verbatim>\<open>SIGTERM\<close>\<close>
  | Flushed string \<comment> \<open>the buffered text is written to the file\<close>

datatype log_end = Returns | Exits

text \<open>The result, the lines on the screen, and the text in the buffer of the file.\<close>

definition log_to :: "log_calls \<Rightarrow> string \<Rightarrow> string \<Rightarrow> nat \<Rightarrow> string \<Rightarrow> string \<Rightarrow> log_type \<Rightarrow> int \<times> log_event list \<times> string" where
  "log_to lc color name line file buf type =
     (if \<not> lc_screen lc then (-1, [], '''')
      else let out = [Screen (screen_line color name line file buf)] in
        if type = LOG_TYPE_INFO \<or> type = LOG_TYPE_ERROR
        then (if \<not> lc_file lc then (-1, out, '''') else (0, out, file_line name line file buf))
        else (0, out, ''''))"

definition write_log :: "log_calls \<Rightarrow> bool \<Rightarrow> log_type \<Rightarrow> nat \<Rightarrow> string \<Rightarrow> string \<Rightarrow> int \<times> log_event list \<times> string" where
  "write_log lc debug type line file buf = (case type of
       LOG_TYPE_INFO \<Rightarrow> log_to lc ANSI_COLOR_CYAN ''info'' line file buf type
     | LOG_TYPE_ERROR \<Rightarrow> log_to lc ANSI_COLOR_RED ''error'' line file buf type
     | LOG_TYPE_WARN \<Rightarrow> log_to lc ANSI_COLOR_YELLOW ''warn'' line file buf type
     | LOG_TYPE_DEBUG \<Rightarrow> (if debug then log_to lc ANSI_COLOR_GREEN ''debug'' line file buf type else (0, [], '''')))"

text \<open>\<^verbatim>\<open>die_\<close> returns when the process handles \<^verbatim>\<open>SIGTERM\<close>, as the server and the nodes do.\<close>

definition die_report :: "string \<Rightarrow> nat \<Rightarrow> nat \<Rightarrow> string \<Rightarrow> string \<Rightarrow> log_event list" where
  "die_report func_name err line file msg =
     [Screen (''DIED ['' @ func_name @ '']: (error code: '' @ decimal err @ ''), line '' @ decimal line @ '', file '' @ file @ ''\<newline>''),
      Screen msg, Screen ''\<newline>'', Raised]"

text \<open>
  The text is cut to the 1023 characters that the array \<^verbatim>\<open>buf\<close> has room for.  The stream of the log
  file is buffered, and no line fills its buffer: what was printed to it is written by \<^verbatim>\<open>fclose\<close>, or
  by \<^verbatim>\<open>exit\<close>.  \<open>err\<close> is \<^verbatim>\<open>errno\<close>.
\<close>

definition log_file :: "log_calls \<Rightarrow> bool \<Rightarrow> nat \<Rightarrow> log_type \<Rightarrow> nat \<Rightarrow> string \<Rightarrow> string option \<Rightarrow> bool
    \<Rightarrow> log_end \<times> bool \<times> log_event list" where
  "log_file lc debug err type line file text die_sentenced =
     (if \<not> lc_open lc then (Exits, die_sentenced, [Screen (''Failed to open log file '' @ log_filename @ ''\<newline>'')])
      else if \<not> lc_lock lc then (Exits, die_sentenced, [Screen (''Failed to open lock file '' @ log_filename @ ''\<newline>'')])
      else case (case text of None \<Rightarrow> (-1, [], '''') | Some s \<Rightarrow> write_log lc debug type line file (take 1023 s)) of
        (res, out, buffered) \<Rightarrow>
          let complaint = (if res \<noteq> 0 then [Screen ''Failed to write buffer\<newline>''] else []);
              die_sentenced = (die_sentenced \<or> res \<noteq> 0);
              events = Locked # out @ complaint in
          if \<not> lc_unlock lc
          then (Exits, die_sentenced, events @ [Screen (''Failed to unlock file '' @ log_filename @ ''\<newline>''), Flushed buffered])
          else (Returns, die_sentenced, events @ [Unlocked]
             @ (if die_sentenced then die_report ''log_file_'' err 55 ''src/custom_logger.c'' ''Log writing error'' else []) @ [Flushed buffered]))"

subsection \<open>What a call does\<close>

text \<open>The logger ends the process exactly when it cannot open, lock or unlock its file.\<close>

lemma log_file_returns: "fst (log_file lc debug err type line file text sentenced) = Returns \<longleftrightarrow> lc_open lc \<and> lc_lock lc \<and> lc_unlock lc"
  by (simp add: log_file_def Let_def split: prod.split)

text \<open>A process in which one line could not be written is told to end by every later call, too.\<close>

lemma log_sentence_stays:
  assumes "log_file lc debug err type line file text True = (Returns, sentenced, events)"
  shows "sentenced \<and> Raised \<in> set events"
  using assms by (auto simp: log_file_def die_report_def Let_def split: if_splits prod.splits)

text \<open>In a release nothing is written for \<^verbatim>\<open>custom_log_debug\<close>.\<close>

lemma log_debug_silent:
  assumes "lc_open lc" and "lc_lock lc" and "lc_unlock lc"
  shows "log_file lc False err LOG_TYPE_DEBUG line file (Some s) False = (Returns, False, [Locked, Unlocked, Flushed ''''])"
  using assms by (simp add: log_file_def write_log_def Let_def)

text \<open>
  A line of an error is on the screen before the lock is released; but the line of the file, which
  the lock is there for as well, is written after that.
\<close>

lemma log_error_line:
  assumes "lc_open lc" and "lc_lock lc" and "lc_unlock lc" and "lc_screen lc" and "lc_file lc"
  shows "log_file lc debug err LOG_TYPE_ERROR line file (Some s) False = (Returns, False,
     [Locked, Screen (screen_line ANSI_COLOR_RED ''error'' line file (take 1023 s)), Unlocked,
      Flushed (file_line ''error'' line file (take 1023 s))])"
  using assms by (simp add: log_file_def write_log_def log_to_def Let_def)

text \<open>A line takes at most 1023 characters of text, whatever it was asked to print.\<close>

lemma length_file_line:
  "length (file_line name line file (take 1023 s)) \<le> max 6 (length name) + max 20 (length file) + max 5 (length (decimal line)) + 1028"
  by (simp add: file_line_def left_justified_def)

end
