(* ===== verification/Settings.thy ===== *)
theory Settings
  imports Mesh_Prelude
begin

text \<open>
  The compile-time parameters of \<^verbatim>\<open>common/include/settings.h\<close> at their default values, and the
  bijection between node addresses and TCP ports.  The equations are collected in
  \<open>settings\<close>.
\<close>

definition SERVER_PORT :: u16 where "SERVER_PORT = 999"
definition MATRIX_SIZE :: nat where "MATRIX_SIZE = 10"
definition NODE_COUNT :: nat where "NODE_COUNT = MATRIX_SIZE * MATRIX_SIZE"
definition APPS_COUNT :: nat where "APPS_COUNT = 4"
definition TTL :: int where "TTL = int MATRIX_SIZE * 2"
definition MAX_MSG_LEN :: nat where "MAX_MSG_LEN = 256"
definition APP_MESSAGE_LEN :: nat where "APP_MESSAGE_LEN = 150"
definition BROADCAST_RADIUS :: u8 where "BROADCAST_RADIUS = 3"

definition UINT8_MAX :: u8 where "UINT8_MAX = 255"
definition UINT16_MAX :: u16 where "UINT16_MAX = 65535"

declare SERVER_PORT_def [settings] APPS_COUNT_def [settings] MAX_MSG_LEN_def [settings]
  APP_MESSAGE_LEN_def [settings] BROADCAST_RADIUS_def [settings] UINT8_MAX_def [settings]
  UINT16_MAX_def [settings] MATRIX_SIZE_def [settings]

lemma NODE_COUNT_eq [settings]: "NODE_COUNT = 100"
  by (simp add: NODE_COUNT_def MATRIX_SIZE_def)

lemma TTL_eq [settings]: "TTL = 20"
  by (simp add: TTL_def MATRIX_SIZE_def)

definition node_port :: "u8 \<Rightarrow> u16" where
  "node_port addr = SERVER_PORT + ucast addr + 1"

definition node_addr :: "u16 \<Rightarrow> int" where
  "node_addr port = uint port - uint SERVER_PORT - 1"

lemma uint_node_port: "uint (node_port a) = 1000 + uint a"
proof -
  have "uint (ucast a :: u16) = uint a"
    by (simp add: uint_up_ucast is_up)
  moreover have "uint a < 256"
    using uint_lt2p [of a] by simp
  ultimately show ?thesis
    by (simp add: node_port_def SERVER_PORT_def uint_word_ariths)
qed

lemma node_addr_node_port [simp]: "node_addr (node_port a) = uint a"
  by (simp add: node_addr_def uint_node_port SERVER_PORT_def)

lemma word_node_addr_node_port [simp]: "(word_of_int (node_addr (node_port a)) :: u8) = a"
  by simp

lemma node_port_inject [simp]: "node_port a = node_port b \<longleftrightarrow> a = b"
  by (metis word_node_addr_node_port)

lemma node_port_not_server [simp]: "node_port a \<noteq> SERVER_PORT" "SERVER_PORT \<noteq> node_port a"
proof -
  have "uint (node_port a) \<noteq> 999"
    using uint_ge_0 [of a] unfolding uint_node_port by linarith
  then show "node_port a \<noteq> SERVER_PORT" "SERVER_PORT \<noteq> node_port a"
    by (auto simp: SERVER_PORT_def)
qed

lemma node_port_not_free [simp]: "node_port a \<noteq> UINT16_MAX" "UINT16_MAX \<noteq> node_port a"
proof -
  have "uint (node_port a) \<noteq> uint UINT16_MAX"
    using uint_lt2p [of a] unfolding uint_node_port by (simp add: UINT16_MAX_def)
  then show "node_port a \<noteq> UINT16_MAX" "UINT16_MAX \<noteq> node_port a"
    by auto
qed

end
