(* ===== verification/Codec.thy ===== *)
theory Codec
  imports Settings
begin

text \<open>
  The contract between a serialiser and its parser.  \<open>dec mem\<close> parses from the front of a
  buffer into an object whose message array held \<open>mem\<close>; \<open>ok\<close> are the objects that may be
  serialised; \<open>norm\<close> forgets what is not transmitted.
\<close>

locale codec =
  fixes enc :: "'a \<Rightarrow> u8 list"
    and dec :: "u8 list \<Rightarrow> rcursor \<Rightarrow> 'a option"
    and ok :: "'a \<Rightarrow> bool"
    and norm :: "'a \<Rightarrow> 'a"
  assumes dec_enc: "ok x \<Longrightarrow> length mem = APP_MESSAGE_LEN \<Longrightarrow>
      \<exists>y. dec mem (enc x @ r) = Some y \<and> ok y \<and> norm y = norm x"
    and enc_norm: "norm x = norm y \<Longrightarrow> enc x = enc y"
begin

text \<open>An object that was received is sent on with the bytes it came with.\<close>

lemma relay:
  assumes "ok x" and "length mem = APP_MESSAGE_LEN" and "dec mem (enc x @ r) = Some y"
  shows "ok y" and "norm y = norm x" and "enc y = enc x"
  using dec_enc [OF assms(1,2), of r] assms(3) by (auto intro: enc_norm)

text \<open>No message is a prefix of another, so the end of a message needs no marker.\<close>

lemma unambiguous:
  assumes "ok x" and "ok y" and "enc x @ r = enc y @ s"
  shows "norm x = norm y \<and> r = s"
proof -
  let ?mem = "replicate APP_MESSAGE_LEN 0"
  obtain x' where "dec ?mem (enc x @ r) = Some x'" "norm x' = norm x"
    using dec_enc [OF assms(1), of ?mem r] by auto
  moreover obtain y' where "dec ?mem (enc y @ s) = Some y'" "norm y' = norm y"
    using dec_enc [OF assms(2), of ?mem s] by auto
  ultimately have "norm x = norm y"
    using assms(3) by simp
  then show ?thesis
    using enc_norm [of x y] assms(3) by simp
qed

end

end
