(* ===== verification/Crc.thy ===== *)
theory Crc
  imports Mesh_Prelude
begin

text \<open>
  The checksum of \<^verbatim>\<open>common/src/crc.c\<close>: the lookup table, the byte-wise loop, and its
  lazily initialised static state.  The table-driven loop is proved equal to the bit-serial
  CRC with polynomial \<open>0xA001\<close>, and the error-detection laws are derived once, inside the
  locale \<open>checksum\<close>, from the injectivity of one step.
\<close>

unbundle bit_operations_syntax

subsection \<open>The table\<close>

definition crc16_bit :: "u16 \<Rightarrow> u16" where
  "crc16_bit crc = (if crc AND 1 \<noteq> 0 then drop_bit 1 crc XOR 0xA001 else drop_bit 1 crc)"

primrec crc16_bits :: "nat \<Rightarrow> u16 \<Rightarrow> u16" where
  "crc16_bits 0 crc = crc"
| "crc16_bits (Suc j) crc = crc16_bits j (crc16_bit crc)"

definition init_crc16_table :: "u16 list" where
  "init_crc16_table = map (\<lambda>i. crc16_bits 8 (of_nat i)) [0..<256]"

subsection \<open>The checksum\<close>

definition crc16_step :: "u16 list \<Rightarrow> u16 \<Rightarrow> u8 \<Rightarrow> u16" where
  "crc16_step table crc b = drop_bit 8 crc XOR (table ! unat ((crc XOR ucast b) AND 0xFF))"

text \<open>\<^verbatim>\<open>crc16(data, length)\<close> reads \<open>length\<close> bytes; \<open>None\<close> when the object is shorter.\<close>

definition crc16_with :: "u16 list \<Rightarrow> u8 list \<Rightarrow> nat \<Rightarrow> u16 option" where
  "crc16_with table data len =
     (if len \<le> length data then Some (foldl (crc16_step table) 0xFFFF (take len data)) else None)"

record crc_state =
  crc16_table :: "u16 list"
  crc16_init :: bool

definition crc16_call :: "crc_state \<Rightarrow> u8 list \<Rightarrow> nat \<Rightarrow> u16 option \<times> crc_state" where
  "crc16_call st data len =
     (let st' = (if \<not> crc16_init st then st\<lparr>crc16_init := True, crc16_table := init_crc16_table\<rparr> else st)
      in (crc16_with (crc16_table st') data len, st'))"

definition crc16 :: "u8 list \<Rightarrow> nat \<Rightarrow> u16 option" where
  "crc16 data len = crc16_with init_crc16_table data len"

text \<open>
  The static state never shows: from any state in which the flag implies a filled table
  (in particular the zero-initialised one) a call computes \<open>crc16\<close> and keeps that invariant.
  The rest of the development therefore uses the pure \<open>crc16\<close>.
\<close>

definition crc_ok :: "crc_state \<Rightarrow> bool" where
  "crc_ok st \<longleftrightarrow> (crc16_init st \<longrightarrow> crc16_table st = init_crc16_table)"

lemma crc16_call_pure:
  "crc_ok st \<Longrightarrow> fst (crc16_call st data len) = crc16 data len \<and> crc_ok (snd (crc16_call st data len))"
  by (auto simp: crc_ok_def crc16_call_def crc16_def Let_def)

subsection \<open>One bit step is linear and injective\<close>

lemma crc16_bit_odd: "crc16_bit c = drop_bit 1 c XOR (if odd c then 0xA001 else 0)"
  by (auto simp: crc16_bit_def and_one_eq mod2_eq_if)

lemma odd_xor: "odd (a XOR b :: u16) \<longleftrightarrow> odd a \<noteq> odd b"
  using bit_xor_iff [of a b 0] by (simp add: bit_0)

lemma crc16_bit_xor: "crc16_bit (a XOR b) = crc16_bit a XOR crc16_bit b"
  by (auto simp: crc16_bit_odd odd_xor ac_simps)

lemma crc16_bits_xor: "crc16_bits k (a XOR b) = crc16_bits k a XOR crc16_bits k b"
  by (induction k arbitrary: a b) (auto simp: crc16_bit_xor)

lemma bit_crc16_bit_15: "bit (crc16_bit c) 15 \<longleftrightarrow> odd c"
  by (auto simp: crc16_bit_odd bit_simps dest: bit_imp_le_length)

lemma xor_right_cancel: "a XOR k = b XOR k \<Longrightarrow> a = (b :: 'a :: len word)"
  by (metis xor.assoc xor.right_neutral xor_self_eq)

lemma drop_bit_1_odd_inject:
  assumes "drop_bit 1 a = drop_bit 1 (b :: u16)" and "odd a \<longleftrightarrow> odd b"
  shows "a = b"
proof (rule bit_eqI)
  fix n
  show "bit a n = bit b n"
  proof (cases n)
    case 0
    with assms(2) show ?thesis by (simp add: bit_0)
  next
    case (Suc m)
    have "bit (drop_bit 1 a) m = bit (drop_bit 1 b) m"
      using assms(1) by simp
    with Suc show ?thesis by (simp add: bit_drop_bit_eq)
  qed
qed

lemma crc16_bit_inject: "crc16_bit a = crc16_bit b \<Longrightarrow> a = b"
proof -
  assume eq: "crc16_bit a = crc16_bit b"
  then have odd: "odd a \<longleftrightarrow> odd b"
    using bit_crc16_bit_15 [of a] bit_crc16_bit_15 [of b] by simp
  have "drop_bit 1 a = drop_bit 1 b"
    using eq odd by (auto simp: crc16_bit_odd dest: xor_right_cancel split: if_splits)
  then show "a = b" using odd by (rule drop_bit_1_odd_inject)
qed

lemma crc16_bits_inject: "crc16_bits k a = crc16_bits k b \<Longrightarrow> a = b"
  by (induction k arbitrary: a b) (auto dest: crc16_bit_inject)

lemma crc16_bits_shift: "take_bit k c = 0 \<Longrightarrow> crc16_bits k c = drop_bit k c"
proof (induction k arbitrary: c)
  case (Suc k)
  have "\<not> bit c 0"
    using Suc.prems by (metis bit_0_eq bit_take_bit_iff bot_apply bot_bool_def zero_less_Suc)
  then have bit: "crc16_bit c = drop_bit 1 c"
    by (simp add: crc16_bit_odd bit_0)
  have "take_bit k (drop_bit 1 c) = drop_bit 1 (take_bit (Suc k) c)"
    by (simp add: take_bit_drop_bit)
  then have "take_bit k (crc16_bit c) = 0"
    using Suc.prems bit by simp
  from Suc.IH [OF this] show ?case
    by (simp add: bit)
qed simp

subsection \<open>The table-driven step is the bit-serial step\<close>

lemma init_crc16_table_nth: "i < 256 \<Longrightarrow> init_crc16_table ! i = crc16_bits 8 (of_nat i)"
  by (simp add: init_crc16_table_def)

lemma u16_split_bytes: "(d :: u16) = (d AND 0xFF) XOR push_bit 8 (drop_bit 8 d)"
proof (rule bit_word_eqI)
  fix n assume "n < LENGTH(16)"
  have ff: "(0xFF :: u16) = mask 8"
    by (simp add: mask_eq_exp_minus_1)
  show "bit d n = bit ((d AND 0xFF) XOR push_bit 8 (drop_bit 8 d)) n"
    unfolding ff using \<open>n < LENGTH(16)\<close> by (auto simp: bit_simps)
qed

lemma take_push_8: "take_bit 8 (push_bit 8 (x :: u16)) = 0"
  by (rule bit_word_eqI) (auto simp: bit_simps)

lemma crc16_step_eq:
  "crc16_step init_crc16_table c b = crc16_bits 8 (c XOR ucast b)"
proof -
  let ?d = "c XOR ucast b"
  have ff: "(0xFF :: u16) = mask 8"
    by (simp add: mask_eq_exp_minus_1)
  have "unat (?d AND 0xFF) = unat (take_bit 8 ?d)"
    unfolding ff by (simp only: take_bit_eq_mask)
  also have "\<dots> < 256"
    unfolding unsigned_take_bit_eq using take_bit_nat_less_exp [of 8 "unat ?d"] by simp
  finally have tab: "init_crc16_table ! unat (?d AND 0xFF) = crc16_bits 8 (?d AND 0xFF)"
    by (simp add: init_crc16_table_nth)
  have "crc16_bits 8 ?d = crc16_bits 8 (?d AND 0xFF) XOR crc16_bits 8 (push_bit 8 (drop_bit 8 ?d))"
    by (metis u16_split_bytes crc16_bits_xor)
  also have "crc16_bits 8 (push_bit 8 (drop_bit 8 ?d)) = drop_bit 8 (push_bit 8 (drop_bit 8 ?d))"
    by (rule crc16_bits_shift) (rule take_push_8)
  also have "\<dots> = drop_bit 8 c"
    by (rule bit_word_eqI) (auto simp: bit_simps dest: bit_imp_le_length)
  finally show ?thesis
    by (simp add: crc16_step_def tab ac_simps)
qed

primrec crc16_serial :: "u16 \<Rightarrow> u8 list \<Rightarrow> u16" where
  "crc16_serial crc [] = crc"
| "crc16_serial crc (b # bs) = crc16_serial (crc16_bits 8 (crc XOR ucast b)) bs"

lemma foldl_crc16_step: "foldl (crc16_step init_crc16_table) c bs = crc16_serial c bs"
  by (induction bs arbitrary: c) (simp_all add: crc16_step_eq)

lemma crc16_eq: "crc16 data len = (if len \<le> length data then Some (crc16_serial 0xFFFF (take len data)) else None)"
  by (simp add: crc16_def crc16_with_def foldl_crc16_step)

declare crc16_eq [code]

subsection \<open>Error detection\<close>

text \<open>
  A checksum computed byte by byte detects every error confined to one byte if its step is
  injective in the register and in the byte, and every error confined to two adjacent bytes
  if two steps together are injective in both bytes.
\<close>

locale checksum =
  fixes step :: "'s \<Rightarrow> 'b \<Rightarrow> 's"
  assumes inj_state: "step c b = step c' b \<Longrightarrow> c = c'"
    and inj_byte: "step c b = step c b' \<Longrightarrow> b = b'"
    and inj_pair: "step (step c b1) b2 = step (step c b1') b2' \<Longrightarrow> b1 = b1' \<and> b2 = b2'"
begin

lemma fold_inject: "foldl step c bs = foldl step c' bs \<Longrightarrow> c = c'"
  by (induction bs arbitrary: c c') (auto dest: inj_state)

lemma detects_byte:
  "b \<noteq> b' \<Longrightarrow> foldl step c (xs @ b # ys) \<noteq> foldl step c (xs @ b' # ys)"
  by (auto dest!: fold_inject inj_byte)

lemma detects_pair:
  "(b1, b2) \<noteq> (b1', b2') \<Longrightarrow>
   foldl step c (xs @ b1 # b2 # ys) \<noteq> foldl step c (xs @ b1' # b2' # ys)"
  by (auto dest!: fold_inject inj_pair)

end

lemma ucast_u8_u16_inject: "ucast (a :: u8) = (ucast b :: u16) \<longleftrightarrow> a = b"
proof
  assume "ucast a = (ucast b :: u16)"
  then have "uint (ucast a :: u16) = uint (ucast b :: u16)" by simp
  then show "a = b" by (simp add: uint_up_ucast is_up word_uint_eq_iff)
qed simp

lemma xor_cross:
  assumes "a XOR x = b XOR (y :: 'a :: len word)"
  shows "a XOR b = x XOR y"
proof (rule bit_word_eqI)
  fix n assume "n < LENGTH('a)"
  have "bit (a XOR x) n = bit (b XOR y) n" using assms by simp
  then show "bit (a XOR b) n = bit (x XOR y) n" by (auto simp: bit_xor_iff)
qed

text \<open>
  A table entry with a zero high byte would be the image of its own left shift, and the
  register step is injective: only index 0 has one.
\<close>

lemma crc16_bits_8_high_byte:
  fixes d :: u8
  assumes high: "drop_bit 8 (crc16_bits 8 (ucast d)) = 0"
  shows "d = 0"
proof -
  define r where "r = crc16_bits 8 (ucast d)"
  have "\<not> bit (drop_bit 8 r) n" for n
    using high unfolding r_def by simp
  then have "\<not> bit r (8 + n)" for n
    by (simp add: bit_drop_bit_eq)
  then have low: "\<not> bit r n" if "8 \<le> n" for n
    using that by (metis le_add_diff_inverse)
  have r: "drop_bit 8 (push_bit 8 r) = r"
  proof (rule bit_word_eqI)
    fix n
    show "bit (drop_bit 8 (push_bit 8 r)) n = bit r n"
      using low [of n] by (cases "n < 8") (auto simp: bit_simps)
  qed
  have "crc16_bits 8 (push_bit 8 r) = r"
    using crc16_bits_shift [OF take_push_8] r by simp
  then have d: "ucast d = push_bit 8 r"
    unfolding r_def by (metis crc16_bits_inject)
  have "\<not> bit d n" for n
  proof
    assume "bit d n"
    moreover from this have "n < 8" by (auto dest: bit_imp_le_length)
    ultimately have "bit (ucast d :: u16) n" by (simp add: bit_simps)
    with d \<open>n < 8\<close> show False by (simp add: bit_simps)
  qed
  then show ?thesis by (intro bit_word_eqI) simp
qed

lemma xor_ucast_u8: "ucast (a :: u8) XOR ucast b = (ucast (a XOR b) :: u16)"
  by (simp add: unsigned_xor_eq)

lemma drop_bit_8_ucast: "drop_bit 8 (ucast (a :: u8) :: u16) = 0"
  by (rule bit_word_eqI) (auto simp: bit_simps dest: bit_imp_le_length)

lemma crc16_step_inj_byte:
  "crc16_step init_crc16_table c b = crc16_step init_crc16_table c b' \<Longrightarrow> b = b'"
  by (metis crc16_step_eq crc16_bits_inject ucast_u8_u16_inject xor_right_cancel xor.commute)

lemma crc16_step_inj_pair:
  assumes eq: "crc16_step init_crc16_table (crc16_step init_crc16_table c b1) b2
             = crc16_step init_crc16_table (crc16_step init_crc16_table c b1') b2'"
  shows "b1 = b1' \<and> b2 = b2'"
proof -
  let ?s = "\<lambda>b. crc16_bits 8 (c XOR ucast b)"
  have cross: "?s b1 XOR ucast b2 = ?s b1' XOR ucast b2'"
    using eq crc16_bits_inject unfolding crc16_step_eq by blast
  have "crc16_bits 8 (ucast (b1 XOR b1')) = ?s b1 XOR ?s b1'"
    by (simp flip: crc16_bits_xor xor_ucast_u8 add: ac_simps)
  also have "\<dots> = ucast (b2 XOR b2')"
    using xor_cross [OF cross] by (simp only: xor_ucast_u8)
  finally have "b1 XOR b1' = 0"
    using drop_bit_8_ucast by (intro crc16_bits_8_high_byte) simp
  then have "b1 = b1'"
    by (metis xor_right_cancel xor_self_eq)
  with eq show ?thesis by (auto dest: crc16_step_inj_byte)
qed

interpretation crc: checksum "crc16_step init_crc16_table"
proof unfold_locales
  show "c = c'" if "crc16_step init_crc16_table c b = crc16_step init_crc16_table c' b" for c c' b
    using that by (metis crc16_step_eq crc16_bits_inject xor_right_cancel)
qed (rule crc16_step_inj_byte crc16_step_inj_pair; assumption)+

lemma crc16_detects_pair:
  assumes "(b1, b2) \<noteq> (b1', b2')"
  shows "crc16 (xs @ b1 # b2 # ys) (Suc (Suc (length xs + length ys)))
       \<noteq> crc16 (xs @ b1' # b2' # ys) (Suc (Suc (length xs + length ys)))"
  using crc.detects_pair [OF assms, of "0xFFFF" xs ys]
  by (simp add: crc16_def crc16_with_def)

subsection \<open>Facts used by the packet formats\<close>

lemma crc16_Some_iff: "(\<exists>c. crc16 data len = Some c) \<longleftrightarrow> len \<le> length data"
  by (simp add: crc16_eq)

lemma crc16_take: "crc16 (as @ bs) (length as) = crc16 as (length as)"
  by (simp add: crc16_eq)

end
