(* ===== verification/Format_App.thy ===== *)
theory Format_App
  imports Codec Crc
begin

text \<open>
  Application payloads: \<^verbatim>\<open>common/include/format_app.h\<close> and \<^verbatim>\<open>common/src/format_app.c\<close>.  A payload
  is the packed struct \<^verbatim>\<open>app_payload\<close>; \<open>app_struct\<close> is its 158-byte object representation,
  \<open>app_wire\<close> the bytes a well-formed one has on the wire, and \<open>app_norm\<close> forgets the bytes of
  the message array that are not part of the message.
\<close>

datatype app_request = APP_REQUEST_DELIVERY | APP_REQUEST_BROADCAST | APP_REQUEST_UNICAST

primrec app_request_code :: "app_request \<Rightarrow> u8" where
  "app_request_code APP_REQUEST_DELIVERY = 0"
| "app_request_code APP_REQUEST_BROADCAST = 1"
| "app_request_code APP_REQUEST_UNICAST = 2"

text \<open>The enumerator a byte stands for; a packed C enumeration may hold any byte.\<close>

definition app_request_of :: "u8 \<Rightarrow> app_request option" where
  "app_request_of b = find (\<lambda>r. app_request_code r = b)
     [APP_REQUEST_DELIVERY, APP_REQUEST_BROADCAST, APP_REQUEST_UNICAST]"

lemma app_request_of_code [simp]: "app_request_of (app_request_code r) = Some r"
  by (cases r) (simp_all add: app_request_of_def)

lemma app_request_of_Some: "app_request_of b = Some r \<longleftrightarrow> b = app_request_code r"
  by (cases r) (auto simp: app_request_of_def split: if_splits)

record app_payload =
  ap_req_type :: u8
  ap_addr_from :: u8
  ap_addr_to :: u8
  ap_id :: u16
  ap_message_len :: u8
  ap_message :: "u8 list"
  ap_crc :: u16

definition sizeof_app_payload :: nat where
  "sizeof_app_payload = 1 + 1 + 1 + 2 + 1 + APP_MESSAGE_LEN + 2"

definition format_app_message_len :: "app_payload \<Rightarrow> u8" where
  "format_app_message_len payload = 1 + 1 + 2 + 1 + ap_message_len payload + 1 + 2"

definition app_struct :: "app_payload \<Rightarrow> u8 list" where
  "app_struct a = [ap_req_type a, ap_addr_from a, ap_addr_to a] @ bytes_of_u16 (ap_id a)
     @ [ap_message_len a] @ ap_message a @ bytes_of_u16 (ap_crc a)"

definition app_crc :: "app_payload \<Rightarrow> u16 option" where
  "app_crc a = crc16 (app_struct a) (size_sub (unat (format_app_message_len a)) 2)"

subsection \<open>Serialisation\<close>

definition format_app_create_message :: "app_payload \<Rightarrow> wcursor \<Rightarrow> wcursor option" where
  "format_app_create_message a p = do {
     p \<leftarrow> put_bytes [ap_req_type a] p;
     p \<leftarrow> put_bytes [ap_addr_from a] p;
     p \<leftarrow> put_bytes [ap_addr_to a] p;
     p \<leftarrow> put_bytes (bytes_of_u16 (ap_id a)) p;
     p \<leftarrow> put_bytes [ap_message_len a] p;
     p \<leftarrow> (if ap_message_len a \<noteq> 0
           then do { (m, _) \<leftarrow> get_bytes (unat (ap_message_len a)) (ap_message a); put_bytes m p }
           else Some p);
     put_bytes (bytes_of_u16 (ap_crc a)) p
   }"

text \<open>
  \<open>msg0\<close> is what the message array of the destination holds before the call.  The copy into
  it is as long as the length byte says: \<open>None\<close> when that exceeds the array.
\<close>

definition format_app_parse_message :: "u8 list \<Rightarrow> rcursor \<Rightarrow> app_payload option" where
  "format_app_parse_message msg0 p = do {
     (req_type, p) \<leftarrow> get_u8 p;
     (addr_from, p) \<leftarrow> get_u8 p;
     (addr_to, p) \<leftarrow> get_u8 p;
     (id, p) \<leftarrow> get_u16 p;
     (message_len, p) \<leftarrow> get_u8 p;
     (message, p) \<leftarrow>
       (if message_len \<noteq> 0
        then do {
          (m, p) \<leftarrow> get_bytes (unat message_len) p;
          (before, rest) \<leftarrow> put_bytes m ([], msg0);
          Some (before @ rest, p)
        }
        else Some (msg0, p));
     (crc, p) \<leftarrow> get_u16 p;
     Some \<lparr>ap_req_type = req_type, ap_addr_from = addr_from, ap_addr_to = addr_to, ap_id = id,
           ap_message_len = message_len, ap_message = message, ap_crc = crc\<rparr>
   }"

subsection \<open>Well-formed payloads\<close>

definition app_ok :: "app_payload \<Rightarrow> bool" where
  "app_ok a \<longleftrightarrow> length (ap_message a) = APP_MESSAGE_LEN \<and> unat (ap_message_len a) \<le> APP_MESSAGE_LEN"

definition app_norm :: "app_payload \<Rightarrow> app_payload" where
  "app_norm a = a\<lparr>ap_message := take (unat (ap_message_len a)) (ap_message a)\<rparr>"

definition app_head :: "app_payload \<Rightarrow> u8 list" where
  "app_head a = [ap_req_type a, ap_addr_from a, ap_addr_to a] @ bytes_of_u16 (ap_id a)
     @ [ap_message_len a] @ take (unat (ap_message_len a)) (ap_message a)"

definition app_wire :: "app_payload \<Rightarrow> u8 list" where
  "app_wire a = app_head a @ bytes_of_u16 (ap_crc a)"

lemma unat_u8_eq_0: "unat (x :: u8) = 0 \<longleftrightarrow> x = 0"
  by (rule unat_eq_zero)

lemma unat_format_app_message_len:
  "app_ok a \<Longrightarrow> unat (format_app_message_len a) = unat (ap_message_len a) + 8"
proof -
  assume ok: "app_ok a"
  have "unat (8 :: u8) = 8" by simp
  moreover have "format_app_message_len a = ap_message_len a + 8"
    by (simp add: format_app_message_len_def)
  ultimately show ?thesis
    using ok by (simp add: app_ok_def settings unat_u8_add)
qed

lemma length_app_head [simp]: "app_ok a \<Longrightarrow> length (app_head a) = unat (ap_message_len a) + 6"
  by (simp add: app_head_def app_ok_def)

lemma length_app_wire: "app_ok a \<Longrightarrow> length (app_wire a) = unat (format_app_message_len a)"
  by (simp add: app_wire_def unat_format_app_message_len)

lemma length_app_struct: "app_ok a \<Longrightarrow> length (app_struct a) = sizeof_app_payload"
  by (simp add: app_struct_def app_ok_def sizeof_app_payload_def)

lemma app_struct_head:
  assumes "app_ok a"
  shows "app_struct a = app_head a @ drop (unat (ap_message_len a)) (ap_message a) @ bytes_of_u16 (ap_crc a)"
  by (simp add: app_struct_def app_head_def)

lemma app_crc_head: "app_ok a \<Longrightarrow> app_crc a = crc16 (app_head a) (length (app_head a))"
  by (simp add: app_crc_def app_struct_head unat_format_app_message_len crc16_eq)

lemma app_norm_iff: "app_norm a = app_norm b \<longleftrightarrow>
    ap_req_type a = ap_req_type b \<and> ap_addr_from a = ap_addr_from b \<and>
    ap_addr_to a = ap_addr_to b \<and> ap_id a = ap_id b \<and> ap_message_len a = ap_message_len b \<and>
    take (unat (ap_message_len a)) (ap_message a) = take (unat (ap_message_len a)) (ap_message b) \<and>
    ap_crc a = ap_crc b"
  unfolding app_norm_def by (cases a, cases b) (auto simp del: take_eq_Nil)

lemma app_norm_head: "app_norm a = app_norm b \<Longrightarrow> app_head a = app_head b"
  unfolding app_norm_iff app_head_def by (elim conjE) simp

lemma app_norm_wire: "app_norm a = app_norm b \<Longrightarrow> app_wire a = app_wire b"
  unfolding app_wire_def app_norm_iff app_head_def by (elim conjE) simp

lemma app_norm_idem [simp]: "app_norm (app_norm a) = app_norm a"
  by (simp add: app_norm_def)

subsection \<open>What the routines compute\<close>

lemma format_app_create_message_eq [fmt]:
  assumes "app_ok a"
  shows "format_app_create_message a p = put_bytes (app_wire a) p"
proof (cases "ap_message_len a = 0")
  case True
  then show ?thesis
    by (simp add: format_app_create_message_def fmt app_wire_def app_head_def)
next
  case False
  moreover have "unat (ap_message_len a) \<le> length (ap_message a)"
    using assms by (simp add: app_ok_def)
  ultimately show ?thesis
    by (simp add: format_app_create_message_def get_bytes_def fmt app_wire_def app_head_def)
qed

lemma format_app_parse_message_wire:
  assumes "app_ok a" and "length msg0 = APP_MESSAGE_LEN"
  shows "format_app_parse_message msg0 (app_wire a @ r)
       = Some (a\<lparr>ap_message := take (unat (ap_message_len a)) (ap_message a)
                              @ drop (unat (ap_message_len a)) msg0\<rparr>)"
proof (cases "ap_message_len a = 0")
  case True
  then show ?thesis
    by (simp add: format_app_parse_message_def app_wire_def app_head_def)
next
  case False
  have "get_bytes (unat (ap_message_len a)) (take (unat (ap_message_len a)) (ap_message a) @ q)
      = Some (take (unat (ap_message_len a)) (ap_message a), q)" for q
    using assms by (intro get_bytes_append) (simp add: app_ok_def)
  with False assms show ?thesis
    by (simp add: format_app_parse_message_def app_wire_def app_head_def app_ok_def min_def)
qed

lemma format_app_parse_message_overflow:
  assumes "length msg0 = APP_MESSAGE_LEN" and "APP_MESSAGE_LEN < unat n"
  shows "format_app_parse_message msg0 (a # b # c # d # e # n # p) = None"
proof -
  have "n \<noteq> 0" using assms(2) by auto
  moreover have "put_bytes (take (unat n) p) ([], msg0) = None" if "unat n \<le> length p"
    using that assms by simp
  ultimately show ?thesis
    by (simp add: format_app_parse_message_def get_u16_def get_bytes_def)
qed

subsection \<open>The codec\<close>

interpretation app: codec app_wire format_app_parse_message app_ok app_norm
proof unfold_locales
  fix x :: app_payload and mem r :: "u8 list"
  assume "app_ok x" and "length mem = APP_MESSAGE_LEN"
  then show "\<exists>y. format_app_parse_message mem (app_wire x @ r) = Some y \<and> app_ok y \<and> app_norm y = app_norm x"
    by (simp add: format_app_parse_message_wire) (simp add: app_norm_def app_ok_def)
qed (rule app_norm_wire)

end
