(* ===== verification/Format.thy ===== *)
theory Format
  imports Format_App
begin

text \<open>
  Message formats: \<^verbatim>\<open>common/include/format.h\<close> and \<^verbatim>\<open>common/src/format.c\<close>.  The payload pointer
  \<^verbatim>\<open>void*\<close> is the datatype \<open>payload\<close>; handing a routine an object of the wrong type is \<open>None\<close>.
  \<open>packet_struct\<close> is the object representation that \<^verbatim>\<open>packet_crc\<close> reads.
\<close>

subsection \<open>Enumerations\<close>

datatype request_result = REQUEST_OK | REQUEST_ERR | REQUEST_UNKNOWN

primrec request_result_code :: "request_result \<Rightarrow> u8" where
  "request_result_code REQUEST_OK = 0"
| "request_result_code REQUEST_ERR = 1"
| "request_result_code REQUEST_UNKNOWN = 2"

datatype request_sender = REQUEST_SENDER_CLIENT | REQUEST_SENDER_NODE | REQUEST_SENDER_SERVER
  | REQUEST_SENDER_UNDEFINED

primrec sender_code :: "request_sender \<Rightarrow> u8" where
  "sender_code REQUEST_SENDER_CLIENT = 0"
| "sender_code REQUEST_SENDER_NODE = 1"
| "sender_code REQUEST_SENDER_SERVER = 2"
| "sender_code REQUEST_SENDER_UNDEFINED = 3"

definition sender_of :: "u8 \<Rightarrow> request_sender option" where
  "sender_of b = find (\<lambda>s. sender_code s = b)
     [REQUEST_SENDER_CLIENT, REQUEST_SENDER_NODE, REQUEST_SENDER_SERVER, REQUEST_SENDER_UNDEFINED]"

lemma sender_of_code [simp]: "sender_of (sender_code s) = Some s"
  by (cases s) (simp_all add: sender_of_def)

datatype request = REQUEST_SEND | REQUEST_UPDATE | REQUEST_PING | REQUEST_NOTIFY
  | REQUEST_ROUTE_DIRECT | REQUEST_ROUTE_INVERSE | REQUEST_KILL_NODE | REQUEST_REVIVE_NODE
  | REQUEST_RESET | REQUEST_BROADCAST | REQUEST_UNICAST | REQUEST_UNICAST_CONTEST
  | REQUEST_UNICAST_FIRST | REQUEST_UNDEFINED

primrec request_code :: "request \<Rightarrow> u8" where
  "request_code REQUEST_SEND = 0"
| "request_code REQUEST_UPDATE = 1"
| "request_code REQUEST_PING = 2"
| "request_code REQUEST_NOTIFY = 3"
| "request_code REQUEST_ROUTE_DIRECT = 4"
| "request_code REQUEST_ROUTE_INVERSE = 5"
| "request_code REQUEST_KILL_NODE = 6"
| "request_code REQUEST_REVIVE_NODE = 7"
| "request_code REQUEST_RESET = 8"
| "request_code REQUEST_BROADCAST = 9"
| "request_code REQUEST_UNICAST = 10"
| "request_code REQUEST_UNICAST_CONTEST = 11"
| "request_code REQUEST_UNICAST_FIRST = 12"
| "request_code REQUEST_UNDEFINED = 13"

definition all_requests :: "request list" where
  "all_requests = [REQUEST_SEND, REQUEST_UPDATE, REQUEST_PING, REQUEST_NOTIFY, REQUEST_ROUTE_DIRECT,
     REQUEST_ROUTE_INVERSE, REQUEST_KILL_NODE, REQUEST_REVIVE_NODE, REQUEST_RESET, REQUEST_BROADCAST,
     REQUEST_UNICAST, REQUEST_UNICAST_CONTEST, REQUEST_UNICAST_FIRST, REQUEST_UNDEFINED]"

definition request_of :: "u8 \<Rightarrow> request option" where
  "request_of b = find (\<lambda>r. request_code r = b) all_requests"

lemma request_of_code [simp]: "request_of (request_code r) = Some r"
  by (cases r) (simp_all add: request_of_def all_requests_def)

lemma request_code_inject [simp]: "request_code r = request_code r' \<longleftrightarrow> r = r'"
  by (metis request_of_code option.inject)

declare request_code.simps [simp del, codes] sender_code.simps [simp del, codes]
  request_result_code.simps [codes]

text \<open>Enumerators are ordered by their value, as C compares them.\<close>

instantiation request :: linorder
begin

definition less_eq_request :: "request \<Rightarrow> request \<Rightarrow> bool" where
  "less_eq_request a b \<longleftrightarrow> request_code a \<le> request_code b"

definition less_request :: "request \<Rightarrow> request \<Rightarrow> bool" where
  "less_request a b \<longleftrightarrow> request_code a < request_code b"

instance
  by standard (auto simp: less_eq_request_def less_request_def less_le)

end

datatype notify_type = NOTIFY_GOT_MESSAGE | NOTIFY_FAIL

primrec notify_code :: "notify_type \<Rightarrow> u8" where
  "notify_code NOTIFY_GOT_MESSAGE = 0"
| "notify_code NOTIFY_FAIL = 1"

lemma notify_code_inject [simp]: "notify_code a = notify_code b \<longleftrightarrow> a = b"
  by (cases a; cases b) simp_all

declare notify_code.simps [simp del, codes]

subsection \<open>Payloads\<close>

record node_packet =
  np_sender_addr :: u8
  np_receiver_addr :: u8
  np_local_sender_addr :: u8
  np_time_to_live :: i8
  np_app :: app_payload
  np_crc :: u16

record node_update =
  nu_pid :: u32
  nu_port :: u16
  nu_addr :: u8

record notify =
  nt_type :: u8
  nt_app_msg_id :: u16

record unicast_contest =
  uc_req :: u8
  uc_node_addr :: u8
  uc_app :: app_payload

datatype payload = Null | Addr u8 | Packet node_packet | Update node_update | Notify notify
  | Unicast unicast_contest

definition MSG_BASE_LEN :: nat where
  "MSG_BASE_LEN = 1 + 1 + 1"

definition sizeof_node_packet :: nat where
  "sizeof_node_packet = 1 + 1 + 1 + 1 + sizeof_app_payload + 2"

definition sizeof_unicast_contest :: nat where
  "sizeof_unicast_contest = 1 + 1 + sizeof_app_payload"

definition sizeof_node_update :: nat where "sizeof_node_update = 4 + 2 + 1"
definition sizeof_notify :: nat where "sizeof_notify = 1 + 2"

lemma sizeof_eqs [settings]:
  "MSG_BASE_LEN = 3" "sizeof_app_payload = 158" "sizeof_node_packet = 164"
  "sizeof_unicast_contest = 160" "sizeof_node_update = 7" "sizeof_notify = 3"
  by (simp_all add: MSG_BASE_LEN_def sizeof_app_payload_def sizeof_node_packet_def
      sizeof_unicast_contest_def sizeof_node_update_def sizeof_notify_def APP_MESSAGE_LEN_def)

definition sizeof_packet :: "node_packet \<Rightarrow> nat" where
  "sizeof_packet p = sizeof_node_packet - sizeof_app_payload + unat (format_app_message_len (np_app p))"

definition packet_struct :: "node_packet \<Rightarrow> u8 list" where
  "packet_struct p = [np_sender_addr p, np_receiver_addr p, np_local_sender_addr p, np_time_to_live p]
     @ app_struct (np_app p) @ bytes_of_u16 (np_crc p)"

definition packet_crc :: "node_packet \<Rightarrow> u16 option" where
  "packet_crc p = crc16 (packet_struct p) (size_sub (size_sub (sizeof_packet p) 2) 2)"

subsection \<open>Headers\<close>

text \<open>The name of the result that the client prints; \<open>None\<close> where the buffer is left untouched.\<close>

definition format_sprint_result :: "u8 \<Rightarrow> string option" where
  "format_sprint_result res =
     (if res = request_result_code REQUEST_OK then Some ''[OK]: 0''
      else if res = request_result_code REQUEST_ERR then Some ''[ERR]: 1''
      else if res = request_result_code REQUEST_UNKNOWN then Some ''[UNKNOWN]: 2''
      else None)"

definition format_define_sender :: "u8 list \<Rightarrow> u8 option" where
  "format_define_sender buf = do { p \<leftarrow> skip_bytes 1 buf; (sender, _) \<leftarrow> get_u8 p; Some sender }"

definition format_is_message_correct :: "nat \<Rightarrow> u8 \<Rightarrow> bool" where
  "format_is_message_correct buf_len msg_len =
     (if buf_len > 1 then (if buf_len \<noteq> unat msg_len then False else True) else False)"

definition create_base :: "u8 \<Rightarrow> request \<Rightarrow> request_sender \<Rightarrow> wcursor \<Rightarrow> wcursor option" where
  "create_base msg_len cmd sender p = do {
     p \<leftarrow> put_bytes [msg_len] p;
     p \<leftarrow> put_bytes [request_code cmd] p;
     put_bytes [sender_code sender] p
   }"

definition skip_base :: "rcursor \<Rightarrow> rcursor option" where
  "skip_base message = do { p \<leftarrow> skip_bytes 1 message; skip_bytes 1 p }"

lemma create_base_eq [fmt]:
  "create_base l r s p = put_bytes [l, request_code r, sender_code s] p"
  by (simp add: create_base_def fmt)

lemma skip_base_Cons [simp]: "skip_base (a # b # p) = Some p"
  by (simp add: skip_base_def flip: One_nat_def) (simp add: skip_bytes_def)

lemma format_define_sender_Cons [simp]: "format_define_sender (a # b # p) = Some b"
  by (simp add: format_define_sender_def skip_bytes_def)

subsection \<open>Building a message\<close>

text \<open>
  \<open>format_create req payload pid (buf, len) sender\<close>: \<open>buf\<close> and \<open>len\<close> are the caller's buffer
  and length variable before the call, \<open>pid\<close> what \<^verbatim>\<open>getpid()\<close> returns.  The result is the
  buffer and the length afterwards and whether \<^verbatim>\<open>not_implemented()\<close> raised \<^verbatim>\<open>SIGTERM\<close>
  (\<^verbatim>\<open>die_\<close> returns when the signal is handled, as it is in the node and in the server).
\<close>

type_synonym create_result = "u8 list \<times> u8 \<times> bool"

text \<open>The first byte of the object a payload pointer points to.\<close>

definition payload_first_byte :: "payload \<Rightarrow> u8 option" where
  "payload_first_byte pl = (case pl of
      Null \<Rightarrow> None
    | Addr a \<Rightarrow> Some a
    | Packet p \<Rightarrow> Some (np_sender_addr p)
    | Update u \<Rightarrow> Some (ucast (nu_pid u))
    | Notify n \<Rightarrow> Some (nt_type n)
    | Unicast u \<Rightarrow> Some (uc_req u))"

definition create_addr :: "request \<Rightarrow> payload \<Rightarrow> u8 list \<Rightarrow> request_sender \<Rightarrow> create_result option" where
  "create_addr req pl buf sender =
     (case payload_first_byte pl of
        Some b \<Rightarrow> (let len = of_nat (1 + MSG_BASE_LEN) in do {
          p \<leftarrow> create_base len req sender ([], buf);
          p \<leftarrow> put_bytes [b] p;
          Some (buffer_of p, len, False) })
      | None \<Rightarrow> (let len = of_nat (1 + 1 + 1) in do {
          p \<leftarrow> create_base len req sender ([], buf);
          Some (buffer_of p, len, False) }))"

definition create_update :: "request \<Rightarrow> node_update \<Rightarrow> u32 \<Rightarrow> u8 list \<Rightarrow> request_sender \<Rightarrow> create_result option" where
  "create_update req u pid buf sender = (let len = of_nat (sizeof_node_update + MSG_BASE_LEN) in do {
     p \<leftarrow> create_base len req sender ([], buf);
     p \<leftarrow> put_bytes (bytes_of_u16 (nu_port u)) p;
     p \<leftarrow> put_bytes [nu_addr u] p;
     p \<leftarrow> put_bytes (bytes_of_u32 pid) p;
     Some (buffer_of p, len, False) })"

definition create_notify :: "request \<Rightarrow> notify \<Rightarrow> u8 list \<Rightarrow> request_sender \<Rightarrow> create_result option" where
  "create_notify req n buf sender = (let len = of_nat (MSG_BASE_LEN + sizeof_notify) in do {
     p \<leftarrow> create_base len req sender ([], buf);
     p \<leftarrow> put_bytes [nt_type n] p;
     p \<leftarrow> put_bytes (bytes_of_u16 (nt_app_msg_id n)) p;
     Some (buffer_of p, len, False) })"

definition create_route :: "request \<Rightarrow> node_packet \<Rightarrow> u8 list \<Rightarrow> request_sender \<Rightarrow> create_result option" where
  "create_route req r buf sender = (let len = of_nat (sizeof_packet r + MSG_BASE_LEN) in do {
     p \<leftarrow> create_base len req sender ([], buf);
     p \<leftarrow> put_bytes [np_sender_addr r] p;
     p \<leftarrow> put_bytes [np_receiver_addr r] p;
     p \<leftarrow> put_bytes [np_local_sender_addr r] p;
     p \<leftarrow> put_bytes [np_time_to_live r] p;
     q \<leftarrow> format_app_create_message (np_app r) p;
     p \<leftarrow> seek (length (fst p) + unat (format_app_message_len (np_app r))) q;
     p \<leftarrow> put_bytes (bytes_of_u16 (np_crc r)) p;
     Some (buffer_of p, len, False) })"

definition create_unicast :: "request \<Rightarrow> unicast_contest \<Rightarrow> u8 list \<Rightarrow> request_sender \<Rightarrow> create_result option" where
  "create_unicast req u buf sender = (let len = of_nat (sizeof_unicast_contest + MSG_BASE_LEN) in do {
     p \<leftarrow> create_base len req sender ([], buf);
     p \<leftarrow> put_bytes [uc_req u] p;
     p \<leftarrow> put_bytes [uc_node_addr u] p;
     p \<leftarrow> format_app_create_message (uc_app u) p;
     Some (buffer_of p, len, False) })"

definition is_addr_request :: "request \<Rightarrow> bool" where
  "is_addr_request req \<longleftrightarrow> req \<in> {REQUEST_PING, REQUEST_KILL_NODE, REQUEST_REVIVE_NODE, REQUEST_RESET}"

definition is_route_request :: "request \<Rightarrow> bool" where
  "is_route_request req \<longleftrightarrow> req \<in> {REQUEST_ROUTE_DIRECT, REQUEST_ROUTE_INVERSE, REQUEST_SEND,
     REQUEST_BROADCAST, REQUEST_UNICAST}"

definition is_unicast_request :: "request \<Rightarrow> bool" where
  "is_unicast_request req \<longleftrightarrow> req \<in> {REQUEST_UNICAST_CONTEST, REQUEST_UNICAST_FIRST}"

definition format_create ::
  "request \<Rightarrow> payload \<Rightarrow> u32 \<Rightarrow> u8 list \<times> u8 \<Rightarrow> request_sender \<Rightarrow> create_result option" where
  "format_create req pl pid out sender = (case out of (buf, len) \<Rightarrow>
     if is_addr_request req then create_addr req pl buf sender
     else if req = REQUEST_UPDATE then
       (case pl of Null \<Rightarrow> Some (buf, len, False)
        | Update u \<Rightarrow> create_update req u pid buf sender | _ \<Rightarrow> None)
     else if req = REQUEST_NOTIFY then
       (case pl of Notify n \<Rightarrow> create_notify req n buf sender | _ \<Rightarrow> None)
     else if is_route_request req then
       (case pl of Packet r \<Rightarrow> create_route req r buf sender | _ \<Rightarrow> None)
     else if is_unicast_request req then
       (case pl of Unicast u \<Rightarrow> create_unicast req u buf sender | _ \<Rightarrow> None)
     else Some (buf, len, True))"

subsection \<open>Reading a message\<close>

text \<open>
  \<open>buf\<close> is the receive buffer from the request byte on (the length byte has been consumed) and
  \<open>junk\<close> the contents of the object \<^verbatim>\<open>malloc\<close> returns, of which only the message array can
  survive the parse.
\<close>

definition parse_addr_payload :: "u8 list \<Rightarrow> u8 option" where
  "parse_addr_payload buf = do { p \<leftarrow> skip_base buf; (a, _) \<leftarrow> get_u8 p; Some a }"

definition parse_route_payload :: "u8 list \<Rightarrow> u8 list \<Rightarrow> node_packet option" where
  "parse_route_payload msg0 buf = do {
     p \<leftarrow> skip_base buf;
     (sender, p) \<leftarrow> get_u8 p;
     (receiver, p) \<leftarrow> get_u8 p;
     (local_sender, p) \<leftarrow> get_u8 p;
     (ttl, p) \<leftarrow> get_u8 p;
     app \<leftarrow> format_app_parse_message msg0 p;
     p \<leftarrow> skip_bytes (unat (format_app_message_len app)) p;
     (crc, _) \<leftarrow> get_u16 p;
     Some \<lparr>np_sender_addr = sender, np_receiver_addr = receiver, np_local_sender_addr = local_sender,
           np_time_to_live = ttl, np_app = app, np_crc = crc\<rparr> }"

definition parse_node_update_payload :: "u8 list \<Rightarrow> node_update option" where
  "parse_node_update_payload buf = do {
     p \<leftarrow> skip_base buf;
     (port, p) \<leftarrow> get_u16 p;
     (addr, p) \<leftarrow> get_u8 p;
     (pid, _) \<leftarrow> get_u32 p;
     Some \<lparr>nu_pid = pid, nu_port = port, nu_addr = addr\<rparr> }"

definition parse_notify_payload :: "u8 list \<Rightarrow> notify option" where
  "parse_notify_payload buf = do {
     p \<leftarrow> skip_base buf;
     (ty, p) \<leftarrow> get_u8 p;
     (id, _) \<leftarrow> get_u16 p;
     Some \<lparr>nt_type = ty, nt_app_msg_id = id\<rparr> }"

definition parse_unicast_contest_payload :: "u8 list \<Rightarrow> u8 list \<Rightarrow> unicast_contest option" where
  "parse_unicast_contest_payload msg0 buf = do {
     p \<leftarrow> skip_base buf;
     (req, p) \<leftarrow> get_u8 p;
     (addr, p) \<leftarrow> get_u8 p;
     app \<leftarrow> format_app_parse_message msg0 p;
     Some \<lparr>uc_req = req, uc_node_addr = addr, uc_app = app\<rparr> }"

text \<open>The request (\<open>None\<close> when the byte is no enumerator) and the payload pointer (\<open>Null\<close> when untouched).\<close>

definition format_parse :: "(nat \<Rightarrow> u8) \<Rightarrow> u8 list \<Rightarrow> (request option \<times> payload \<times> bool) option" where
  "format_parse junk buf = do {
     (cmd, _) \<leftarrow> get_u8 buf;
     (case request_of cmd of
        None \<Rightarrow> Some (None, Null, True)
      | Some r \<Rightarrow>
          if r \<in> {REQUEST_PING, REQUEST_REVIVE_NODE, REQUEST_KILL_NODE}
          then map_option (\<lambda>a. (Some r, Addr a, False)) (parse_addr_payload buf)
          else if r = REQUEST_RESET then Some (Some r, Null, False)
          else if is_route_request r
          then map_option (\<lambda>q. (Some r, Packet q, False)) (parse_route_payload (uninit junk APP_MESSAGE_LEN) buf)
          else if r = REQUEST_UPDATE
          then map_option (\<lambda>u. (Some r, Update u, False)) (parse_node_update_payload buf)
          else if r = REQUEST_NOTIFY
          then map_option (\<lambda>n. (Some r, Notify n, False)) (parse_notify_payload buf)
          else if is_unicast_request r
          then map_option (\<lambda>u. (Some r, Unicast u, False)) (parse_unicast_contest_payload (uninit junk APP_MESSAGE_LEN) buf)
          else Some (Some r, Null, False)) }"

end
