(* ===== verification/Format_Wire.thy ===== *)
theory Format_Wire
  imports Format
begin

text \<open>
  What the formatting routines of \<open>Format\<close> compute: every message is a three-byte header and a
  body (\<open>wire_body\<close>); \<open>format_create\<close> writes exactly those bytes at the front of a buffer that
  can hold them, and \<open>format_parse\<close> reads them back.  The payload formats are interpretations
  of the locale \<open>codec\<close>.
\<close>

subsection \<open>Packets\<close>

definition packet_ok :: "node_packet \<Rightarrow> bool" where
  "packet_ok p \<longleftrightarrow> app_ok (np_app p)"

definition packet_norm :: "node_packet \<Rightarrow> node_packet" where
  "packet_norm p = p\<lparr>np_app := app_norm (np_app p)\<rparr>"

definition packet_head :: "node_packet \<Rightarrow> u8 list" where
  "packet_head p = [np_sender_addr p, np_receiver_addr p, np_local_sender_addr p, np_time_to_live p]
     @ app_head (np_app p)"

definition packet_wire :: "node_packet \<Rightarrow> u8 list" where
  "packet_wire p = [np_sender_addr p, np_receiver_addr p, np_local_sender_addr p, np_time_to_live p]
     @ app_wire (np_app p) @ bytes_of_u16 (np_crc p)"

lemma length_packet_head: "packet_ok p \<Longrightarrow> length (packet_head p) = unat (ap_message_len (np_app p)) + 10"
  by (simp add: packet_head_def packet_ok_def)

lemma length_packet_wire: "packet_ok p \<Longrightarrow> length (packet_wire p) = sizeof_packet p"
  by (simp add: packet_wire_def packet_ok_def length_app_wire sizeof_packet_def settings)

lemma sizeof_packet_ok: "packet_ok p \<Longrightarrow> sizeof_packet p = unat (ap_message_len (np_app p)) + 14"
  by (simp add: sizeof_packet_def packet_ok_def unat_format_app_message_len settings)

text \<open>\<^verbatim>\<open>packet_crc\<close> covers everything but the two checksums, and none of the unused message bytes.\<close>

lemma packet_crc_head: "packet_ok p \<Longrightarrow> packet_crc p = crc16 (packet_head p) (length (packet_head p))"
proof -
  assume ok: "packet_ok p"
  then obtain t where "packet_struct p = packet_head p @ t"
    by (simp add: packet_ok_def packet_struct_def packet_head_def app_struct_head)
  then show ?thesis
    using ok crc16_take [of "packet_head p" t]
    by (simp add: packet_crc_def sizeof_packet_ok length_packet_head add.commute)
qed

lemma packet_norm_parts:
  "packet_norm p = packet_norm q \<Longrightarrow> np_sender_addr p = np_sender_addr q \<and> np_receiver_addr p = np_receiver_addr q
     \<and> np_local_sender_addr p = np_local_sender_addr q \<and> np_time_to_live p = np_time_to_live q
     \<and> app_norm (np_app p) = app_norm (np_app q)"
  unfolding packet_norm_def by (cases p, cases q) auto

lemma packet_norm_head:
  assumes "packet_norm p = packet_norm q" shows "packet_head p = packet_head q" "np_crc p = np_crc q"
    "app_norm (np_app p) = app_norm (np_app q)" "packet_wire p = packet_wire q"
proof -
  have "np_sender_addr p = np_sender_addr q \<and> np_receiver_addr p = np_receiver_addr q \<and>
      np_local_sender_addr p = np_local_sender_addr q \<and> np_time_to_live p = np_time_to_live q \<and>
      app_norm (np_app p) = app_norm (np_app q) \<and> np_crc p = np_crc q"
    using assms unfolding packet_norm_def by (cases p, cases q) auto
  then show "packet_head p = packet_head q" "np_crc p = np_crc q"
    "app_norm (np_app p) = app_norm (np_app q)" "packet_wire p = packet_wire q"
    using app_norm_head [of "np_app p" "np_app q"] app_norm_wire [of "np_app p" "np_app q"]
    by (simp_all add: packet_head_def packet_wire_def)
qed

lemma packet_norm_crc:
  "packet_norm p = packet_norm q \<Longrightarrow> packet_ok p \<Longrightarrow> packet_ok q \<Longrightarrow> packet_crc p = packet_crc q"
  by (simp add: packet_crc_head packet_norm_head [of p q])

lemma parse_route_payload_wire:
  assumes "packet_ok p" and "length mem = APP_MESSAGE_LEN"
  shows "parse_route_payload mem (c # s # packet_wire p @ r)
       = Some (p\<lparr>np_app := (np_app p)\<lparr>ap_message :=
            take (unat (ap_message_len (np_app p))) (ap_message (np_app p))
            @ drop (unat (ap_message_len (np_app p))) mem\<rparr>\<rparr>)"
proof -
  let ?a = "(np_app p)\<lparr>ap_message := take (unat (ap_message_len (np_app p))) (ap_message (np_app p))
            @ drop (unat (ap_message_len (np_app p))) mem\<rparr>"
  have ok: "app_ok (np_app p)" using assms(1) by (simp add: packet_ok_def)
  have len: "length (app_wire (np_app p)) = unat (format_app_message_len ?a)"
    using length_app_wire [OF ok] by (simp add: format_app_message_len_def)
  have "skip_bytes (unat (format_app_message_len ?a)) (app_wire (np_app p) @ q) = Some q" for q
    by (rule skip_bytes_append) (rule len)
  then show ?thesis
    using assms(2) ok
    by (simp add: parse_route_payload_def packet_wire_def format_app_parse_message_wire)
qed

interpretation route: codec "\<lambda>p. c # s # packet_wire p" parse_route_payload packet_ok packet_norm
  for c s :: u8
proof unfold_locales
  fix x :: node_packet and mem r :: "u8 list"
  assume "packet_ok x" and "length mem = APP_MESSAGE_LEN"
  then show "\<exists>y. parse_route_payload mem ((c # s # packet_wire x) @ r) = Some y \<and> packet_ok y
      \<and> packet_norm y = packet_norm x"
    by (simp add: parse_route_payload_wire)
       (simp add: packet_ok_def app_ok_def packet_norm_def app_norm_def)
next
  show "c # s # packet_wire x = c # s # packet_wire y" if "packet_norm x = packet_norm y" for x y
    using packet_norm_head(4) [OF that] by simp
qed

subsection \<open>The other payloads\<close>

definition update_wire :: "u32 \<Rightarrow> node_update \<Rightarrow> u8 list" where
  "update_wire pid u = bytes_of_u16 (nu_port u) @ [nu_addr u] @ bytes_of_u32 pid"

definition notify_wire :: "notify \<Rightarrow> u8 list" where
  "notify_wire n = [nt_type n] @ bytes_of_u16 (nt_app_msg_id n)"

definition unicast_wire :: "unicast_contest \<Rightarrow> u8 list" where
  "unicast_wire u = [uc_req u, uc_node_addr u] @ app_wire (uc_app u)"

definition unicast_ok :: "unicast_contest \<Rightarrow> bool" where
  "unicast_ok u \<longleftrightarrow> app_ok (uc_app u)"

definition unicast_norm :: "unicast_contest \<Rightarrow> unicast_contest" where
  "unicast_norm u = u\<lparr>uc_app := app_norm (uc_app u)\<rparr>"

interpretation update: codec "\<lambda>u. c # s # update_wire (nu_pid u) u" "\<lambda>_. parse_node_update_payload"
  "\<lambda>_. True" "\<lambda>u. u" for c s :: u8
  by unfold_locales (simp_all add: parse_node_update_payload_def update_wire_def)

interpretation notify: codec "\<lambda>n. c # s # notify_wire n" "\<lambda>_. parse_notify_payload"
  "\<lambda>_. True" "\<lambda>n. n" for c s :: u8
  by unfold_locales (simp_all add: parse_notify_payload_def notify_wire_def)

lemma parse_unicast_wire:
  assumes "unicast_ok u" and "length mem = APP_MESSAGE_LEN"
  shows "parse_unicast_contest_payload mem (c # s # unicast_wire u @ r)
       = Some (u\<lparr>uc_app := (uc_app u)\<lparr>ap_message :=
            take (unat (ap_message_len (uc_app u))) (ap_message (uc_app u))
            @ drop (unat (ap_message_len (uc_app u))) mem\<rparr>\<rparr>)"
  using assms
  by (simp add: parse_unicast_contest_payload_def unicast_wire_def unicast_ok_def
      format_app_parse_message_wire)

interpretation unicast: codec "\<lambda>u. c # s # unicast_wire u" parse_unicast_contest_payload
  unicast_ok unicast_norm for c s :: u8
proof unfold_locales
  fix x :: unicast_contest and mem r :: "u8 list"
  assume "unicast_ok x" and "length mem = APP_MESSAGE_LEN"
  then show "\<exists>y. parse_unicast_contest_payload mem ((c # s # unicast_wire x) @ r) = Some y
      \<and> unicast_ok y \<and> unicast_norm y = unicast_norm x"
    by (simp add: parse_unicast_wire) (simp add: unicast_ok_def app_ok_def unicast_norm_def app_norm_def)
next
  fix x y assume norm: "unicast_norm x = unicast_norm y"
  have "uc_req x = uc_req y \<and> uc_node_addr x = uc_node_addr y \<and> app_norm (uc_app x) = app_norm (uc_app y)"
    using norm unfolding unicast_norm_def by (cases x, cases y) auto
  then show "c # s # unicast_wire x = c # s # unicast_wire y"
    using app_norm_wire [of "uc_app x" "uc_app y"] by (simp add: unicast_wire_def)
qed

subsection \<open>Messages\<close>

primrec wire_body :: "u32 \<Rightarrow> payload \<Rightarrow> u8 list" where
  "wire_body pid Null = []"
| "wire_body pid (Addr a) = [a]"
| "wire_body pid (Packet p) = packet_wire p"
| "wire_body pid (Update u) = update_wire pid u"
| "wire_body pid (Notify n) = notify_wire n"
| "wire_body pid (Unicast u) = unicast_wire u"

text \<open>The length byte: the size of the message, except that a unicast contest is always sent whole.\<close>

primrec wire_len :: "payload \<Rightarrow> nat" where
  "wire_len Null = 3"
| "wire_len (Addr a) = 4"
| "wire_len (Packet p) = sizeof_packet p + 3"
| "wire_len (Update u) = 10"
| "wire_len (Notify n) = 6"
| "wire_len (Unicast u) = 163"

primrec payload_ok :: "payload \<Rightarrow> bool" where
  "payload_ok Null \<longleftrightarrow> True"
| "payload_ok (Addr a) \<longleftrightarrow> True"
| "payload_ok (Packet p) \<longleftrightarrow> packet_ok p"
| "payload_ok (Update u) \<longleftrightarrow> True"
| "payload_ok (Notify n) \<longleftrightarrow> True"
| "payload_ok (Unicast u) \<longleftrightarrow> unicast_ok u"

definition fits :: "request \<Rightarrow> payload \<Rightarrow> bool" where
  "fits req pl \<longleftrightarrow> (case pl of
      Null \<Rightarrow> is_addr_request req
    | Addr _ \<Rightarrow> is_addr_request req
    | Packet _ \<Rightarrow> is_route_request req
    | Update _ \<Rightarrow> req = REQUEST_UPDATE
    | Notify _ \<Rightarrow> req = REQUEST_NOTIFY
    | Unicast _ \<Rightarrow> is_unicast_request req)"

definition wire_message :: "request \<Rightarrow> payload \<Rightarrow> u32 \<Rightarrow> request_sender \<Rightarrow> u8 list" where
  "wire_message req pl pid s = [of_nat (wire_len pl), request_code req, sender_code s] @ wire_body pid pl"

lemma length_wire_message:
  assumes "payload_ok pl"
  shows "length (wire_message req pl pid s) \<le> wire_len pl" and "wire_len pl \<le> 167"
    and "(\<forall>u. pl \<noteq> Unicast u) \<Longrightarrow> length (wire_message req pl pid s) = wire_len pl"
  using assms
  by (cases pl; simp add: wire_message_def length_packet_wire update_wire_def notify_wire_def
      unicast_wire_def unicast_ok_def length_app_wire unat_format_app_message_len sizeof_packet_ok,
      (simp add: app_ok_def packet_ok_def settings)?)+

lemma unat_wire_len: "payload_ok pl \<Longrightarrow> unat (of_nat (wire_len pl) :: u8) = wire_len pl"
  using length_wire_message(2) [of pl] by (simp add: unat_of_nat)

lemma not_addr_request [simp]:
  "is_route_request r \<Longrightarrow> \<not> is_addr_request r" "is_unicast_request r \<Longrightarrow> \<not> is_addr_request r"
  "is_unicast_request r \<Longrightarrow> \<not> is_route_request r"
  "\<not> is_addr_request REQUEST_UPDATE" "\<not> is_addr_request REQUEST_NOTIFY"
  "\<not> is_route_request REQUEST_UPDATE" "\<not> is_route_request REQUEST_NOTIFY"
  "\<not> is_unicast_request REQUEST_UPDATE" "\<not> is_unicast_request REQUEST_NOTIFY"
  by (auto simp: is_addr_request_def is_route_request_def is_unicast_request_def)

lemma is_route_request_neq [simp]:
  "is_route_request r \<Longrightarrow> r \<noteq> REQUEST_UPDATE" "is_route_request r \<Longrightarrow> r \<noteq> REQUEST_NOTIFY"
  "is_unicast_request r \<Longrightarrow> r \<noteq> REQUEST_UPDATE" "is_unicast_request r \<Longrightarrow> r \<noteq> REQUEST_NOTIFY"
  by auto

text \<open>Writing a string of bytes at the front of a buffer.\<close>

definition write_front :: "u8 list \<Rightarrow> u8 list \<Rightarrow> u8 list option" where
  "write_front bs buf = map_option buffer_of (put_bytes bs ([], buf))"

lemma write_front_eq:
  "write_front bs buf = (if length bs \<le> length buf then Some (bs @ drop (length bs) buf) else None)"
  by (simp add: write_front_def put_bytes_def buffer_of_def)

lemma put_finish [fmt]:
  "Option.bind (put_bytes bs ([], buf)) (\<lambda>p. Some (buffer_of p, l, d))
   = map_option (\<lambda>b. (b, l, d)) (write_front bs buf)"
  by (cases "put_bytes bs ([], buf)") (simp_all add: write_front_def)

lemma put_seek [fmt]:
  "Option.bind (put_bytes bs ([], buf)) (\<lambda>p. Option.bind (put_bytes cs p)
      (\<lambda>q. Option.bind (seek (length (fst p) + length cs) q) f))
   = Option.bind (put_bytes (bs @ cs) ([], buf)) f"
  by (auto simp: put_bytes_def seek_def buffer_of_def bind_eq_None_conv add.commute)

lemma format_create_eq:
  assumes "fits req pl" and "payload_ok pl"
  shows "format_create req pl pid (buf, len) s
       = map_option (\<lambda>b. (b, of_nat (wire_len pl), False)) (write_front (wire_message req pl pid s) buf)"
proof (cases pl)
  case Null
  with assms show ?thesis
    by (simp add: fits_def format_create_def create_addr_def payload_first_byte_def fmt
        wire_message_def Let_def)
next
  case (Addr a)
  with assms show ?thesis
    by (simp add: fits_def format_create_def create_addr_def payload_first_byte_def fmt
        wire_message_def Let_def settings)
next
  case (Packet p)
  then have ok: "app_ok (np_app p)" and req: "is_route_request req"
    using assms by (simp_all add: fits_def packet_ok_def)
  have seek: "Option.bind (put_bytes bs ([], buf)) (\<lambda>p'. Option.bind (put_bytes (app_wire (np_app p)) p')
      (\<lambda>q. Option.bind (seek (length (fst p') + unat (format_app_message_len (np_app p))) q) f))
    = Option.bind (put_bytes (bs @ app_wire (np_app p)) ([], buf)) f" for bs f
    using put_seek [of bs buf "app_wire (np_app p)" f] by (simp add: length_app_wire [OF ok])
  have "format_create req pl pid (buf, len) s = create_route req p buf s"
    using Packet req by (simp add: format_create_def)
  also have "\<dots> = map_option (\<lambda>b. (b, of_nat (sizeof_packet p + 3), False))
      (write_front (([of_nat (sizeof_packet p + 3), request_code req, sender_code s] @ packet_wire p)) buf)"
    by (simp add: create_route_def Let_def fmt ok seek packet_wire_def settings)
  finally show ?thesis
    using Packet by (simp add: wire_message_def)
next
  case (Update u)
  with assms show ?thesis
    by (simp add: fits_def format_create_def create_update_def fmt wire_message_def update_wire_def
        Let_def settings)
next
  case (Notify n)
  with assms show ?thesis
    by (simp add: fits_def format_create_def create_notify_def fmt wire_message_def notify_wire_def
        Let_def settings)
next
  case (Unicast u)
  with assms show ?thesis
    by (simp add: fits_def format_create_def create_unicast_def fmt wire_message_def unicast_wire_def
        Let_def settings unicast_ok_def)
qed

text \<open>Reading back: requests whose payload the parser looks at.\<close>

definition carries :: "request \<Rightarrow> payload \<Rightarrow> bool" where
  "carries req pl \<longleftrightarrow> fits req pl \<and> (case pl of
      Null \<Rightarrow> req = REQUEST_RESET | Addr _ \<Rightarrow> req \<noteq> REQUEST_RESET | _ \<Rightarrow> True)"

primrec payload_norm :: "u32 \<Rightarrow> payload \<Rightarrow> payload" where
  "payload_norm pid Null = Null"
| "payload_norm pid (Addr a) = Addr a"
| "payload_norm pid (Packet p) = Packet (packet_norm p)"
| "payload_norm pid (Update u) = Update (u\<lparr>nu_pid := pid\<rparr>)"
| "payload_norm pid (Notify n) = Notify n"
| "payload_norm pid (Unicast u) = Unicast (unicast_norm u)"

lemma format_parse_wire:
  assumes "carries req pl" and "payload_ok pl"
  shows "\<exists>pl'. format_parse junk (request_code req # sender_code s # wire_body pid pl @ r)
       = Some (Some req, pl', False) \<and> payload_norm pid pl' = payload_norm pid pl \<and> payload_ok pl'"
proof (cases pl)
  case Null
  with assms show ?thesis
    by (simp add: carries_def format_parse_def)
next
  case (Addr a)
  with assms show ?thesis
    by (auto simp: carries_def fits_def is_addr_request_def format_parse_def parse_addr_payload_def)
next
  case (Packet p)
  then have req: "is_route_request req" and "packet_ok p"
    using assms by (simp_all add: carries_def fits_def)
  then obtain q where "parse_route_payload (uninit junk APP_MESSAGE_LEN)
      ((request_code req # sender_code s # packet_wire p) @ r) = Some q" "packet_ok q"
      "packet_norm q = packet_norm p"
    using route.dec_enc [of p "uninit junk APP_MESSAGE_LEN"] by (metis length_uninit)
  with Packet req show ?thesis
    by (auto simp: format_parse_def is_route_request_def)
next
  case (Update u)
  with assms show ?thesis
    by (simp add: carries_def fits_def format_parse_def is_route_request_def update_wire_def
        parse_node_update_payload_def)
next
  case (Notify n)
  with assms show ?thesis
    by (simp add: carries_def fits_def format_parse_def is_route_request_def notify_wire_def
        parse_notify_payload_def)
next
  case (Unicast u)
  then have req: "is_unicast_request req" and "unicast_ok u"
    using assms by (simp_all add: carries_def fits_def)
  then obtain v where "parse_unicast_contest_payload (uninit junk APP_MESSAGE_LEN)
      ((request_code req # sender_code s # unicast_wire u) @ r) = Some v" "unicast_ok v"
      "unicast_norm v = unicast_norm u"
    using unicast.dec_enc [of u "uninit junk APP_MESSAGE_LEN"] by (metis length_uninit)
  with Unicast req show ?thesis
    by (auto simp: format_parse_def is_unicast_request_def is_route_request_def)
qed

text \<open>
  Into a fresh buffer of \<open>cap\<close> bytes: the message, and the buffer's old contents behind it.
  \<open>transmitted\<close> is what a sender puts on the wire, the number of bytes the length byte declares.
\<close>

definition transmitted :: "(nat \<Rightarrow> u8) \<Rightarrow> u32 \<Rightarrow> request \<Rightarrow> payload \<Rightarrow> request_sender \<Rightarrow> u8 list" where
  "transmitted junk pid req pl s = (let m = wire_message req pl pid s in
     m @ map junk [length m..<wire_len pl])"

lemma format_create_uninit:
  assumes "fits req pl" and "payload_ok pl"
  shows "format_create req pl pid (uninit junk cap, l) s =
     (let m = wire_message req pl pid s in
      if length m \<le> cap then Some (m @ map junk [length m..<cap], of_nat (wire_len pl), False) else None)"
  using assms by (simp add: format_create_eq write_front_eq uninit_def drop_map Let_def)

lemma length_transmitted: "payload_ok pl \<Longrightarrow> length (transmitted junk pid req pl s) = wire_len pl"
  using length_wire_message(1) [of pl req pid s] by (simp add: transmitted_def Let_def)

lemma take_created:
  assumes "payload_ok pl" and "wire_len pl \<le> cap"
  shows "take (wire_len pl) (wire_message req pl pid s @ map junk [length (wire_message req pl pid s)..<cap])
       = transmitted junk pid req pl s"
  using assms length_wire_message(1) [OF assms(1), of req pid s]
  by (simp add: transmitted_def Let_def take_map)

lemma transmitted_exact:
  assumes "payload_ok pl" and "\<forall>u. pl \<noteq> Unicast u"
  shows "transmitted junk pid req pl s = wire_message req pl pid s"
  using length_wire_message(3) [OF assms, of req pid s] by (simp add: transmitted_def Let_def)

subsection \<open>Checksums of packets\<close>

definition valid_crc :: "node_packet \<Rightarrow> bool" where
  "valid_crc p \<longleftrightarrow> packet_crc p = Some (np_crc p)"

definition seal :: "node_packet \<Rightarrow> node_packet" where
  "seal p = (case packet_crc p of Some c \<Rightarrow> p\<lparr>np_crc := c\<rparr> | None \<Rightarrow> p)"

lemma packet_crc_Some: "packet_ok p \<Longrightarrow> \<exists>c. packet_crc p = Some c"
  by (simp add: packet_crc_head crc16_eq)

lemma packet_ok_crc [simp]: "packet_ok (p\<lparr>np_crc := c\<rparr>) = packet_ok p"
  by (simp add: packet_ok_def)

lemma packet_crc_update [simp]: "packet_ok p \<Longrightarrow> packet_crc (p\<lparr>np_crc := c\<rparr>) = packet_crc p"
  by (simp add: packet_crc_head) (simp add: packet_head_def)

lemma seal_valid: "packet_ok p \<Longrightarrow> valid_crc (seal p)"
  using packet_crc_Some [of p] by (auto simp: valid_crc_def seal_def)

lemma seal_ok [simp]: "packet_ok (seal p) = packet_ok p"
  by (simp add: seal_def split: option.split)

lemma seal_fields [simp]:
  "np_sender_addr (seal p) = np_sender_addr p" "np_receiver_addr (seal p) = np_receiver_addr p"
  "np_local_sender_addr (seal p) = np_local_sender_addr p" "np_time_to_live (seal p) = np_time_to_live p"
  "np_app (seal p) = np_app p"
  by (simp_all add: seal_def split: option.split)

lemma packet_crc_seal: "packet_crc p = Some c \<Longrightarrow> p\<lparr>np_crc := c\<rparr> = seal p"
  by (simp add: seal_def)

lemma valid_crc_norm:
  "packet_norm p = packet_norm q \<Longrightarrow> packet_ok p \<Longrightarrow> packet_ok q \<Longrightarrow> valid_crc p = valid_crc q"
  using packet_norm_crc [of p q] packet_norm_head(2) [of p q] by (simp add: valid_crc_def)

end
