(* ===== verification/Io.thy ===== *)
theory Io
  imports Settings
begin

text \<open>
  The operating system as the program sees it, and the loops around it: \<^verbatim>\<open>common/src/io.c\<close> and
  \<^verbatim>\<open>common/src/connection.c\<close>.  The outside world is the record \<open>os\<close>: each field answers one
  system or library call, and may depend on everything that happened before (the trace of
  earlier calls), so nothing is assumed about scheduling, peers or failures.  \<open>send_call\<close> and
  \<open>recv_call\<close> add the one thing the manual pages promise: a call never transfers more bytes
  than it was asked to.
\<close>

datatype recv_result = RecvError | RecvBytes "u8 list" \<comment> \<open>\<open>RecvBytes []\<close> is end of file\<close>

datatype os_event =
    EvSocket int
  | EvConnect int u16 int
  | EvBind int u16 int
  | EvListen int int
  | EvSend int "u8 list" int \<comment> \<open>descriptor, bytes offered, return value\<close>
  | EvRecv int "u8 list"
  | EvRecvError int
  | EvClose int
  | EvFork int
  | EvKill int
  | EvExec "string"
  | EvPoll nat
  | EvAccept int int
  | EvExit int \<comment> \<open>the process ended with this status\<close>
  | EvSigterm \<comment> \<open>\<^verbatim>\<open>die_\<close> raised \<^verbatim>\<open>SIGTERM\<close> in this process\<close>

type_synonym trace = "os_event list"

record os =
  os_socket :: "trace \<Rightarrow> int"
  os_connect :: "trace \<Rightarrow> int \<Rightarrow> u16 \<Rightarrow> int"
  os_bind :: "trace \<Rightarrow> int \<Rightarrow> u16 \<Rightarrow> int"
  os_listen :: "trace \<Rightarrow> int \<Rightarrow> int"
  os_send :: "trace \<Rightarrow> int \<Rightarrow> u8 list \<Rightarrow> int"
  os_recv :: "trace \<Rightarrow> int \<Rightarrow> nat \<Rightarrow> recv_result"
  os_fork :: "trace \<Rightarrow> int"
  os_poll :: "trace \<Rightarrow> nat \<Rightarrow> (nat \<Rightarrow> bool) option" \<comment> \<open>\<^verbatim>\<open>POLLIN\<close> for each of the entries, or an error\<close>
  os_accept :: "trace \<Rightarrow> int \<Rightarrow> int"
  os_getpid :: u32
  os_junk :: "nat \<Rightarrow> u8" \<comment> \<open>contents of memory that was never written\<close>
  os_deflate :: "u8 list \<Rightarrow> u8 list" \<comment> \<open>zlib, see \<open>Node_App\<close>\<close>
  os_inflate :: "u8 list \<Rightarrow> u8 list"

subsection \<open>Sending\<close>

definition send_call :: "os \<Rightarrow> trace \<Rightarrow> int \<Rightarrow> u8 list \<Rightarrow> int" where
  "send_call os tr fd buf = min (os_send os tr fd buf) (int (length buf))"

lemma send_call_le: "send_call os tr fd (take n buf) \<le> int n"
proof -
  have "send_call os tr fd (take n buf) \<le> int (length (take n buf))"
    unfolding send_call_def by (rule min.cobounded2)
  also have "\<dots> \<le> int n"
    by (simp only: of_nat_le_iff length_take min.cobounded2)
  finally show ?thesis .
qed

function io_write_loop :: "os \<Rightarrow> int \<Rightarrow> u8 list \<Rightarrow> u8 \<Rightarrow> trace \<Rightarrow> bool \<times> trace" where
  "io_write_loop os fd buf n tr =
     (if n > 0 then
        let rv = send_call os tr fd (take (unat n) buf);
            tr' = tr @ [EvSend fd (take (unat n) buf) rv]
        in if rv \<le> 0 then (False, tr')
           else io_write_loop os fd (drop (nat rv) buf) (n - word_of_int rv) tr'
      else (True, tr))"
  by pat_completeness blast

lemma unat_minus_word_of_int:
  assumes "0 \<le> rv" and "rv \<le> int (unat (n :: u8))"
  shows "unat (n - word_of_int rv) = unat n - nat rv"
proof -
  obtain k where k: "rv = int k" and le: "k \<le> unat n"
    using assms by (metis nonneg_int_cases of_nat_le_iff)
  have "k < 256"
    using le unat_u8_bound [of n] by linarith
  then have small: "unat (of_nat k :: u8) = k"
    by (simp add: unat_of_nat)
  then have "(of_nat k :: u8) \<le> n"
    using le by (simp add: word_le_nat_alt)
  then have "unat (n - of_nat k) = unat n - k"
    using small by (simp add: unat_sub)
  then show ?thesis
    by (simp add: k)
qed

termination io_write_loop
proof (relation "measure (\<lambda>(os, fd, buf, n, tr). unat n)")
  show "wf (measure (\<lambda>(os :: os, fd :: int, buf :: u8 list, n :: u8, tr :: trace). unat n))"
    by (rule wf_measure)
next
  fix os :: os and fd buf tr and n :: u8 and rv and tr' :: trace
  assume "n > 0" and rv: "rv = send_call os tr fd (take (unat n) buf)" and pos: "\<not> rv \<le> 0"
  have "rv \<le> int (unat n)"
    unfolding rv by (rule send_call_le)
  moreover have "0 < unat n"
    using \<open>n > 0\<close> by (simp add: word_less_nat_alt)
  ultimately have "unat (n - word_of_int rv) < unat n"
    using pos unat_minus_word_of_int [of rv n] by linarith
  then show "((os, fd, drop (nat rv) buf, n - word_of_int rv, tr'), os, fd, buf, n, tr)
      \<in> measure (\<lambda>(os, fd, buf, n, tr). unat n)"
    by (simp only: in_measure prod.case)
qed

declare io_write_loop.simps [simp del]

text \<open>\<^verbatim>\<open>io_write_all\<close>; \<open>None\<close> when \<open>n\<close> exceeds the buffer.\<close>

definition io_write_all :: "os \<Rightarrow> int \<Rightarrow> u8 list \<Rightarrow> u8 \<Rightarrow> trace \<Rightarrow> (bool \<times> trace) option" where
  "io_write_all os fd buf n tr =
     (if unat n \<le> length buf then Some (io_write_loop os fd buf n tr) else None)"

text \<open>The bytes a peer has been sent on a descriptor.\<close>

primrec event_sent :: "int \<Rightarrow> os_event \<Rightarrow> u8 list" where
  "event_sent fd (EvSocket x) = []"
| "event_sent fd (EvConnect x p r) = []"
| "event_sent fd (EvBind x p r) = []"
| "event_sent fd (EvListen x r) = []"
| "event_sent fd (EvSend x bs r) = (if x = fd \<and> r > 0 then take (nat r) bs else [])"
| "event_sent fd (EvRecv x bs) = []"
| "event_sent fd (EvRecvError x) = []"
| "event_sent fd (EvClose x) = []"
| "event_sent fd (EvFork x) = []"
| "event_sent fd (EvKill x) = []"
| "event_sent fd (EvExec a) = []"
| "event_sent fd (EvPoll k) = []"
| "event_sent fd (EvAccept x r) = []"
| "event_sent fd (EvExit x) = []"
| "event_sent fd EvSigterm = []"

definition sent :: "int \<Rightarrow> trace \<Rightarrow> u8 list" where
  "sent fd tr = concat (map (event_sent fd) tr)"

lemma sent_append [simp]: "sent fd (tr @ tr') = sent fd tr @ sent fd tr'"
  by (simp add: sent_def)

lemma sent_Nil [simp]: "sent fd [] = []"
  by (simp add: sent_def)

lemma sent_Cons [simp]: "sent fd (e # tr) = event_sent fd e @ sent fd tr"
  by (simp add: sent_def)

text \<open>
  The loop only adds send events on its own descriptor, whatever the kernel does; the peer gets
  exactly the buffer on success and a proper prefix of it on failure.
\<close>

lemma io_write_loop_spec:
  assumes "io_write_loop os fd buf n tr = (ok, tr')" and "unat n \<le> length buf"
  shows "\<exists>evs. tr' = tr @ evs \<and> (\<forall>e \<in> set evs. \<exists>bs r. e = EvSend fd bs r) \<and>
     (if ok then sent fd evs = take (unat n) buf
      else \<exists>k < unat n. sent fd evs = take k buf)"
  using assms
proof (induction os fd buf n tr rule: io_write_loop.induct)
  case (1 os fd buf n tr)
  define rv where "rv = send_call os tr fd (take (unat n) buf)"
  define ev where "ev = EvSend fd (take (unat n) buf) rv"
  consider "n = 0" | "n > 0" "rv \<le> 0" | "n > 0" "rv > 0"
    by (metis linorder_not_le word_gt_0)
  then show ?case
  proof cases
    case 1
    with "1.prems" show ?thesis by (simp add: io_write_loop.simps [of os fd buf 0 tr])
  next
    case 2
    then have "ok = False" "tr' = tr @ [ev]"
      using "1.prems"(1) by (simp_all add: io_write_loop.simps [of os fd buf n] rv_def ev_def Let_def)
    moreover have "0 < unat n" using 2 by (simp add: word_less_nat_alt)
    ultimately show ?thesis using 2 by (auto simp: ev_def intro!: exI [of _ "[ev]"] exI [of _ 0])
  next
    case 3
    have le: "rv \<le> int (unat n)"
      unfolding rv_def by (rule send_call_le)
    then have n': "unat (n - word_of_int rv) = unat n - nat rv"
      using 3 by (intro unat_minus_word_of_int) auto
    have "io_write_loop os fd (drop (nat rv) buf) (n - word_of_int rv) (tr @ [ev]) = (ok, tr')"
      using "1.prems"(1) 3 by (simp add: io_write_loop.simps [of os fd buf n] rv_def ev_def Let_def)
    note call = this
    have fit: "unat (n - word_of_int rv) \<le> length (drop (nat rv) buf)"
      using "1.prems"(2) n' by simp
    obtain evs where evs: "tr' = (tr @ [ev]) @ evs" "\<forall>e \<in> set evs. \<exists>bs r. e = EvSend fd bs r"
      "if ok then sent fd evs = take (unat n - nat rv) (drop (nat rv) buf)
       else \<exists>k < unat n - nat rv. sent fd evs = take k (drop (nat rv) buf)"
      using "1.IH" [OF 3(1) rv_def refl _ call [unfolded ev_def] fit] 3(2)
      unfolding n' ev_def by auto
    have ev: "event_sent fd ev = take (nat rv) buf"
      using 3 le by (simp add: ev_def min_def nat_le_iff)
    have split: "take (nat rv) buf @ take k (drop (nat rv) buf) = take (nat rv + k) buf" for k
      by (simp add: take_add)
    show ?thesis
    proof (intro exI [of _ "ev # evs"] conjI)
      show "if ok then sent fd (ev # evs) = take (unat n) buf
            else \<exists>k < unat n. sent fd (ev # evs) = take k buf"
      proof (cases ok)
        case True
        have "nat rv + (unat n - nat rv) = unat n"
          using le by (simp only: nat_le_iff [symmetric] le_add_diff_inverse)
        with True show ?thesis using evs(3) ev split [of "unat n - nat rv"] by simp
      next
        case False
        then obtain k where "k < unat n - nat rv" "sent fd evs = take k (drop (nat rv) buf)"
          using evs(3) by auto
        then show ?thesis
          using False ev split [of k] by (auto intro!: exI [of _ "nat rv + k"])
      qed
    qed (use evs in \<open>auto simp: ev_def\<close>)
  qed
qed

lemma io_write_loop_take:
  "io_write_loop os fd (take (unat n) buf) n tr = io_write_loop os fd buf n tr"
proof (induction os fd buf n tr rule: io_write_loop.induct)
  case (1 os fd buf n tr)
  define rv where "rv = send_call os tr fd (take (unat n) buf)"
  show ?case
  proof (cases "n > 0 \<and> rv > 0")
    case True
    have "rv \<le> int (unat n)"
      unfolding rv_def by (rule send_call_le)
    then have n': "unat (n - word_of_int rv) = unat n - nat rv"
      using True by (intro unat_minus_word_of_int) auto
    have "take (unat n - nat rv) (drop (nat rv) (take (unat n) buf)) = take (unat n - nat rv) (drop (nat rv) buf)"
      by (simp add: drop_take)
    then have tail: "io_write_loop os fd (drop (nat rv) (take (unat n) buf)) (n - word_of_int rv) tr'
        = io_write_loop os fd (drop (nat rv) buf) (n - word_of_int rv) tr'"
      if "tr' = tr @ [EvSend fd (take (unat n) buf) rv]" for tr'
      using "1.IH" [OF _ rv_def that] True by (simp add: n' drop_take)
    show ?thesis
      using True tail by (simp add: io_write_loop.simps [of os fd _ n tr] rv_def [symmetric] Let_def)
  next
    case False
    then show ?thesis
      by (auto simp: io_write_loop.simps [of os fd _ n tr] rv_def Let_def)
  qed
qed

lemma io_write_all_sent:
  assumes "io_write_all os fd buf n tr = Some (ok, tr')"
  shows "sent fd tr' = sent fd tr @ take (unat n) buf \<or>
     (\<not> ok \<and> (\<exists>k < unat n. sent fd tr' = sent fd tr @ take k buf))"
    and "ok \<Longrightarrow> sent fd tr' = sent fd tr @ take (unat n) buf"
  using assms io_write_loop_spec [of os fd buf n tr ok tr']
  by (auto simp: io_write_all_def split: if_splits)

lemma io_write_all_total: "unat n \<le> length buf \<Longrightarrow> \<exists>ok tr'. io_write_all os fd buf n tr = Some (ok, tr')"
  by (cases "io_write_loop os fd buf n tr") (simp add: io_write_all_def)

subsection \<open>Receiving\<close>

definition recv_call :: "os \<Rightarrow> trace \<Rightarrow> int \<Rightarrow> nat \<Rightarrow> recv_result" where
  "recv_call os tr fd k = (case os_recv os tr fd k of
      RecvError \<Rightarrow> RecvError | RecvBytes bs \<Rightarrow> RecvBytes (take k bs))"

lemma recv_call_le: "recv_call os tr fd k = RecvBytes bs \<Longrightarrow> length bs \<le> k"
  by (auto simp: recv_call_def split: recv_result.splits)

text \<open>The result is the return value, the bytes stored so far (their number is \<^verbatim>\<open>bytes_received\<close>) and the trace.\<close>

function io_read_loop :: "os \<Rightarrow> int \<Rightarrow> u8 \<Rightarrow> u8 list \<Rightarrow> trace \<Rightarrow> bool \<times> u8 list \<times> trace" where
  "io_read_loop os fd n got tr =
     (if n > 0 then
        (case recv_call os tr fd (unat n) of
           RecvError \<Rightarrow> (False, got, tr @ [EvRecvError fd])
         | RecvBytes bs \<Rightarrow>
             if bs = [] then (True, got, tr @ [EvRecv fd []])
             else io_read_loop os fd (n - of_nat (length bs)) (got @ bs) (tr @ [EvRecv fd bs]))
      else (True, got, tr))"
  by pat_completeness blast

lemma unat_minus_of_nat: "k \<le> unat (n :: u8) \<Longrightarrow> unat (n - of_nat k) = unat n - k"
  using unat_minus_word_of_int [of "int k" n]
  by (simp only: of_nat_le_iff of_nat_0_le_iff of_int_of_nat_eq nat_int)

termination io_read_loop
proof (relation "measure (\<lambda>(os, fd, n, got, tr). unat n)")
  show "wf (measure (\<lambda>(os :: os, fd :: int, n :: u8, got :: u8 list, tr :: trace). unat n))"
    by (rule wf_measure)
next
  fix os :: os and fd got tr bs and n :: u8
  assume "n > 0" and recv: "recv_call os tr fd (unat n) = RecvBytes bs" and "bs \<noteq> []"
  have "0 < unat n"
    using \<open>n > 0\<close> by (simp add: word_less_nat_alt)
  then have "unat (n - of_nat (length bs)) < unat n"
    using recv_call_le [OF recv] \<open>bs \<noteq> []\<close> by (simp add: unat_minus_of_nat)
  then show "((os, fd, n - of_nat (length bs), got @ bs, tr @ [EvRecv fd bs]), os, fd, n, got, tr)
      \<in> measure (\<lambda>(os, fd, n, got, tr). unat n)"
    by (simp only: in_measure prod.case)
qed

declare io_read_loop.simps [simp del]

definition io_read_all :: "os \<Rightarrow> int \<Rightarrow> u8 \<Rightarrow> trace \<Rightarrow> bool \<times> u8 list \<times> trace" where
  "io_read_all os fd n tr = io_read_loop os fd n [] tr"

lemma io_read_loop_length:
  "io_read_loop os fd n got tr = (ok, data, tr') \<Longrightarrow> length data \<le> length got + unat n"
proof (induction os fd n got tr rule: io_read_loop.induct)
  case (1 os fd n got tr)
  show ?case
  proof (cases "n > 0 \<and> (\<exists>bs. recv_call os tr fd (unat n) = RecvBytes bs \<and> bs \<noteq> [])")
    case True
    then obtain bs where bs: "n > 0" "recv_call os tr fd (unat n) = RecvBytes bs" "bs \<noteq> []" by auto
    then have "io_read_loop os fd (n - of_nat (length bs)) (got @ bs) (tr @ [EvRecv fd bs]) = (ok, data, tr')"
      using "1.prems" by (simp add: io_read_loop.simps [of os fd n])
    from "1.IH" [OF bs this] show ?thesis
      using recv_call_le [OF bs(2)] by (simp add: unat_minus_of_nat)
  next
    case False
    then show ?thesis
      using "1.prems" by (auto simp: io_read_loop.simps [of os fd n] split: recv_result.splits if_splits)
  qed
qed

lemma io_read_all_length: "io_read_all os fd n tr = (ok, data, tr') \<Longrightarrow> length data \<le> unat n"
  using io_read_loop_length [of os fd n "[]"] by (simp add: io_read_all_def)

text \<open>Reading sends nothing.\<close>

lemma io_read_loop_sent: "io_read_loop os fd n got tr = (ok, data, tr') \<Longrightarrow> sent x tr' = sent x tr"
proof (induction os fd n got tr rule: io_read_loop.induct)
  case (1 os fd n got tr)
  show ?case
  proof (cases "n > 0 \<and> (\<exists>bs. recv_call os tr fd (unat n) = RecvBytes bs \<and> bs \<noteq> [])")
    case True
    then obtain bs where bs: "n > 0" "recv_call os tr fd (unat n) = RecvBytes bs" "bs \<noteq> []" by auto
    then have "io_read_loop os fd (n - of_nat (length bs)) (got @ bs) (tr @ [EvRecv fd bs]) = (ok, data, tr')"
      using "1.prems" by (simp add: io_read_loop.simps [of os fd n])
    from "1.IH" [OF bs this] show ?thesis by simp
  next
    case False
    then show ?thesis
      using "1.prems" by (auto simp: io_read_loop.simps [of os fd n] split: recv_result.splits if_splits)
  qed
qed

text \<open>
  A connection that delivers the byte string \<open>S\<close>: as long as bytes are left, every call returns
  some of them, in order, in pieces of any size.
\<close>

primrec event_received :: "int \<Rightarrow> os_event \<Rightarrow> u8 list" where
  "event_received fd (EvSocket x) = []"
| "event_received fd (EvConnect x p r) = []"
| "event_received fd (EvBind x p r) = []"
| "event_received fd (EvListen x r) = []"
| "event_received fd (EvSend x bs r) = []"
| "event_received fd (EvRecv x bs) = (if x = fd then bs else [])"
| "event_received fd (EvRecvError x) = []"
| "event_received fd (EvClose x) = []"
| "event_received fd (EvFork x) = []"
| "event_received fd (EvKill x) = []"
| "event_received fd (EvExec a) = []"
| "event_received fd (EvPoll k) = []"
| "event_received fd (EvAccept x r) = []"
| "event_received fd (EvExit x) = []"
| "event_received fd EvSigterm = []"

definition received :: "int \<Rightarrow> trace \<Rightarrow> u8 list" where
  "received fd tr = concat (map (event_received fd) tr)"

lemma received_append [simp]: "received fd (tr @ tr') = received fd tr @ received fd tr'"
  by (simp add: received_def)

lemma received_simps [simp]: "received fd [] = []" "received fd (e # tr) = event_received fd e @ received fd tr"
  by (simp_all add: received_def)

definition delivers :: "os \<Rightarrow> int \<Rightarrow> u8 list \<Rightarrow> bool" where
  "delivers os fd S \<longleftrightarrow> (\<forall>tr k rest. S = received fd tr @ rest \<and> rest \<noteq> [] \<and> k > 0 \<longrightarrow>
     (\<exists>m. 0 < m \<and> m \<le> k \<and> os_recv os tr fd k = RecvBytes (take m rest)))"

lemma io_read_loop_delivers:
  assumes "delivers os fd S" and "S = received fd tr @ bs @ rest" and "length bs = unat n"
  shows "\<exists>tr'. io_read_loop os fd n got tr = (True, got @ bs, tr') \<and> received fd tr' = received fd tr @ bs"
  using assms
proof (induction os fd n got tr arbitrary: bs rule: io_read_loop.induct)
  case (1 os fd n got tr)
  show ?case
  proof (cases "n > 0")
    case False
    then have "n = 0" by (simp add: word_gt_0)
    then show ?thesis
      using "1.prems"(3) by (simp add: io_read_loop.simps [of os fd 0])
  next
    case True
    then have pos: "0 < unat n" by (simp add: word_less_nat_alt)
    then have "bs @ rest \<noteq> []" using "1.prems"(3) by auto
    with "1.prems"(1,2) pos obtain m where m: "0 < m" "m \<le> unat n"
      "os_recv os tr fd (unat n) = RecvBytes (take m (bs @ rest))"
      unfolding delivers_def by metis
    define p where "p = take m bs"
    have p: "recv_call os tr fd (unat n) = RecvBytes p" "p \<noteq> []" "length p = m"
      using m "1.prems"(3) pos by (auto simp: recv_call_def p_def)
    have bs: "bs = p @ drop m bs" by (simp add: p_def)
    have "S = received fd (tr @ [EvRecv fd p]) @ drop m bs @ rest"
      using "1.prems"(2) bs by simp
    moreover have "length (drop m bs) = unat (n - of_nat (length p))"
      using m "1.prems"(3) by (simp add: p(3) unat_minus_of_nat)
    ultimately obtain tr' where
      "io_read_loop os fd (n - of_nat (length p)) (got @ p) (tr @ [EvRecv fd p]) = (True, (got @ p) @ drop m bs, tr')"
      "received fd tr' = received fd (tr @ [EvRecv fd p]) @ drop m bs"
      using "1.IH" [OF True p(1,2) "1.prems"(1)] by blast
    then show ?thesis
      using True p bs by (simp add: io_read_loop.simps [of os fd n])
  qed
qed

lemma io_read_all_delivers:
  assumes "delivers os fd S" and "S = received fd tr @ bs @ rest" and "length bs = unat n"
  shows "\<exists>tr'. io_read_all os fd n tr = (True, bs, tr') \<and> received fd tr' = received fd tr @ bs"
  using io_read_loop_delivers [OF assms, of "[]"] by (simp add: io_read_all_def)

subsection \<open>Connecting\<close>

definition connection_socket_to_send :: "os \<Rightarrow> u16 \<Rightarrow> trace \<Rightarrow> int \<times> trace" where
  "connection_socket_to_send os port tr =
     (let server_fd = os_socket os tr; tr = tr @ [EvSocket server_fd] in
      if server_fd < 0 then (-1, tr)
      else let status = os_connect os tr server_fd port; tr = tr @ [EvConnect server_fd port status] in
        if status \<noteq> 0 then (-1, tr) else (server_fd, tr))"

definition connection_socket_to_listen :: "os \<Rightarrow> u16 \<Rightarrow> trace \<Rightarrow> int \<times> trace" where
  "connection_socket_to_listen os port tr =
     (let fd = os_socket os tr; tr = tr @ [EvSocket fd] in
      if fd < 0 then (-1, tr)
      else let rv = os_bind os tr fd port; tr = tr @ [EvBind fd port rv] in
        if rv < 0 then (-1, tr)
        else let rv = os_listen os tr fd; tr = tr @ [EvListen fd rv] in
          if rv < 0 then (-1, tr) else (fd, tr))"

lemma connection_socket_to_send_result:
  "connection_socket_to_send os port tr = (fd, tr') \<Longrightarrow> fd \<ge> -1"
  by (auto simp: connection_socket_to_send_def Let_def split: if_splits)

lemma connection_socket_to_send_sent:
  "connection_socket_to_send os port tr = (fd, tr') \<Longrightarrow> sent x tr' = sent x tr"
  by (auto simp: connection_socket_to_send_def Let_def split: if_splits)

end
