(* ===== verification/Neighbors.thy ===== *)
theory Neighbors
  imports Settings
begin

text \<open>
  The list of neighbours a node floods to: \<^verbatim>\<open>broadcast_neighbors\<close> and \<^verbatim>\<open>neighbor_num\<close> of
  \<^verbatim>\<open>node/src/node_essentials.c\<close> and the routines that fill them.  Positions are \<open>int\<close>s: rows and
  columns stay between -1 and 25, well inside \<^verbatim>\<open>int8_t\<close>.  A store behind the 29 slots is \<open>None\<close>.
\<close>

definition CONNECTIONS :: nat where "CONNECTIONS = 29"
declare CONNECTIONS_def [settings]

record neighbors =
  broadcast_neighbors :: "u16 list"
  neighbor_num :: nat

definition initial_neighbors :: neighbors where
  "initial_neighbors = \<lparr>broadcast_neighbors = replicate CONNECTIONS 0, neighbor_num = 0\<rparr>"

definition from_pos :: "int \<times> int \<Rightarrow> u8" where
  "from_pos pos = word_of_int (fst pos * int MATRIX_SIZE + snd pos)"

text \<open>\<^verbatim>\<open>broadcast_neighbors[neighbor_num++] = node_port(from_pos(pos))\<close>\<close>

definition add_neighbor :: "int \<times> int \<Rightarrow> neighbors \<Rightarrow> neighbors option" where
  "add_neighbor pos nb =
     (if neighbor_num nb < CONNECTIONS
      then Some (nb\<lparr>broadcast_neighbors := (broadcast_neighbors nb)[neighbor_num nb := node_port (from_pos pos)],
                    neighbor_num := (neighbor_num nb + 1) mod 256\<rparr>)
      else None)"

text \<open>
  The two loop shapes of the code: counting down while a bound holds and the index is not
  negative, and up while a bound holds and the index is inside the matrix.
\<close>

function for_down :: "(int \<Rightarrow> bool) \<Rightarrow> (int \<Rightarrow> 's \<Rightarrow> 's option) \<Rightarrow> int \<Rightarrow> 's \<Rightarrow> 's option" where
  "for_down bound body j s =
     (if bound j \<and> j \<ge> 0 then (case body j s of None \<Rightarrow> None | Some s' \<Rightarrow> for_down bound body (j - 1) s')
      else Some s)"
  by pat_completeness auto
termination by (relation "measure (\<lambda>(bound, body, j, s). nat (j + 1))") auto

function for_up :: "(int \<Rightarrow> bool) \<Rightarrow> (int \<Rightarrow> 's \<Rightarrow> 's option) \<Rightarrow> int \<Rightarrow> 's \<Rightarrow> 's option" where
  "for_up bound body j s =
     (if bound j \<and> j < int MATRIX_SIZE then (case body j s of None \<Rightarrow> None | Some s' \<Rightarrow> for_up bound body (j + 1) s')
      else Some s)"
  by pat_completeness auto
termination by (relation "measure (\<lambda>(bound, body, j, s). nat (int MATRIX_SIZE - j))") auto

declare for_down.simps [simp del] for_up.simps [simp del]

definition left_right_neighbours :: "int \<Rightarrow> int \<Rightarrow> int \<Rightarrow> int \<Rightarrow> neighbors \<Rightarrow> neighbors option" where
  "left_right_neighbours col radius i row nb = do {
     nb \<leftarrow> (if i \<noteq> row - radius \<and> i \<noteq> row + radius
            then for_down (\<lambda>j. j > col - radius) (\<lambda>j. add_neighbor (i, j)) (col - 1) nb else Some nb);
     (if i \<noteq> row - radius \<and> i \<noteq> row + radius
      then for_up (\<lambda>j. j < col + radius) (\<lambda>j. add_neighbor (i, j)) (col + 1) nb else Some nb) }"

definition fill_broadcast_neighbors :: "u8 \<Rightarrow> u8 \<Rightarrow> neighbors \<Rightarrow> neighbors option" where
  "fill_broadcast_neighbors addr r nb =
     (let row = int (unat addr div MATRIX_SIZE); col = int (unat addr mod MATRIX_SIZE); radius = uint r in
      if row < 0 \<or> row \<ge> int MATRIX_SIZE \<or> col < 0 \<or> col \<ge> int MATRIX_SIZE then Some nb
      else do {
        nb \<leftarrow> for_down (\<lambda>i. i \<ge> row - radius)
                (\<lambda>i nb. do { nb \<leftarrow> add_neighbor (i, col) nb; left_right_neighbours col radius i row nb })
                (row - 1) nb;
        nb \<leftarrow> for_up (\<lambda>i. i \<le> row + radius)
                (\<lambda>i nb. do { nb \<leftarrow> add_neighbor (i, col) nb; left_right_neighbours col radius i row nb })
                (row + 1) nb;
        nb \<leftarrow> for_down (\<lambda>j. j \<ge> col - radius) (\<lambda>j. add_neighbor (row, j)) (col - 1) nb;
        for_up (\<lambda>j. j \<le> col + radius) (\<lambda>j. add_neighbor (row, j)) (col + 1) nb })"

definition node_essentials_fill_neighbors_port :: "u8 \<Rightarrow> neighbors \<Rightarrow> neighbors option" where
  "node_essentials_fill_neighbors_port addr nb = fill_broadcast_neighbors addr BROADCAST_RADIUS nb"

text \<open>The neighbours as the flooding loops walk over them.\<close>

definition neighbor_ports :: "neighbors \<Rightarrow> u16 list" where
  "neighbor_ports nb = take (neighbor_num nb) (broadcast_neighbors nb)"

subsection \<open>The loops as folds\<close>

lemma for_down_fold:
  "for_down (\<lambda>j. lo \<le> j) f j s = mfold f (rev [max lo 0..j]) s"
proof (induction "\<lambda>j. lo \<le> j" f j s rule: for_down.induct)
  case (1 f j s)
  show ?case
  proof (cases "lo \<le> j \<and> 0 \<le> j")
    case True
    then have "rev [max lo 0..j] = j # rev [max lo 0..j - 1]"
      by (simp add: upto_rec2)
    with 1 True show ?thesis
      by (simp add: for_down.simps [of _ _ j] split: option.splits)
  next
    case False
    then show ?thesis by (auto simp: for_down.simps [of _ _ j] max_def)
  qed
qed

lemma for_up_fold:
  "for_up (\<lambda>j. j \<le> hi) f j s = mfold f [j..min hi (int MATRIX_SIZE - 1)] s"
proof (induction "\<lambda>j. j \<le> hi" f j s rule: for_up.induct)
  case (1 f j s)
  show ?case
  proof (cases "j \<le> hi \<and> j < int MATRIX_SIZE")
    case True
    then have "[j..min hi (int MATRIX_SIZE - 1)] = j # [j + 1..min hi (int MATRIX_SIZE - 1)]"
      by (simp add: upto_rec1)
    with 1 True show ?thesis
      by (simp add: for_up.simps [of _ _ j] split: option.splits)
  next
    case False
    then show ?thesis by (auto simp: for_up.simps [of _ _ j] min_def)
  qed
qed

subsection \<open>The positions visited\<close>

definition row_positions :: "int \<Rightarrow> int \<Rightarrow> int \<Rightarrow> int \<Rightarrow> (int \<times> int) list" where
  "row_positions col radius row i = (i, col) #
     (if i \<noteq> row - radius \<and> i \<noteq> row + radius
      then map (Pair i) (rev [max (col - radius + 1) 0..col - 1])
           @ map (Pair i) [col + 1..min (col + radius - 1) (int MATRIX_SIZE - 1)]
      else [])"

definition positions :: "int \<Rightarrow> int \<Rightarrow> int \<Rightarrow> (int \<times> int) list" where
  "positions row col radius =
     concat (map (row_positions col radius row) (rev [max (row - radius) 0..row - 1]))
     @ concat (map (row_positions col radius row) [row + 1..min (row + radius) (int MATRIX_SIZE - 1)])
     @ map (Pair row) (rev [max (col - radius) 0..col - 1])
     @ map (Pair row) [col + 1..min (col + radius) (int MATRIX_SIZE - 1)]"

lemma row_fold:
  "do { nb \<leftarrow> add_neighbor (i, col) nb; left_right_neighbours col radius i row nb }
   = mfold add_neighbor (row_positions col radius row i) nb"
proof -
  have lt: "(\<lambda>j. j > col - radius) = (\<lambda>j. col - radius + 1 \<le> j)"
    and gt: "(\<lambda>j. j < col + radius) = (\<lambda>j. j \<le> col + radius - 1)"
    by auto
  show ?thesis
    unfolding left_right_neighbours_def lt gt for_down_fold for_up_fold row_positions_def
    by (simp add: mfold_map [of add_neighbor "Pair i"] mfold_append_fun mfold_Nil_fun)
qed

lemma fill_broadcast_neighbors_fold:
  assumes "unat addr < NODE_COUNT"
  shows "fill_broadcast_neighbors addr r nb = mfold add_neighbor
     (positions (int (unat addr div MATRIX_SIZE)) (int (unat addr mod MATRIX_SIZE)) (uint r)) nb"
proof -
  define row where "row = int (unat addr div MATRIX_SIZE)"
  define col where "col = int (unat addr mod MATRIX_SIZE)"
  have inside: "\<not> (row < 0 \<or> row \<ge> int MATRIX_SIZE \<or> col < 0 \<or> col \<ge> int MATRIX_SIZE)"
    using assms by (auto simp: row_def col_def settings)
  have "fill_broadcast_neighbors addr r nb = Option.bind
      (for_down (\<lambda>i. row - uint r \<le> i) (\<lambda>i. mfold add_neighbor (row_positions col (uint r) row i)) (row - 1) nb)
      (\<lambda>nb. Option.bind
      (for_up (\<lambda>i. i \<le> row + uint r) (\<lambda>i. mfold add_neighbor (row_positions col (uint r) row i)) (row + 1) nb)
      (\<lambda>nb. Option.bind (for_down (\<lambda>j. col - uint r \<le> j) (\<lambda>j. add_neighbor (row, j)) (col - 1) nb)
      (for_up (\<lambda>j. j \<le> col + uint r) (\<lambda>j. add_neighbor (row, j)) (col + 1))))"
    using inside unfolding fill_broadcast_neighbors_def Let_def row_def [symmetric] col_def [symmetric] row_fold
    by (simp only: if_False)
  then show ?thesis
    unfolding for_down_fold for_up_fold mfold_concat mfold_map [of add_neighbor "Pair row"]
      positions_def row_def [symmetric] col_def [symmetric] mfold_append_fun .
qed

lemma mfold_add_neighbor:
  assumes "length (broadcast_neighbors nb) = CONNECTIONS"
  shows "mfold add_neighbor ps nb =
     (if neighbor_num nb + length ps \<le> CONNECTIONS \<or> ps = []
      then Some (nb\<lparr>broadcast_neighbors := neighbor_ports nb @ map (\<lambda>p. node_port (from_pos p)) ps
                     @ drop (neighbor_num nb + length ps) (broadcast_neighbors nb),
                    neighbor_num := neighbor_num nb + length ps\<rparr>)
      else None)"
  using assms
proof (induction ps arbitrary: nb)
  case Nil
  then show ?case by (simp add: neighbor_ports_def)
next
  case (Cons p ps)
  show ?case
  proof (cases "neighbor_num nb < CONNECTIONS")
    case True
    let ?nb = "nb\<lparr>broadcast_neighbors := (broadcast_neighbors nb)[neighbor_num nb := node_port (from_pos p)],
                 neighbor_num := neighbor_num nb + 1\<rparr>"
    have "add_neighbor p nb = Some ?nb"
      using True by (simp add: add_neighbor_def settings)
    moreover have "neighbor_ports ?nb = neighbor_ports nb @ [node_port (from_pos p)]"
      using True Cons.prems by (simp add: neighbor_ports_def take_Suc_conv_app_nth)
    ultimately show ?thesis
      using Cons.IH [of ?nb] Cons.prems True by auto
  next
    case False
    then show ?thesis by (simp add: add_neighbor_def)
  qed
qed

subsection \<open>Who the neighbours are\<close>

definition near_offset :: "int \<Rightarrow> int \<Rightarrow> bool" where
  "near_offset di dj \<longleftrightarrow> (di \<noteq> 0 \<or> dj \<noteq> 0) \<and>
     (di = 0 \<and> \<bar>dj\<bar> \<le> 3 \<or> dj = 0 \<and> \<bar>di\<bar> \<le> 3 \<or> \<bar>di\<bar> \<le> 2 \<and> \<bar>dj\<bar> \<le> 2)"

definition row_of :: "u8 \<Rightarrow> int" where "row_of a = int (unat a div MATRIX_SIZE)"
definition col_of :: "u8 \<Rightarrow> int" where "col_of a = int (unat a mod MATRIX_SIZE)"

text \<open>Nodes within the 5 by 5 square around \<open>a\<close>, or at distance 3 in its row or column.\<close>

definition near :: "u8 \<Rightarrow> u8 \<Rightarrow> bool" where
  "near a b \<longleftrightarrow> unat a < NODE_COUNT \<and> unat b < NODE_COUNT
     \<and> near_offset (row_of b - row_of a) (col_of b - col_of a)"

lemma near_sym: "near a b \<longleftrightarrow> near b a"
  by (auto simp: near_def near_offset_def)

lemma near_irrefl: "\<not> near a a"
  by (simp add: near_def near_offset_def)

lemma near_offset_bounds: "near_offset di dj \<Longrightarrow> -3 \<le> di \<and> di \<le> 3 \<and> -3 \<le> dj \<and> dj \<le> 3"
  by (auto simp: near_offset_def)

lemma set_row_positions:
  "(x, j) \<in> set (row_positions col 3 row i) \<longleftrightarrow> x = i \<and> (j = col \<or>
     (i \<noteq> row - 3 \<and> i \<noteq> row + 3 \<and>
      (col - 2 \<le> j \<and> 0 \<le> j \<and> j \<le> col - 1 \<or> col + 1 \<le> j \<and> j \<le> col + 2 \<and> j \<le> 9)))"
  by (auto simp: row_positions_def settings image_iff)

lemma set_positions:
  assumes bounds: "0 \<le> row" "row < 10" "0 \<le> col" "col < 10"
  shows "(i, j) \<in> set (positions row col 3) \<longleftrightarrow>
     0 \<le> i \<and> i < 10 \<and> 0 \<le> j \<and> j < 10 \<and> near_offset (i - row) (j - col)"
proof -
  have mem: "(i, j) \<in> set (positions row col 3) \<longleftrightarrow>
      (row - 3 \<le> i \<and> 0 \<le> i \<and> i \<le> row - 1 \<or> row + 1 \<le> i \<and> i \<le> row + 3 \<and> i \<le> 9)
        \<and> (i, j) \<in> set (row_positions col 3 row i)
      \<or> i = row \<and> (col - 3 \<le> j \<and> 0 \<le> j \<and> j \<le> col - 1 \<or> col + 1 \<le> j \<and> j \<le> col + 3 \<and> j \<le> 9)"
    by (auto simp: positions_def settings set_row_positions image_iff)
  consider "i - row < -3" | "i - row = -3" | "-2 \<le> i - row \<and> i - row \<le> -1" | "i = row"
    | "1 \<le> i - row \<and> i - row \<le> 2" | "i - row = 3" | "3 < i - row"
    by linarith
  then show ?thesis
    unfolding mem set_row_positions near_offset_def using bounds
    by cases auto
qed

lemma distinct_concat_map:
  assumes "distinct xs" and g: "\<And>x. distinct (g x)" "\<And>x y. x \<noteq> y \<Longrightarrow> set (g x) \<inter> set (g y) = {}"
  shows "distinct (concat (map g xs))"
  using assms(1)
proof (induction xs)
  case (Cons x xs)
  have "set (g x) \<inter> set (g y) = {}" if "y \<in> set xs" for y
    using that Cons.prems by (intro g(2)) auto
  then show ?case
    using Cons g(1) by auto
qed simp

lemma distinct_positions: "distinct (positions row col 3)"
proof -
  let ?g = "row_positions col 3 row"
  have "distinct (?g i)" for i
    by (auto simp: row_positions_def distinct_map inj_on_def)
  moreover have "set (?g i) \<inter> set (?g k) = {}" if "i \<noteq> k" for i k
    using that by (auto simp: set_row_positions)
  ultimately have g: "distinct xs \<Longrightarrow> distinct (concat (map ?g xs))" for xs
    by (intro distinct_concat_map)
  show ?thesis
    unfolding positions_def by (auto simp: g distinct_map inj_on_def set_row_positions)
qed

definition offsets :: "(int \<times> int) list" where
  "offsets = filter (\<lambda>(di, dj). near_offset di dj) (List.product [-3..3] [-3..3])"

lemma length_offsets: "length offsets = 28"
  by code_simp

lemma set_offsets: "(di, dj) \<in> set offsets \<longleftrightarrow> near_offset di dj"
  using near_offset_bounds [of di dj]
  by (simp only: offsets_def set_filter set_product set_upto mem_Collect_eq mem_Sigma_iff
      atLeastAtMost_iff prod.case) blast

lemma length_positions:
  assumes "0 \<le> row" "row < 10" "0 \<le> col" "col < 10"
  shows "length (positions row col 3) \<le> 28"
proof -
  let ?f = "\<lambda>(i, j). (i - row, j - col)"
  have "length (positions row col 3) = card (set (positions row col 3))"
    by (simp add: distinct_card distinct_positions)
  also have "\<dots> = card (?f ` set (positions row col 3))"
    by (rule card_image [symmetric]) (auto simp: inj_on_def)
  also have "\<dots> \<le> card (set offsets)"
    by (rule card_mono) (auto simp: set_offsets set_positions [OF assms])
  also have "\<dots> \<le> 28"
    using card_length [of offsets] by (simp only: length_offsets)
  finally show ?thesis .
qed

lemma unat_from_pos:
  assumes "0 \<le> i" "i < 10" "0 \<le> j" "j < 10"
  shows "unat (from_pos (i, j)) = nat (10 * i + j)"
proof -
  obtain m n where mn: "i = int m" "j = int n" using assms nonneg_int_cases by metis
  have "from_pos (i, j) = word_of_int (int (10 * m + n))"
    unfolding from_pos_def mn by (simp add: settings mult.commute)
  moreover have "10 * m + n < 256" using assms mn by simp
  ultimately show ?thesis
    unfolding mn by (simp only: of_int_of_nat_eq unat_u8_of_nat)
qed

lemma from_pos_row_col:
  assumes "0 \<le> i" "i < 10" "0 \<le> j" "j < 10"
  shows "row_of (from_pos (i, j)) = i" "col_of (from_pos (i, j)) = j" "unat (from_pos (i, j)) < NODE_COUNT"
  using assms unat_from_pos [OF assms]
  by (simp_all add: row_of_def col_of_def settings nat_add_distrib nat_mult_distrib)

lemma from_pos_of_row_col: "from_pos (row_of a, col_of a) = a"
proof -
  have "int (unat a div MATRIX_SIZE) * int MATRIX_SIZE + int (unat a mod MATRIX_SIZE) = int (unat a)"
    by (simp only: of_nat_mult [symmetric] of_nat_add [symmetric] div_mult_mod_eq)
  then show ?thesis
    by (simp add: from_pos_def row_of_def col_of_def)
qed

lemma row_col_bounds:
  assumes "unat a < NODE_COUNT"
  shows "0 \<le> row_of a" "row_of a < 10" "0 \<le> col_of a" "col_of a < 10"
  using assms by (auto simp: row_of_def col_of_def settings)

definition neighbor_addrs :: "u8 \<Rightarrow> u8 list" where
  "neighbor_addrs a = map from_pos (positions (row_of a) (col_of a) 3)"

lemma neighbor_addrs:
  assumes "unat a < NODE_COUNT"
  shows "set (neighbor_addrs a) = {b. near a b}" and "distinct (neighbor_addrs a)"
    and "length (neighbor_addrs a) \<le> 28"
proof -
  note b = row_col_bounds [OF assms]
  show "set (neighbor_addrs a) = {b. near a b}"
  proof (intro equalityI subsetI)
    fix x assume "x \<in> set (neighbor_addrs a)"
    then obtain i j where "(i, j) \<in> set (positions (row_of a) (col_of a) 3)" "x = from_pos (i, j)"
      by (auto simp: neighbor_addrs_def)
    then show "x \<in> {b. near a b}"
      using assms by (simp add: set_positions [OF b] near_def from_pos_row_col)
  next
    fix x assume "x \<in> {b. near a b}"
    then have "(row_of x, col_of x) \<in> set (positions (row_of a) (col_of a) 3)"
      by (simp add: set_positions [OF b] near_def row_col_bounds)
    then show "x \<in> set (neighbor_addrs a)"
      unfolding neighbor_addrs_def by (metis from_pos_of_row_col image_eqI set_map)
  qed
  show "distinct (neighbor_addrs a)"
    unfolding neighbor_addrs_def distinct_map
  proof (intro conjI distinct_positions inj_onI)
    fix p q
    assume p: "p \<in> set (positions (row_of a) (col_of a) 3)"
      and q: "q \<in> set (positions (row_of a) (col_of a) 3)" and eq: "from_pos p = from_pos q"
    have inv: "(row_of (from_pos r), col_of (from_pos r)) = r"
      if "r \<in> set (positions (row_of a) (col_of a) 3)" for r
      using set_positions [OF b, of "fst r" "snd r"] that from_pos_row_col [of "fst r" "snd r"] by simp
    show "p = q"
      using inv [OF p, unfolded eq] inv [OF q] by (rule HOL.trans [OF sym])
  qed
  show "length (neighbor_addrs a) \<le> 28"
    unfolding neighbor_addrs_def using length_positions [OF b] by simp
qed

text \<open>Filling the empty table at start-up stores the neighbours and never leaves the array.\<close>

lemma fill_neighbors:
  assumes "unat a < NODE_COUNT"
  shows "\<exists>nb. node_essentials_fill_neighbors_port a initial_neighbors = Some nb
     \<and> neighbor_ports nb = map node_port (neighbor_addrs a) \<and> neighbor_num nb = length (neighbor_addrs a)"
proof -
  define ps where "ps = positions (row_of a) (col_of a) 3"
  have addrs: "neighbor_addrs a = map from_pos ps"
    by (simp only: neighbor_addrs_def ps_def)
  have "uint (3 :: u8) = 3" by simp
  then have "node_essentials_fill_neighbors_port a initial_neighbors = mfold add_neighbor ps initial_neighbors"
    unfolding node_essentials_fill_neighbors_port_def fill_broadcast_neighbors_fold [OF assms]
      ps_def row_of_def col_of_def BROADCAST_RADIUS_def by (simp only:)
  moreover have "length ps \<le> CONNECTIONS"
    using neighbor_addrs(3) [OF assms] by (simp add: addrs settings)
  ultimately show ?thesis
    by (simp add: mfold_add_neighbor initial_neighbors_def neighbor_ports_def addrs)
qed

end
