(* ===== verification/Node_Essentials.thy ===== *)
theory Node_Essentials
  imports Format_Wire Io Neighbors
begin

text \<open>
  The connections of a node and everything it sends: \<^verbatim>\<open>node/src/node_essentials.c\<close>.  The static
  array \<^verbatim>\<open>connections\<close> maps ports to open descriptors; the locale \<open>conn_pool\<close> states what the
  sending routines rely on.
\<close>

subsection \<open>The connection table\<close>

record conn =
  conn_fd :: int
  conn_port :: u16

record net =
  net_conns :: "conn list"
  net_init :: bool
  net_trace :: trace

definition initial_net :: "trace \<Rightarrow> net" where
  "initial_net tr = \<lparr>net_conns = replicate CONNECTIONS \<lparr>conn_fd = 0, conn_port = 0\<rparr>, net_init = False, net_trace = tr\<rparr>"

definition no_conn :: conn where
  "no_conn = \<lparr>conn_fd = -1, conn_port = UINT16_MAX\<rparr>"

text \<open>\<^verbatim>\<open>close\<close> is called on every connection that is cleared.\<close>

definition resettable :: "conn \<Rightarrow> bool" where
  "resettable c \<longleftrightarrow> conn_port c \<noteq> SERVER_PORT \<and> conn_fd c > 0 \<and> conn_port c < UINT16_MAX"

definition node_essentials_reset_connections :: "net \<Rightarrow> net" where
  "node_essentials_reset_connections n =
     n\<lparr>net_conns := map (\<lambda>c. if resettable c then no_conn else c) (net_conns n),
       net_trace := net_trace n @ map (\<lambda>c. EvClose (conn_fd c)) (filter resettable (net_conns n))\<rparr>"

definition init_conns :: "net \<Rightarrow> net" where
  "init_conns n = (if \<not> net_init n
     then n\<lparr>net_conns := map (\<lambda>c. no_conn) (net_conns n), net_init := True\<rparr> else n)"

definition find_slot :: "(conn \<Rightarrow> bool) \<Rightarrow> net \<Rightarrow> nat option" where
  "find_slot P n = find (\<lambda>i. P (net_conns n ! i)) [0..<length (net_conns n)]"

definition get_conn :: "os \<Rightarrow> u16 \<Rightarrow> net \<Rightarrow> int \<times> net" where
  "get_conn os port n = (let n = init_conns n in
     case find_slot (\<lambda>c. conn_fd c > 0 \<and> conn_port c = port) n of
       Some i \<Rightarrow> (conn_fd (net_conns n ! i), n)
     | None \<Rightarrow> (case find_slot (\<lambda>c. conn_fd c = -1) n of
         None \<Rightarrow> (-1, n)
       | Some i \<Rightarrow>
           (case connection_socket_to_send os port (net_trace n) of (fd, tr) \<Rightarrow>
             if fd < 0
             then (-1, n\<lparr>net_conns := (net_conns n)[i := (net_conns n ! i)\<lparr>conn_fd := fd\<rparr>], net_trace := tr\<rparr>)
             else (fd, n\<lparr>net_conns := (net_conns n)[i := \<lparr>conn_fd = fd, conn_port = port\<rparr>], net_trace := tr\<rparr>))))"

subsection \<open>Sending\<close>

definition node_essentials_get_conn_and_send :: "os \<Rightarrow> u16 \<Rightarrow> u8 list \<Rightarrow> u8 \<Rightarrow> net \<Rightarrow> (bool \<times> net) option" where
  "node_essentials_get_conn_and_send os port buf buf_len n =
     (case get_conn os port n of (fd, n) \<Rightarrow>
        if fd < 0 then Some (False, n)
        else do {
          (ok, tr) \<leftarrow> io_write_all os fd buf buf_len (net_trace n);
          Some (if \<not> ok then (False, n\<lparr>net_trace := tr\<rparr>) else (True, n\<lparr>net_trace := tr\<rparr>)) })"

definition node_essentials_notify_server :: "os \<Rightarrow> notify \<Rightarrow> net \<Rightarrow> (bool \<times> net) option" where
  "node_essentials_notify_server os notify n = do {
     (b, buf_len, _) \<leftarrow> format_create REQUEST_NOTIFY (Notify notify) (os_getpid os)
        (uninit (os_junk os) (sizeof_notify + MSG_BASE_LEN), os_junk os 0) REQUEST_SENDER_NODE;
     (case get_conn os SERVER_PORT n of (server_fd, n) \<Rightarrow>
        if server_fd < 0 then Some (False, n)
        else do {
          (ok, tr) \<leftarrow> io_write_all os server_fd b buf_len (net_trace n);
          Some (if \<not> ok then (False, n\<lparr>net_trace := tr\<rparr>) else (True, n\<lparr>net_trace := tr\<rparr>)) }) }"

text \<open>One round over the neighbours, the results of the sends being ignored.\<close>

definition send_all :: "os \<Rightarrow> u16 list \<Rightarrow> u8 list \<Rightarrow> u8 \<Rightarrow> net \<Rightarrow> net option" where
  "send_all os ports b buf_len n =
     mfold (\<lambda>port n. do { (_, n) \<leftarrow> node_essentials_get_conn_and_send os port b buf_len n; Some n }) ports n"

definition node_essentials_broadcast_route ::
  "os \<Rightarrow> neighbors \<Rightarrow> node_packet \<Rightarrow> bool \<Rightarrow> net \<Rightarrow> (node_packet \<times> net) option" where
  "node_essentials_broadcast_route os nb route_payload stop_broadcast n =
     (if \<not> stop_broadcast then
        let p = route_payload\<lparr>np_time_to_live := np_time_to_live route_payload - 1\<rparr> in do {
          crc \<leftarrow> packet_crc p;
          let p = p\<lparr>np_crc := crc\<rparr>;
          (b, buf_len, _) \<leftarrow> format_create REQUEST_ROUTE_DIRECT (Packet p) (os_getpid os)
             (uninit (os_junk os) MAX_MSG_LEN, os_junk os 0) REQUEST_SENDER_NODE;
          n \<leftarrow> send_all os (neighbor_ports nb) b buf_len n;
          Some (p, n) }
      else Some (route_payload, n))"

text \<open>One turn of the broadcast loop; the packet object is reused from turn to turn.\<close>

definition broadcast_to :: "os \<Rightarrow> u16 \<Rightarrow> node_packet \<times> net \<Rightarrow> (node_packet \<times> net) option" where
  "broadcast_to os port = (\<lambda>(p, n). (let p = p\<lparr>np_receiver_addr := word_of_int (node_addr port)\<rparr> in do {
     crc \<leftarrow> packet_crc p;
     let p = p\<lparr>np_crc := crc\<rparr>;
     (b, buf_len, _) \<leftarrow> format_create REQUEST_SEND (Packet p) (os_getpid os)
        (uninit (os_junk os) MAX_MSG_LEN, os_junk os 0) REQUEST_SENDER_NODE;
     (_, n) \<leftarrow> node_essentials_get_conn_and_send os port b buf_len n;
     Some (p, n) }))"

definition node_essentials_broadcast ::
  "os \<Rightarrow> neighbors \<Rightarrow> node_packet \<Rightarrow> net \<Rightarrow> (node_packet \<times> net) option" where
  "node_essentials_broadcast os nb broadcast_payload n =
     mfold (broadcast_to os) (neighbor_ports nb) (broadcast_payload, n)"

definition node_essentials_send_unicast_contest ::
  "os \<Rightarrow> neighbors \<Rightarrow> unicast_contest \<Rightarrow> net \<Rightarrow> net option" where
  "node_essentials_send_unicast_contest os nb unicast n = do {
     (b, buf_len, _) \<leftarrow> format_create REQUEST_UNICAST_CONTEST (Unicast unicast) (os_getpid os)
        (uninit (os_junk os) (sizeof_unicast_contest + MSG_BASE_LEN), os_junk os 0) REQUEST_SENDER_NODE;
     send_all os (neighbor_ports nb) b buf_len n }"

definition node_essentials_send_unicast_first ::
  "os \<Rightarrow> unicast_contest \<Rightarrow> u8 \<Rightarrow> net \<Rightarrow> (unicast_contest \<times> net) option" where
  "node_essentials_send_unicast_first os unicast addr n =
     (let prev_addr = uc_node_addr unicast; unicast = unicast\<lparr>uc_node_addr := addr\<rparr> in do {
        (b, buf_len, _) \<leftarrow> format_create REQUEST_UNICAST_FIRST (Unicast unicast) (os_getpid os)
           (uninit (os_junk os) (sizeof_unicast_contest + MSG_BASE_LEN), os_junk os 0) REQUEST_SENDER_NODE;
        (_, n) \<leftarrow> node_essentials_get_conn_and_send os (node_port prev_addr) b buf_len n;
        Some (unicast, n) })"

subsection \<open>What the connection table promises\<close>

text \<open>
  \<open>open_on n p\<close> is the descriptor a pool holds for port \<open>p\<close>; \<open>connect\<close> is the operation that
  finds one or opens one.
\<close>

locale conn_pool =
  fixes connect :: "u16 \<Rightarrow> 'n \<Rightarrow> int \<times> 'n"
    and open_on :: "'n \<Rightarrow> u16 \<Rightarrow> int option"
    and invar :: "'n \<Rightarrow> bool"
  assumes reuse: "invar n \<Longrightarrow> open_on n p = Some fd \<Longrightarrow> \<exists>n'. connect p n = (fd, n') \<and> open_on n' = open_on n"
    and fresh: "invar n \<Longrightarrow> open_on n p = None \<Longrightarrow> connect p n = (fd, n') \<Longrightarrow>
      open_on n' = (if fd > 0 then (open_on n)(p \<mapsto> fd) else open_on n)"
    and open_pos: "invar n \<Longrightarrow> open_on n p = Some fd \<Longrightarrow> fd > 0"
    and invar_connect: "invar n \<Longrightarrow> connect p n = (fd, n') \<Longrightarrow> invar n'"
begin

lemma connect_opens:
  assumes "invar n" and "connect p n = (fd, n')" and "fd > 0"
  shows "open_on n' p = Some fd"
  using assms reuse [of n p] fresh [of n p fd n'] by (cases "open_on n p") auto

text \<open>A connection, once open, is used for every later message to that port.\<close>

lemma connect_again:
  assumes "invar n" and "connect p n = (fd, n')" and "fd > 0"
  shows "\<exists>n''. connect p n' = (fd, n'') \<and> open_on n'' = open_on n'"
  by (rule reuse [OF invar_connect [OF assms(1,2)] connect_opens [OF assms]])

lemma connect_other:
  assumes "invar n" and "connect p n = (fd, n')" and "q \<noteq> p"
  shows "open_on n' q = open_on n q"
  using assms reuse [of n p] fresh [of n p fd n'] by (cases "open_on n p") (auto split: if_splits)

end

definition open_on :: "net \<Rightarrow> u16 \<Rightarrow> int option" where
  "open_on n p = (if net_init n
     then map_option (\<lambda>i. conn_fd (net_conns n ! i)) (find_slot (\<lambda>c. conn_fd c > 0 \<and> conn_port c = p) n)
     else None)"

lemma open_on_trace: "open_on (n\<lparr>net_trace := tr\<rparr>) = open_on n"
  by (simp add: open_on_def find_slot_def fun_eq_iff)

definition net_ok :: "net \<Rightarrow> bool" where
  "net_ok n \<longleftrightarrow> length (net_conns n) = CONNECTIONS"

lemma find_slot_update_other:
  assumes "\<not> P (net_conns n ! i)" and "\<not> P c"
  shows "find_slot P (n\<lparr>net_conns := (net_conns n)[i := c], net_trace := tr\<rparr>) = find_slot P n"
proof -
  have "P ((net_conns n)[i := c] ! k) \<longleftrightarrow> P (net_conns n ! k)" if "k < length (net_conns n)" for k
    using assms that by (cases "k = i") auto
  then show ?thesis
    by (simp add: find_slot_def) (rule find_cong, auto)
qed

lemma find_slot_SomeD:
  "find_slot P n = Some i \<Longrightarrow> i < length (net_conns n) \<and> P (net_conns n ! i)"
  by (auto simp: find_slot_def find_Some_iff)

lemma find_slot_None: "find_slot P n = None \<longleftrightarrow> (\<forall>i < length (net_conns n). \<not> P (net_conns n ! i))"
  by (auto simp: find_slot_def find_None_iff)

lemma find_slot_Some: "find_slot P n = Some i \<longleftrightarrow>
    i < length (net_conns n) \<and> P (net_conns n ! i) \<and> (\<forall>j < i. \<not> P (net_conns n ! j))"
proof
  show "i < length (net_conns n) \<and> P (net_conns n ! i) \<and> (\<forall>j < i. \<not> P (net_conns n ! j))"
    if "find_slot P n = Some i"
    using that by (auto simp: find_slot_def find_Some_iff)
  show "find_slot P n = Some i"
    if "i < length (net_conns n) \<and> P (net_conns n ! i) \<and> (\<forall>j < i. \<not> P (net_conns n ! j))"
    using that unfolding find_slot_def find_Some_iff by (intro exI [of _ i]) auto
qed

lemma find_slot_update_here:
  assumes "find_slot P n = None" and "P c" and "i < length (net_conns n)"
  shows "find_slot P (n\<lparr>net_conns := (net_conns n)[i := c], net_trace := tr\<rparr>) = Some i"
  using assms unfolding find_slot_None find_slot_Some by (auto simp: nth_list_update)

lemma open_on_init: "open_on (init_conns n) = open_on n"
proof (cases "net_init n")
  case False
  have "find_slot (\<lambda>c. conn_fd c > 0 \<and> conn_port c = p) (init_conns n) = None" for p
    using False by (auto simp: find_slot_None init_conns_def no_conn_def)
  then show ?thesis
    using False by (simp add: open_on_def fun_eq_iff)
qed (simp add: init_conns_def)

lemma open_on_conv: "open_on n p = map_option (\<lambda>i. conn_fd (net_conns (init_conns n) ! i))
    (find_slot (\<lambda>c. conn_fd c > 0 \<and> conn_port c = p) (init_conns n))"
  by (subst open_on_init [symmetric]) (simp add: open_on_def init_conns_def)

lemma init_conns_simps [simp]:
  "net_init (init_conns n)" "length (net_conns (init_conns n)) = length (net_conns n)"
  "net_trace (init_conns n) = net_trace n"
  by (simp_all add: init_conns_def)

lemma init_conns_id [simp]: "net_init n \<Longrightarrow> init_conns n = n"
  by (simp add: init_conns_def)

text \<open>A connection attempt changes one slot that held no connection.\<close>

lemma get_conn_cases:
  assumes "get_conn os p n = (fd, n')"
  obtains (reused) "open_on n p = Some fd" "n' = init_conns n"
  | (full) "open_on n p = None" "fd = -1" "n' = init_conns n"
      "find_slot (\<lambda>c. conn_fd c = -1) (init_conns n) = None"
  | (failed) i k tr where "open_on n p = None" "fd = -1" "k < 0" "i < length (net_conns n)"
      "connection_socket_to_send os p (net_trace n) = (k, tr)"
      "conn_fd (net_conns (init_conns n) ! i) = -1"
      "n' = (init_conns n)\<lparr>net_conns := (net_conns (init_conns n))
               [i := (net_conns (init_conns n) ! i)\<lparr>conn_fd := k\<rparr>], net_trace := tr\<rparr>"
  | (opened) i tr where "open_on n p = None" "fd \<ge> 0" "i < length (net_conns n)"
      "connection_socket_to_send os p (net_trace n) = (fd, tr)"
      "conn_fd (net_conns (init_conns n) ! i) = -1"
      "n' = (init_conns n)\<lparr>net_conns := (net_conns (init_conns n))
               [i := \<lparr>conn_fd = fd, conn_port = p\<rparr>], net_trace := tr\<rparr>"
proof (cases "find_slot (\<lambda>c. conn_fd c > 0 \<and> conn_port c = p) (init_conns n)")
  case (Some i)
  then have "open_on n p = Some (conn_fd (net_conns (init_conns n) ! i))"
    by (simp add: open_on_conv)
  moreover have "get_conn os p n = (conn_fd (net_conns (init_conns n) ! i), init_conns n)"
    unfolding get_conn_def Let_def Some by simp
  ultimately show ?thesis
    using assms by (intro reused) auto
next
  case None
  then have closed: "open_on n p = None"
    by (simp add: open_on_conv)
  show ?thesis
  proof (cases "find_slot (\<lambda>c. conn_fd c = -1) (init_conns n)")
    case full': None
    have "get_conn os p n = (-1, init_conns n)"
      unfolding get_conn_def Let_def None full' by simp
    then show ?thesis
      using assms closed full' by (intro full) auto
  next
    case slot: (Some i)
    then have i: "i < length (net_conns n)" "conn_fd (net_conns (init_conns n) ! i) = -1"
      using find_slot_SomeD [OF slot] by auto
    obtain k tr where k: "connection_socket_to_send os p (net_trace n) = (k, tr)"
      by fastforce
    show ?thesis
    proof (cases "k < 0")
      case True
      then have "get_conn os p n = (-1, (init_conns n)\<lparr>net_conns := (net_conns (init_conns n))
               [i := (net_conns (init_conns n) ! i)\<lparr>conn_fd := k\<rparr>], net_trace := tr\<rparr>)"
        unfolding get_conn_def Let_def None slot by (simp add: k)
      then show ?thesis
        using assms closed i k True by (intro failed [of k i tr]) auto
    next
      case False
      then have "get_conn os p n = (k, (init_conns n)\<lparr>net_conns := (net_conns (init_conns n))
               [i := \<lparr>conn_fd = k, conn_port = p\<rparr>], net_trace := tr\<rparr>)"
        unfolding get_conn_def Let_def None slot by (simp add: k)
      then show ?thesis
        using assms closed i k False by (intro opened [of i tr]) auto
    qed
  qed
qed

interpretation pool: conn_pool "get_conn os" open_on net_ok for os
proof unfold_locales
  fix n p fd
  assume "open_on n p = Some fd"
  then have "get_conn os p n = (fd, init_conns n)"
    by (rule_tac get_conn_cases [OF surjective_pairing]) (auto simp: prod_eq_iff)
  then show "\<exists>n'. get_conn os p n = (fd, n') \<and> open_on n' = open_on n"
    by (simp add: open_on_init)
next
  fix n p fd
  assume "open_on n p = Some fd"
  then show "fd > 0"
    by (auto simp: open_on_def dest!: find_slot_SomeD split: if_splits)
next
  fix n p fd n'
  assume "net_ok n" and "get_conn os p n = (fd, n')"
  from this(2) show "net_ok n'"
    by (rule get_conn_cases) (use \<open>net_ok n\<close> in \<open>auto simp: net_ok_def\<close>)
next
  fix n p fd n'
  assume none: "open_on n p = None" and conn: "get_conn os p n = (fd, n')"
  from conn show "open_on n' = (if fd > 0 then (open_on n)(p \<mapsto> fd) else open_on n)"
  proof (cases rule: get_conn_cases)
    case (opened i tr)
    have here: "open_on n' p = (if fd > 0 then Some fd else open_on n p)"
    proof (cases "fd > 0")
      case True
      have "find_slot (\<lambda>c. conn_fd c > 0 \<and> conn_port c = p) (init_conns n) = None"
        using none by (simp add: open_on_conv)
      then have "find_slot (\<lambda>c. conn_fd c > 0 \<and> conn_port c = p) n' = Some i"
        unfolding opened(6) by (rule find_slot_update_here) (use True opened in auto)
      then show ?thesis
        using True opened by (simp add: open_on_def)
    next
      case False
      then have "find_slot (\<lambda>c. conn_fd c > 0 \<and> conn_port c = p) n' = find_slot (\<lambda>c. conn_fd c > 0 \<and> conn_port c = p) (init_conns n)"
        unfolding opened(6) by (intro find_slot_update_other) (use opened in auto)
      then show ?thesis
        using False none opened by (simp add: open_on_conv)
    qed
    have "open_on n' q = open_on (init_conns n) q" if "q \<noteq> p" for q
    proof -
      have same: "find_slot (\<lambda>c. conn_fd c > 0 \<and> conn_port c = q) n' = find_slot (\<lambda>c. conn_fd c > 0 \<and> conn_port c = q) (init_conns n)"
        unfolding opened(6) by (rule find_slot_update_other) (use that opened in auto)
      have "k \<noteq> i" if "find_slot (\<lambda>c. conn_fd c > 0 \<and> conn_port c = q) (init_conns n) = Some k" for k
        using find_slot_SomeD [OF that] opened(5) by auto
      then show ?thesis
        using same by (cases "find_slot (\<lambda>c. conn_fd c > 0 \<and> conn_port c = q) (init_conns n)")
          (auto simp: open_on_def opened(6))
    qed
    note other = this [unfolded open_on_init]
    show ?thesis
    proof
      show "open_on n' q = (if fd > 0 then (open_on n)(p \<mapsto> fd) else open_on n) q" for q
        using here other [of q] by (cases "q = p") auto
    qed
  next
    case (failed i k tr)
    have "open_on n' q = open_on (init_conns n) q" for q
    proof -
      have same: "find_slot (\<lambda>c. conn_fd c > 0 \<and> conn_port c = q) n' = find_slot (\<lambda>c. conn_fd c > 0 \<and> conn_port c = q) (init_conns n)"
        unfolding failed(7) by (rule find_slot_update_other) (use failed in auto)
      have "j \<noteq> i" if "find_slot (\<lambda>c. conn_fd c > 0 \<and> conn_port c = q) (init_conns n) = Some j" for j
        using find_slot_SomeD [OF that] failed(6) by auto
      then show ?thesis
        using same by (cases "find_slot (\<lambda>c. conn_fd c > 0 \<and> conn_port c = q) (init_conns n)")
          (auto simp: open_on_def failed(7))
    qed
    then show ?thesis
      using failed(2) by (simp add: fun_eq_iff open_on_init)
  qed (use none in \<open>simp_all add: open_on_init\<close>)
qed

subsection \<open>What is sent\<close>

text \<open>
  Every sending routine offers one message, in full, to the connection of a port.
\<close>

definition send_message :: "os \<Rightarrow> u16 \<Rightarrow> u8 list \<Rightarrow> net \<Rightarrow> bool \<times> net" where
  "send_message os port m n = (case get_conn os port n of (fd, n) \<Rightarrow>
     if fd < 0 then (False, n)
     else case io_write_loop os fd m (of_nat (length m)) (net_trace n) of (ok, tr) \<Rightarrow> (ok, n\<lparr>net_trace := tr\<rparr>))"

definition flood :: "os \<Rightarrow> u16 list \<Rightarrow> u8 list \<Rightarrow> net \<Rightarrow> net" where
  "flood os ports m n = fold (\<lambda>port n. snd (send_message os port m n)) ports n"

definition os_transmitted :: "os \<Rightarrow> request \<Rightarrow> payload \<Rightarrow> u8 list" where
  "os_transmitted os req pl = transmitted (os_junk os) (os_getpid os) req pl REQUEST_SENDER_NODE"

lemma get_conn_and_send_eq:
  assumes "unat len \<le> length buf" and "m = take (unat len) buf"
  shows "node_essentials_get_conn_and_send os port buf len n = Some (send_message os port m n)"
proof -
  have "of_nat (length m) = len"
    using assms by simp
  moreover have "io_write_loop os fd buf len tr = io_write_loop os fd m len tr" for fd tr
    using assms(2) io_write_loop_take by metis
  ultimately show ?thesis
    using assms(1)
    by (auto simp: node_essentials_get_conn_and_send_def send_message_def io_write_all_def
        split: prod.split)
qed

lemma notify_server_eq:
  "node_essentials_notify_server os nt n
   = Some (send_message os SERVER_PORT (os_transmitted os REQUEST_NOTIFY (Notify nt)) n)"
proof -
  let ?m = "wire_message REQUEST_NOTIFY (Notify nt) (os_getpid os) REQUEST_SENDER_NODE"
  have len: "length ?m = 6"
    using length_wire_message(3) [of "Notify nt"] by simp
  have m: "os_transmitted os REQUEST_NOTIFY (Notify nt) = ?m"
    unfolding os_transmitted_def by (rule transmitted_exact) auto
  have "node_essentials_notify_server os nt n = node_essentials_get_conn_and_send os SERVER_PORT ?m 6 n"
    by (simp add: node_essentials_notify_server_def node_essentials_get_conn_and_send_def
        format_create_uninit fits_def Let_def settings len)
  also have "\<dots> = Some (send_message os SERVER_PORT ?m n)"
    by (rule get_conn_and_send_eq) (simp_all add: len)
  finally show ?thesis by (simp only: m)
qed

text \<open>Formatting into a buffer with room for the message, then sending it.\<close>

lemma created_send_eq:
  assumes "payload_ok pl" and "wire_len pl \<le> cap"
  shows "node_essentials_get_conn_and_send os port
      (wire_message req pl (os_getpid os) REQUEST_SENDER_NODE
        @ map (os_junk os) [length (wire_message req pl (os_getpid os) REQUEST_SENDER_NODE)..<cap])
      (of_nat (wire_len pl)) n
    = Some (send_message os port (os_transmitted os req pl) n)"
proof (rule get_conn_and_send_eq)
  show "unat (of_nat (wire_len pl) :: u8) \<le> length (wire_message req pl (os_getpid os) REQUEST_SENDER_NODE
        @ map (os_junk os) [length (wire_message req pl (os_getpid os) REQUEST_SENDER_NODE)..<cap])"
    using assms length_wire_message(1) [OF assms(1), of req "os_getpid os" REQUEST_SENDER_NODE]
    by (simp add: unat_wire_len)
qed (simp only: unat_wire_len [OF assms(1)] take_created [OF assms] os_transmitted_def)

lemma created_send_all_eq:
  assumes "payload_ok pl" and "wire_len pl \<le> cap"
  shows "send_all os ports
      (wire_message req pl (os_getpid os) REQUEST_SENDER_NODE
        @ map (os_junk os) [length (wire_message req pl (os_getpid os) REQUEST_SENDER_NODE)..<cap])
      (of_nat (wire_len pl)) n
    = Some (flood os ports (os_transmitted os req pl) n)"
  unfolding send_all_def flood_def
  by (induction ports arbitrary: n) (simp_all add: created_send_eq [OF assms] case_prod_beta)

lemma wire_len_packet: "packet_ok p \<Longrightarrow> wire_len (Packet p) \<le> 167"
  using length_wire_message(2) [of "Packet p"] by simp

lemma broadcast_route_eq:
  assumes "packet_ok p"
  defines "q \<equiv> seal (p\<lparr>np_time_to_live := np_time_to_live p - 1\<rparr>)"
  shows "node_essentials_broadcast_route os nb p False n
       = Some (q, flood os (neighbor_ports nb) (os_transmitted os REQUEST_ROUTE_DIRECT (Packet q)) n)"
proof -
  let ?p = "p\<lparr>np_time_to_live := np_time_to_live p - 1\<rparr>"
  have ok: "packet_ok ?p" using assms(1) by (simp add: packet_ok_def)
  then obtain c where c: "packet_crc ?p = Some c" using packet_crc_Some by blast
  have q: "?p\<lparr>np_crc := c\<rparr> = q" "payload_ok (Packet q)"
    using packet_crc_seal [OF c] ok by (simp_all add: q_def)
  have cap: "wire_len (Packet q) \<le> MAX_MSG_LEN"
    using wire_len_packet [of q] q(2) by (simp add: settings)
  have len: "length (wire_message REQUEST_ROUTE_DIRECT (Packet q) (os_getpid os) REQUEST_SENDER_NODE) \<le> MAX_MSG_LEN"
    using length_wire_message(1) [OF q(2)] cap by (meson le_trans)
  have "fits REQUEST_ROUTE_DIRECT (Packet q)"
    by (simp add: fits_def is_route_request_def)
  then show ?thesis
    using c q(1) len created_send_all_eq [OF q(2) cap]
    by (simp add: node_essentials_broadcast_route_def Let_def format_create_uninit [OF _ q(2)])
qed

end
