(* ===== verification/Node_App.thy ===== *)
theory Node_App
  imports Format_Wire Io
begin

text \<open>
  Applications on a node: \<^verbatim>\<open>node/src/node_app.c\<close>.  zlib is outside the repository: \<open>os_deflate\<close> is
  what \<^verbatim>\<open>deflate(.., Z_FINISH)\<close> and \<open>os_inflate\<close> what \<^verbatim>\<open>inflate(.., Z_NO_FLUSH)\<close> would write with
  unlimited room, of which the 150 bytes of the local buffer \<^verbatim>\<open>b\<close> receive the front.  \<^verbatim>\<open>srandom\<close>
  in \<^verbatim>\<open>node_app_fill_default\<close> seeds a generator nothing reads.
\<close>

record app =
  at_node_addr :: u8
  at_app_addr :: u8

definition node_app_fill_default :: "app list \<Rightarrow> u8 \<Rightarrow> app list" where
  "node_app_fill_default apps addr =
     foldl (\<lambda>apps i. apps[i := \<lparr>at_node_addr = addr, at_app_addr = of_nat i\<rparr>]) apps [0..<APPS_COUNT]"

text \<open>
  \<^verbatim>\<open>compress_message\<close> and \<^verbatim>\<open>decompress_message\<close>: the message array and its length afterwards.  The
  input is read from the array, so a longer length is \<open>None\<close>.
\<close>

definition zlib_buffer :: "os \<Rightarrow> u8 list \<Rightarrow> u8 list" where
  "zlib_buffer os out = take APP_MESSAGE_LEN out @ drop (length (take APP_MESSAGE_LEN out)) (uninit (os_junk os) APP_MESSAGE_LEN)"

definition compress_message :: "os \<Rightarrow> u8 list \<Rightarrow> u8 \<Rightarrow> (u8 list \<times> u8) option" where
  "compress_message os msg msg_len = do {
     (inp, _) \<leftarrow> get_bytes (unat msg_len) msg;
     let out = os_deflate os inp;
     Some (zlib_buffer os out, of_nat (length (take APP_MESSAGE_LEN out))) }"

definition decompress_message :: "os \<Rightarrow> u8 list \<Rightarrow> u8 \<Rightarrow> (u8 list \<times> u8) option" where
  "decompress_message os msg msg_len = do {
     (inp, _) \<leftarrow> get_bytes (unat msg_len) msg;
     let out = os_inflate os inp;
     Some (zlib_buffer os out, of_nat (length (take APP_MESSAGE_LEN out))) }"

definition node_app_setup_delivery :: "os \<Rightarrow> app_payload \<Rightarrow> app_payload option" where
  "node_app_setup_delivery os a =
     (if ap_message_len a \<noteq> 0 then do {
        (msg, len) \<leftarrow> compress_message os (ap_message a) (ap_message_len a);
        Some (a\<lparr>ap_message := msg, ap_message_len := len\<rparr>) }
      else Some a)"

text \<open>Decompress in place and compare checksums; the payload afterwards and whether they agree.\<close>

definition check_message :: "os \<Rightarrow> app_payload \<Rightarrow> (bool \<times> app_payload) option" where
  "check_message os a = do {
     (msg, len) \<leftarrow> decompress_message os (ap_message a) (ap_message_len a);
     let a = a\<lparr>ap_message := msg, ap_message_len := len\<rparr>;
     calc_crc \<leftarrow> app_crc a;
     Some (calc_crc = ap_crc a, a) }"

definition node_app_handle_request :: "os \<Rightarrow> app list \<Rightarrow> app_payload \<Rightarrow> (bool \<times> app_payload) option" where
  "node_app_handle_request os apps a =
     (case app_request_of (ap_req_type a) of
        Some APP_REQUEST_DELIVERY \<Rightarrow>
          (if list_ex (\<lambda>x. at_app_addr x = ap_addr_to a) apps
           then (if ap_message_len a \<noteq> 0 then check_message os a else Some (True, a))
           else Some (False, a))
      | Some APP_REQUEST_BROADCAST \<Rightarrow> (if ap_message_len a \<noteq> 0 then check_message os a else Some (True, a))
      | Some APP_REQUEST_UNICAST \<Rightarrow> (if ap_message_len a \<noteq> 0 then check_message os a else Some (True, a))
      | None \<Rightarrow> Some (False, a))"

subsection \<open>Memory safety\<close>

definition apps_ok :: "u8 \<Rightarrow> app list \<Rightarrow> bool" where
  "apps_ok addr apps \<longleftrightarrow> apps = map (\<lambda>i. \<lparr>at_node_addr = addr, at_app_addr = of_nat i\<rparr>) [0..<APPS_COUNT]"

lemma node_app_fill_default_ok: "length apps = APPS_COUNT \<Longrightarrow> apps_ok addr (node_app_fill_default apps addr)"
proof -
  assume len: "length apps = APPS_COUNT"
  have "foldl (\<lambda>xs i. xs[i := f i]) xs [0..<n] = map f [0..<n] @ drop n xs" if "n \<le> length xs" for n f and xs :: "app list"
    using that
  proof (induction n)
    case (Suc n)
    then have "drop n xs = xs ! n # drop (Suc n) xs" by (simp add: Cons_nth_drop_Suc)
    with Suc show ?case by (simp add: list_update_append)
  qed simp
  from this [of APPS_COUNT apps] len show ?thesis
    by (simp add: node_app_fill_default_def apps_ok_def)
qed

lemma length_zlib_buffer [simp]: "length (zlib_buffer os out) = APP_MESSAGE_LEN"
  by (simp add: zlib_buffer_def)

lemma take_zlib_buffer:
  "take (length (take APP_MESSAGE_LEN out)) (zlib_buffer os out) = take APP_MESSAGE_LEN out"
  by (simp add: zlib_buffer_def min_def)

lemma unat_zlib_len [simp]: "unat (of_nat (min (length out) APP_MESSAGE_LEN) :: u8) = min (length out) APP_MESSAGE_LEN"
  by (rule unat_u8_of_nat) (simp add: settings)

lemma decompress_message_ok:
  assumes "app_ok a"
  shows "\<exists>msg len. decompress_message os (ap_message a) (ap_message_len a) = Some (msg, len)
     \<and> app_ok (a\<lparr>ap_message := msg, ap_message_len := len\<rparr>)"
  using assms by (auto simp: decompress_message_def get_bytes_def app_ok_def Let_def)

lemma setup_delivery_ok:
  assumes "app_ok a"
  shows "\<exists>a'. node_app_setup_delivery os a = Some a' \<and> app_ok a' \<and> ap_id a' = ap_id a
     \<and> ap_req_type a' = ap_req_type a \<and> ap_addr_to a' = ap_addr_to a \<and> ap_crc a' = ap_crc a"
  using assms
  by (auto simp: node_app_setup_delivery_def compress_message_def get_bytes_def app_ok_def Let_def)

lemma check_message_ok:
  assumes "app_ok a"
  shows "\<exists>ok a'. check_message os a = Some (ok, a') \<and> app_ok a'"
proof -
  obtain msg len where d: "decompress_message os (ap_message a) (ap_message_len a) = Some (msg, len)"
    and ok: "app_ok (a\<lparr>ap_message := msg, ap_message_len := len\<rparr>)"
    using decompress_message_ok [OF assms] by blast
  from ok obtain c where "app_crc (a\<lparr>ap_message := msg, ap_message_len := len\<rparr>) = Some c"
    by (auto simp: app_crc_head crc16_eq)
  with d ok show ?thesis
    by (simp add: check_message_def Let_def)
qed

lemma app_handle_request_ok:
  assumes "app_ok a"
  shows "\<exists>ok a'. node_app_handle_request os apps a = Some (ok, a') \<and> app_ok a'"
  using assms check_message_ok [OF assms, of os]
  by (auto simp: node_app_handle_request_def split: option.split app_request.split)

subsection \<open>End to end\<close>

text \<open>
  What the application layer needs of zlib: the output fits the 150-byte buffer and inflates
  back to the message.
\<close>

definition zlib_inverse :: "os \<Rightarrow> u8 list \<Rightarrow> bool" where
  "zlib_inverse os m \<longleftrightarrow> os_deflate os m \<noteq> [] \<and> length (os_deflate os m) \<le> APP_MESSAGE_LEN
     \<and> os_inflate os (os_deflate os m) = m"

text \<open>A payload that was compressed by the sending node passes the check of the receiving one.\<close>

lemma setup_then_check:
  assumes ok: "app_ok a" and crc: "app_crc a = Some (ap_crc a)" and len: "ap_message_len a \<noteq> 0"
    and z: "zlib_inverse os (take (unat (ap_message_len a)) (ap_message a))"
    and sent: "node_app_setup_delivery os a = Some a'" and recv: "app_norm b = app_norm a'" "app_ok b"
  shows "ap_message_len b \<noteq> 0 \<and> (\<exists>b'. check_message os b = Some (True, b')
     \<and> ap_message_len b' = ap_message_len a
     \<and> take (unat (ap_message_len a)) (ap_message b') = take (unat (ap_message_len a)) (ap_message a))"
proof -
  define m where "m = take (unat (ap_message_len a)) (ap_message a)"
  define d where "d = os_deflate os m"
  have fits: "length m \<le> APP_MESSAGE_LEN" "length m = unat (ap_message_len a)"
    using ok by (simp_all add: m_def app_ok_def)
  have d: "d \<noteq> []" "length d \<le> APP_MESSAGE_LEN" "os_inflate os d = m"
    using z by (simp_all add: zlib_inverse_def d_def m_def)
  have a': "a' = a\<lparr>ap_message := zlib_buffer os d, ap_message_len := of_nat (length d)\<rparr>"
    using sent len fits ok d
    by (simp add: node_app_setup_delivery_def compress_message_def get_bytes_def m_def d_def app_ok_def Let_def)
  have ud: "unat (of_nat (length d) :: u8) = length d"
    using d(2) by (intro unat_u8_of_nat) (simp add: settings)
  have b: "ap_message_len b = of_nat (length d)" "ap_crc b = ap_crc a" "ap_id b = ap_id a"
    "ap_req_type b = ap_req_type a" "ap_addr_from b = ap_addr_from a" "ap_addr_to b = ap_addr_to a"
    using recv(1) a' unfolding app_norm_iff by simp_all
  have "take (length d) (ap_message b) = take (length d) (zlib_buffer os d)"
    using recv(1) a' ud b(1) unfolding app_norm_iff by simp
  also have "\<dots> = d"
    using take_zlib_buffer [of d os] d(2) by simp
  finally have msg: "take (unat (ap_message_len b)) (ap_message b) = d"
    by (simp add: b(1) ud)
  have nz: "ap_message_len b \<noteq> 0"
    using ud d(1) by (metis b(1) length_0_conv unsigned_0)
  let ?b' = "b\<lparr>ap_message := zlib_buffer os m, ap_message_len := of_nat (length m)\<rparr>"
  have um: "(of_nat (length m) :: u8) = ap_message_len a"
    by (simp add: fits(2))
  have dec: "decompress_message os (ap_message b) (ap_message_len b) = Some (zlib_buffer os m, of_nat (length m))"
    using msg recv(2) d(3) fits(1)
    by (simp add: decompress_message_def get_bytes_def app_ok_def Let_def)
  have okb: "app_ok ?b'"
    using fits by (simp add: app_ok_def um)
  have same: "take (unat (ap_message_len a)) (zlib_buffer os m) = m"
    using take_zlib_buffer [of m os] fits by simp
  have "app_head ?b' = app_head a"
    unfolding app_head_def using same b um by (simp add: m_def [symmetric])
  then have "app_crc ?b' = Some (ap_crc b)"
    using crc b(2) by (simp add: app_crc_head [OF okb] app_crc_head [OF ok])
  then have "check_message os b = Some (True, ?b')"
    by (simp add: check_message_def dec Let_def)
  then show ?thesis
    using nz same um by (auto simp: m_def)
qed

end
