(* ===== verification/Messages.thy ===== *)
theory Messages
  imports Settings
begin

text \<open>
  The table of handled messages of \<^verbatim>\<open>node/src/node_handler.c\<close> (\<^verbatim>\<open>messages\<close>, \<^verbatim>\<open>message_num\<close>,
  \<^verbatim>\<open>init\<close>): a node remembers up to 100 message ids and three flags for each.  The three
  pairs of \<^verbatim>\<open>get_*_by_id\<close> and \<^verbatim>\<open>set_*_by_id\<close> routines share one contract, the locale
  \<open>flag_store\<close>; the idiom the handlers build from it, to act on a message only the first time,
  is proved correct there once.  A read through an index at or beyond \<^verbatim>\<open>message_num\<close> never
  happens, and \<open>messages_ok\<close> (kept by every operation) gives \<^verbatim>\<open>message_num <= 100\<close>, so the
  counter's 8 bits never wrap and every store is inside the array.
\<close>

definition MAX_MESSAGE_DATA :: nat where "MAX_MESSAGE_DATA = 100"
declare MAX_MESSAGE_DATA_def [settings]

record message_data =
  md_id :: u16
  md_stop_inverse :: bool
  md_was_message :: bool
  md_unicast_first :: bool

record message_store =
  ms_num :: nat
  ms_init :: bool
  ms_messages :: "message_data list"

definition blank_message :: "u16 \<Rightarrow> message_data" where
  "blank_message mid = \<lparr>md_id = mid, md_stop_inverse = False, md_was_message = False, md_unicast_first = False\<rparr>"

text \<open>Static storage starts zeroed.\<close>

definition initial_messages :: message_store where
  "initial_messages = \<lparr>ms_num = 0, ms_init = False, ms_messages = replicate MAX_MESSAGE_DATA (blank_message 0)\<rparr>"

definition visible :: "message_store \<Rightarrow> message_data list" where
  "visible s = take (ms_num s) (ms_messages s)"

definition find_message :: "message_store \<Rightarrow> u16 \<Rightarrow> message_data option" where
  "find_message s mid = find (\<lambda>m. md_id m = mid) (visible s)"

definition is_id_set :: "message_store \<Rightarrow> u16 \<Rightarrow> bool" where
  "is_id_set s mid = list_ex (\<lambda>m. md_id m = mid) (visible s)"

definition set_new_id :: "message_store \<Rightarrow> u16 \<Rightarrow> message_store" where
  "set_new_id s mid =
     (if ms_num s = MAX_MESSAGE_DATA
      then s\<lparr>ms_messages := (ms_messages s)[0 := blank_message mid], ms_num := 1\<rparr>
      else s\<lparr>ms_messages := (ms_messages s)[ms_num s := (ms_messages s ! ms_num s)\<lparr>md_id := mid\<rparr>],
             ms_num := (ms_num s + 1) mod 256\<rparr>)"

definition fill_messages_default :: "message_store \<Rightarrow> message_store" where
  "fill_messages_default s =
     s\<lparr>ms_messages := foldl (\<lambda>ms i. ms[i := blank_message 0]) (ms_messages s) [0..<MAX_MESSAGE_DATA]\<rparr>"

definition init_messages_data :: "message_store \<Rightarrow> message_store" where
  "init_messages_data s = (if \<not> ms_init s then (fill_messages_default s)\<lparr>ms_init := True\<rparr> else s)"

text \<open>The getters: \<open>Some\<close> of the flag when the id is known, otherwise the id is entered.\<close>

definition get_inverse_by_id :: "message_store \<Rightarrow> u16 \<Rightarrow> bool option \<times> message_store" where
  "get_inverse_by_id s mid = (let s = init_messages_data s in
     case find_message s mid of
       Some m \<Rightarrow> (Some (md_stop_inverse m), s)
     | None \<Rightarrow> (None, set_new_id s mid))"

definition get_was_message_by_id :: "message_store \<Rightarrow> u16 \<Rightarrow> bool option \<times> message_store" where
  "get_was_message_by_id s mid = (let s = init_messages_data s in
     case find_message s mid of
       Some m \<Rightarrow> (Some (md_was_message m), s)
     | None \<Rightarrow> (None, set_new_id s mid))"

definition get_unicast_status_by_id :: "message_store \<Rightarrow> u16 \<Rightarrow> bool option \<times> message_store" where
  "get_unicast_status_by_id s mid = (let s = init_messages_data s in
     case find_message s mid of
       Some m \<Rightarrow> (Some (md_unicast_first m), s)
     | None \<Rightarrow> (None, set_new_id s mid))"

text \<open>\<open>for (i = 0; i < message_num; i++) if (messages[i].id == id) ..\<close>\<close>

definition update_messages :: "message_store \<Rightarrow> u16 \<Rightarrow> (message_data \<Rightarrow> message_data) \<Rightarrow> message_store" where
  "update_messages s mid f =
     s\<lparr>ms_messages := map (\<lambda>m. if md_id m = mid then f m else m) (visible s)
                      @ drop (ms_num s) (ms_messages s)\<rparr>"

definition set_inverse_by_id :: "message_store \<Rightarrow> u16 \<Rightarrow> bool \<Rightarrow> message_store" where
  "set_inverse_by_id s mid stop_inverse = (let s = init_messages_data s in
     if \<not> is_id_set s mid then
       (if ms_num s = MAX_MESSAGE_DATA
        then s\<lparr>ms_messages := (ms_messages s)[0 := (blank_message mid)\<lparr>md_stop_inverse := stop_inverse\<rparr>],
               ms_num := 1\<rparr>
        else s)
     else update_messages s mid (\<lambda>m. m\<lparr>md_stop_inverse := stop_inverse\<rparr>))"

definition set_was_message_by_id :: "message_store \<Rightarrow> u16 \<Rightarrow> bool \<Rightarrow> message_store" where
  "set_was_message_by_id s mid was_message = (let s = init_messages_data s in
     if \<not> is_id_set s mid then
       (if ms_num s = MAX_MESSAGE_DATA
        then s\<lparr>ms_messages := (ms_messages s)[0 := (blank_message mid)\<lparr>md_was_message := was_message\<rparr>],
               ms_num := 1\<rparr>
        else s)
     else update_messages s mid (\<lambda>m. m\<lparr>md_was_message := was_message\<rparr>))"

text \<open>
  In the wrap-around branch \<^verbatim>\<open>unicast_first\<close> is assigned twice, the second time \<^verbatim>\<open>false\<close>, and
  \<^verbatim>\<open>was_message\<close> keeps what the slot held.
\<close>

definition set_unicast_status_by_id :: "message_store \<Rightarrow> u16 \<Rightarrow> bool \<Rightarrow> message_store" where
  "set_unicast_status_by_id s mid unicast_first = (let s = init_messages_data s in
     if \<not> is_id_set s mid then
       (if ms_num s = MAX_MESSAGE_DATA
        then s\<lparr>ms_messages := (ms_messages s)[0 := (ms_messages s ! 0)
                 \<lparr>md_id := mid, md_stop_inverse := False, md_unicast_first := unicast_first,
                  md_unicast_first := False\<rparr>],
               ms_num := 1\<rparr>
        else s)
     else update_messages s mid (\<lambda>m. m\<lparr>md_unicast_first := unicast_first\<rparr>))"

subsection \<open>The contract of a pair of routines\<close>

locale flag_store =
  fixes get :: "'s \<Rightarrow> u16 \<Rightarrow> bool option \<times> 's"
    and put :: "'s \<Rightarrow> u16 \<Rightarrow> bool \<Rightarrow> 's"
    and known :: "'s \<Rightarrow> u16 \<Rightarrow> bool"
    and flag :: "'s \<Rightarrow> u16 \<Rightarrow> bool"
    and invar :: "'s \<Rightarrow> bool"
  assumes get_known: "invar s \<Longrightarrow> known s mid \<Longrightarrow> get s mid = (Some (flag s mid), s)"
    and get_fresh: "invar s \<Longrightarrow> \<not> known s mid \<Longrightarrow> fst (get s mid) = None \<and> known (snd (get s mid)) mid"
    and invar_get: "invar s \<Longrightarrow> invar (snd (get s mid))"
    and invar_put: "invar s \<Longrightarrow> known s mid \<Longrightarrow> invar (put s mid v)"
    and known_put: "invar s \<Longrightarrow> known s mid \<Longrightarrow> known (put s mid v) mid' = known s mid'"
    and flag_put: "invar s \<Longrightarrow> known s mid \<Longrightarrow> known s mid' \<Longrightarrow>
      flag (put s mid v) mid' = (if mid' = mid then v else flag s mid')"
begin

text \<open>
  The handlers' idiom: look the flag up, stop if it is set, otherwise set it and go on.
\<close>

definition once :: "'s \<Rightarrow> u16 \<Rightarrow> bool \<times> 's" where
  "once s mid = (case get s mid of
      (Some True, s) \<Rightarrow> (False, s)
    | (Some False, s) \<Rightarrow> (True, put s mid True)
    | (None, s) \<Rightarrow> (True, put s mid True))"

lemma get_cases:
  assumes "invar s"
  shows "known (snd (get s mid)) mid" and "fst (get s mid) = (if known s mid then Some (flag s mid) else None)"
  using assms get_known [of s mid] get_fresh [of s mid] by (cases "known s mid"; auto)+

lemma once_eq:
  assumes "invar s"
  shows "once s mid = (if known s mid \<and> flag s mid then (False, s) else (True, put (snd (get s mid)) mid True))"
  using assms get_known [of s mid] get_fresh [of s mid]
  by (cases "get s mid"; cases "known s mid"; cases "flag s mid") (auto simp: once_def)

lemma once_invar: "invar s \<Longrightarrow> invar (snd (once s mid))"
  by (simp add: once_eq invar_put invar_get get_cases)

lemma once_marks:
  "invar s \<Longrightarrow> known (snd (once s mid)) mid \<and> flag (snd (once s mid)) mid"
  by (simp add: once_eq known_put flag_put invar_get get_cases)

text \<open>The second time, and every later time while the id is remembered, nothing happens.\<close>

lemma once_again: "invar s \<Longrightarrow> once (snd (once s mid)) mid = (False, snd (once s mid))"
  using once_invar [of s mid] once_marks [of s mid] by (simp add: once_eq [of "snd (once s mid)"])

end

subsection \<open>The table provides it three times\<close>

definition messages_ok :: "message_store \<Rightarrow> bool" where
  "messages_ok s \<longleftrightarrow> length (ms_messages s) = MAX_MESSAGE_DATA \<and> ms_num s \<le> MAX_MESSAGE_DATA
     \<and> (ms_init s \<or> ms_num s = 0)"

definition flag_of :: "(message_data \<Rightarrow> bool) \<Rightarrow> message_store \<Rightarrow> u16 \<Rightarrow> bool" where
  "flag_of f s mid = (case find_message s mid of Some m \<Rightarrow> f m | None \<Rightarrow> False)"

lemma messages_ok_initial: "messages_ok initial_messages"
  by (simp add: messages_ok_def initial_messages_def)

lemma find_message_None: "find_message s mid = None \<longleftrightarrow> \<not> is_id_set s mid"
  by (auto simp: find_message_def is_id_set_def find_None_iff list_ex_iff)

lemma find_message_Some: "find_message s mid = Some m \<Longrightarrow> is_id_set s mid \<and> md_id m = mid"
  by (metis (mono_tags, lifting) find_Some_iff find_message_None find_message_def option.distinct(1))

lemma flag_of_Some: "find_message s mid = Some m \<Longrightarrow> flag_of f s mid = f m"
  by (simp add: flag_of_def)

lemma is_id_set_init: "messages_ok s \<Longrightarrow> is_id_set s mid \<Longrightarrow> init_messages_data s = s"
  by (auto simp: messages_ok_def is_id_set_def visible_def init_messages_data_def)

lemma length_foldl_update [simp]: "length (foldl (\<lambda>xs i. xs[i := y]) xs is) = length xs"
  by (induction "is" arbitrary: xs) auto

lemma messages_ok_fill: "messages_ok s \<Longrightarrow> messages_ok (fill_messages_default s)"
  by (simp add: messages_ok_def fill_messages_default_def)

lemma messages_ok_init:
  "messages_ok s \<Longrightarrow> messages_ok (init_messages_data s)"
  "messages_ok s \<Longrightarrow> ms_init (init_messages_data s)"
  "ms_num (init_messages_data s) = ms_num s"
  by (auto simp: messages_ok_def init_messages_data_def fill_messages_default_def)

lemma is_id_set_init_data: "messages_ok s \<Longrightarrow> is_id_set (init_messages_data s) mid = is_id_set s mid"
  by (auto simp: messages_ok_def init_messages_data_def fill_messages_default_def is_id_set_def visible_def)

lemma set_new_id_ok:
  "messages_ok s \<Longrightarrow> ms_init s \<Longrightarrow> messages_ok (set_new_id s mid) \<and> is_id_set (set_new_id s mid) mid"
  by (auto simp: messages_ok_def set_new_id_def settings is_id_set_def visible_def list_ex_iff
      take_Suc_conv_app_nth blank_message_def hd_conv_nth take_Suc)

lemma find_map_if:
  "find (\<lambda>m. md_id m = mid') (map (\<lambda>m. if md_id m = mid then f m else m) ms)
   = map_option (\<lambda>m. if mid' = mid then f m else m) (find (\<lambda>m. md_id m = mid') ms)"
  if "\<And>m. md_id (f m) = md_id m"
  by (induction ms) (auto simp: that)

lemma visible_update [simp]: "messages_ok s \<Longrightarrow> visible (update_messages s mid f)
    = map (\<lambda>m. if md_id m = mid then f m else m) (visible s)"
  by (simp add: visible_def update_messages_def messages_ok_def)

lemma update_messages_ok: "messages_ok s \<Longrightarrow> messages_ok (update_messages s mid f)"
  by (simp add: messages_ok_def update_messages_def visible_def)

lemma update_messages_known:
  assumes "messages_ok s" and "\<And>m. md_id (f m) = md_id m"
  shows "is_id_set (update_messages s mid f) mid' = is_id_set s mid'"
    and "flag_of g (update_messages s mid f) mid'
       = (case find_message s mid' of Some m \<Rightarrow> g (if mid' = mid then f m else m) | None \<Rightarrow> False)"
  using assms by (auto simp: flag_of_def find_message_def is_id_set_def list_ex_iff find_map_if
      split: option.splits)

lemma put_eq:
  assumes "messages_ok s" and "is_id_set s mid"
  shows "set_inverse_by_id s mid v = update_messages s mid (\<lambda>m. m\<lparr>md_stop_inverse := v\<rparr>)"
    and "set_was_message_by_id s mid v = update_messages s mid (\<lambda>m. m\<lparr>md_was_message := v\<rparr>)"
    and "set_unicast_status_by_id s mid v = update_messages s mid (\<lambda>m. m\<lparr>md_unicast_first := v\<rparr>)"
  using assms by (simp_all add: set_inverse_by_id_def set_was_message_by_id_def
      set_unicast_status_by_id_def is_id_set_init)

lemma get_eq:
  assumes "messages_ok s"
  shows "get_inverse_by_id s mid = (if is_id_set s mid then (Some (flag_of md_stop_inverse s mid), s)
      else (None, set_new_id (init_messages_data s) mid))"
    and "get_was_message_by_id s mid = (if is_id_set s mid then (Some (flag_of md_was_message s mid), s)
      else (None, set_new_id (init_messages_data s) mid))"
    and "get_unicast_status_by_id s mid = (if is_id_set s mid then (Some (flag_of md_unicast_first s mid), s)
      else (None, set_new_id (init_messages_data s) mid))"
  using assms is_id_set_init [of s mid] is_id_set_init_data [of s mid] find_message_None [of s mid]
    find_message_None [of "init_messages_data s" mid]
  by (auto simp: get_inverse_by_id_def get_was_message_by_id_def get_unicast_status_by_id_def
      flag_of_def Let_def split: option.splits)

lemmas message_facts = get_eq put_eq update_messages_ok update_messages_known set_new_id_ok
  messages_ok_init flag_of_Some find_message_None

interpretation inverse: flag_store get_inverse_by_id set_inverse_by_id is_id_set
  "flag_of md_stop_inverse" messages_ok
  by unfold_locales (auto simp: message_facts split: option.splits)

interpretation was_message: flag_store get_was_message_by_id set_was_message_by_id is_id_set
  "flag_of md_was_message" messages_ok
  by unfold_locales (auto simp: message_facts split: option.splits)

interpretation unicast_first: flag_store get_unicast_status_by_id set_unicast_status_by_id is_id_set
  "flag_of md_unicast_first" messages_ok
  by unfold_locales (auto simp: message_facts split: option.splits)

end
