(* ===== verification/Routing.thy ===== *)
theory Routing
  imports Settings
begin

text \<open>
  The routing table: \<^verbatim>\<open>common/include/routing.h\<close> and \<^verbatim>\<open>common/src/routing.c\<close>.  The table is an
  array indexed by destination; an entry whose next hop is \<^verbatim>\<open>UINT8_MAX\<close> is empty.  The locale
  \<open>route_map\<close> is what the packet handlers rely on: a partial map from destinations to next
  hop and metric.
\<close>

record routing_node =
  rn_addr :: u8
  rn_metric :: i8

record routing_table =
  rt_nodes :: "routing_node list"
  rt_len :: nat

definition empty_node :: routing_node where
  "empty_node = \<lparr>rn_addr = UINT8_MAX, rn_metric = 0\<rparr>"

definition routing_table_fill_default :: "routing_table \<Rightarrow> routing_table" where
  "routing_table_fill_default table =
     table\<lparr>rt_nodes := foldl (\<lambda>ns i. ns[i := empty_node]) (rt_nodes table) [0..<NODE_COUNT], rt_len := 0\<rparr>"

definition routing_next_addr :: "routing_table \<Rightarrow> u8 \<Rightarrow> u8" where
  "routing_next_addr table dest_addr =
     (if unat dest_addr < NODE_COUNT then rn_addr (rt_nodes table ! unat dest_addr) else UINT8_MAX)"

definition routing_get :: "routing_table \<Rightarrow> u8 \<Rightarrow> routing_node" where
  "routing_get table dest_addr =
     (if unat dest_addr < NODE_COUNT then rt_nodes table ! unat dest_addr else empty_node)"

definition routing_set_addr :: "routing_table \<Rightarrow> u8 \<Rightarrow> u8 \<Rightarrow> i8 \<Rightarrow> routing_table" where
  "routing_set_addr table dest_addr next_addr metric =
     (if unat dest_addr < NODE_COUNT
      then table\<lparr>rt_nodes := (rt_nodes table)[unat dest_addr := \<lparr>rn_addr = next_addr, rn_metric = metric\<rparr>]\<rparr>
      else table)"

definition routing_del :: "routing_table \<Rightarrow> u8 \<Rightarrow> routing_table" where
  "routing_del table dest_addr =
     (if unat dest_addr < NODE_COUNT
      then table\<lparr>rt_nodes := (rt_nodes table)[unat dest_addr := \<lparr>rn_addr = UINT8_MAX, rn_metric = 0\<rparr>]\<rparr>
      else table)"

subsection \<open>The interface\<close>

text \<open>
  \<open>route t d\<close> is the next hop and the metric known for \<open>d\<close>, \<open>addressable\<close> the destinations the
  table has room for, \<open>none\<close> the address that marks an empty entry.
\<close>

locale route_map =
  fixes route :: "'t \<Rightarrow> u8 \<Rightarrow> (u8 \<times> i8) option"
    and set_route :: "'t \<Rightarrow> u8 \<Rightarrow> u8 \<Rightarrow> i8 \<Rightarrow> 't"
    and del_route :: "'t \<Rightarrow> u8 \<Rightarrow> 't"
    and clear :: "'t \<Rightarrow> 't"
    and invar :: "'t \<Rightarrow> bool"
    and addressable :: "u8 \<Rightarrow> bool"
    and none :: u8
  assumes route_set: "invar t \<Longrightarrow> addressable d \<Longrightarrow> n \<noteq> none \<Longrightarrow>
      route (set_route t d n m) = (route t)(d \<mapsto> (n, m))"
    and route_set_none: "invar t \<Longrightarrow> route (set_route t d none m) = (route t)(d := None)"
    and set_out: "\<not> addressable d \<Longrightarrow> set_route t d n m = t"
    and route_out: "\<not> addressable d \<Longrightarrow> route t d = None"
    and route_del: "invar t \<Longrightarrow> route (del_route t d) = (route t)(d := None)"
    and route_clear: "invar t \<Longrightarrow> route (clear t) = Map.empty"
    and invar_set: "invar t \<Longrightarrow> invar (set_route t d n m)"
    and invar_del: "invar t \<Longrightarrow> invar (del_route t d)"
    and invar_clear: "invar t \<Longrightarrow> invar (clear t)"
begin

text \<open>Distance-vector relaxation: an unknown destination is learnt, a known one only improves.\<close>

definition relax :: "'t \<Rightarrow> u8 \<Rightarrow> u8 \<Rightarrow> i8 \<Rightarrow> 't" where
  "relax t d n m = (case route t d of
      None \<Rightarrow> set_route t d n m
    | Some (_, old) \<Rightarrow> if sint m < sint old then set_route t d n m else t)"

lemma relax_invar: "invar t \<Longrightarrow> invar (relax t d n m)"
  by (simp add: relax_def invar_set split: option.split)

lemma relax_known:
  assumes "invar t" "addressable d" "n \<noteq> none"
  shows "\<exists>h k. route (relax t d n m) d = Some (h, k) \<and> sint k \<le> sint m"
  using assms by (cases "route t d") (auto simp: relax_def route_set split: prod.split)

lemma relax_monotone:
  assumes "invar t" "n \<noteq> none" "route t e = Some (h, k)"
  shows "\<exists>h' k'. route (relax t d n m) e = Some (h', k') \<and> sint k' \<le> sint k"
  using assms
  by (cases "addressable d"; cases "route t d") (auto simp: relax_def route_set set_out split: prod.split)

lemma relax_other: "invar t \<Longrightarrow> n \<noteq> none \<Longrightarrow> e \<noteq> d \<Longrightarrow> route (relax t d n m) e = route t e"
  by (cases "addressable d"; cases "route t d") (auto simp: relax_def route_set set_out split: prod.split)

lemma relax_origin:
  "invar t \<Longrightarrow> n \<noteq> none \<Longrightarrow> route (relax t d n m) d \<in> {route t d, Some (n, m)}"
  by (cases "addressable d"; cases "route t d") (auto simp: relax_def route_set set_out split: prod.split)

end

subsection \<open>The table provides it\<close>

definition routing_ok :: "routing_table \<Rightarrow> bool" where
  "routing_ok table \<longleftrightarrow> length (rt_nodes table) = NODE_COUNT"

definition routing_map :: "routing_table \<Rightarrow> u8 \<Rightarrow> (u8 \<times> i8) option" where
  "routing_map table dest_addr =
     (if routing_next_addr table dest_addr = UINT8_MAX then None
      else Some (rn_addr (routing_get table dest_addr), rn_metric (routing_get table dest_addr)))"

lemma routing_next_addr_map:
  "routing_next_addr table d = (case routing_map table d of None \<Rightarrow> UINT8_MAX | Some (n, _) \<Rightarrow> n)"
  by (auto simp: routing_map_def routing_next_addr_def routing_get_def)

lemma foldl_update_const:
  "n \<le> length xs \<Longrightarrow> foldl (\<lambda>ns i. ns[i := y]) xs [0..<n] = replicate n y @ drop n xs"
proof (induction n)
  case (Suc n)
  then have "drop n xs = xs ! n # drop (Suc n) xs"
    by (simp add: Cons_nth_drop_Suc)
  with Suc show ?case
    by (simp add: list_update_append replicate_append_same)
qed simp

lemma routing_table_fill_default_eq:
  "routing_ok t \<Longrightarrow> routing_table_fill_default t = \<lparr>rt_nodes = replicate NODE_COUNT empty_node, rt_len = 0\<rparr>"
  by (simp add: routing_table_fill_default_def foldl_update_const routing_ok_def)

interpretation routes: route_map routing_map routing_set_addr routing_del routing_table_fill_default
  routing_ok "\<lambda>d. unat d < NODE_COUNT" UINT8_MAX
proof unfold_locales
  show "routing_map (routing_table_fill_default t) = Map.empty" if "routing_ok t" for t
    using that by (auto simp: routing_table_fill_default_eq routing_map_def routing_next_addr_def
        empty_node_def)
  show "routing_ok (routing_table_fill_default t)" if "routing_ok t" for t
    using that by (simp add: routing_table_fill_default_eq) (simp add: routing_ok_def)
qed (auto simp: routing_map_def routing_set_addr_def routing_del_def routing_next_addr_def
      routing_get_def routing_ok_def fun_eq_iff nth_list_update word_unat_eq_iff)

end
