(* ===== verification/Node_Handler.thy ===== *)
theory Node_Handler
  imports Node_Essentials Node_App Messages Routing
begin

text \<open>
  The request handlers of a node: \<^verbatim>\<open>node/src/node_handler.c\<close> on the state of a node process
  (\<^verbatim>\<open>node_server_t\<close> and the static variables of the files it is linked from).  A handler takes
  the payload object by value and returns its result and the node afterwards; what it writes
  into the payload is dead after the call, since the listener frees it.  Log output is left out.
  The second half states what each handler does for well-formed payloads.
\<close>

record node =
  nd_addr :: u8
  nd_routing :: routing_table
  nd_apps :: "app list"
  nd_messages :: message_store
  nd_neighbors :: neighbors
  nd_net :: net

subsection \<open>Helpers\<close>

definition is_valid_crc :: "node_packet \<Rightarrow> bool option" where
  "is_valid_crc packet = do { crc \<leftarrow> packet_crc packet; Some (crc = np_crc packet) }"

definition notify_node :: "os \<Rightarrow> notify_type \<Rightarrow> u16 \<Rightarrow> node \<Rightarrow> (bool \<times> node) option" where
  "notify_node os ty mid nd = do {
     (ok, n) \<leftarrow> node_essentials_notify_server os \<lparr>nt_type = notify_code ty, nt_app_msg_id = mid\<rparr> (nd_net nd);
     Some (ok, nd\<lparr>nd_net := n\<rparr>) }"

definition send_node :: "os \<Rightarrow> u16 \<Rightarrow> u8 list \<Rightarrow> u8 \<Rightarrow> node \<Rightarrow> (bool \<times> node) option" where
  "send_node os port b buf_len nd = do {
     (ok, n) \<leftarrow> node_essentials_get_conn_and_send os port b buf_len (nd_net nd);
     Some (ok, nd\<lparr>nd_net := n\<rparr>) }"

text \<open>A fresh array of \<open>cap\<close> bytes and a length variable, and \<^verbatim>\<open>format_create\<close> into them.\<close>

definition create_local :: "os \<Rightarrow> nat \<Rightarrow> request \<Rightarrow> payload \<Rightarrow> (u8 list \<times> u8 \<times> bool) option" where
  "create_local os cap req pl =
     format_create req pl (os_getpid os) (uninit (os_junk os) cap, os_junk os 0) REQUEST_SENDER_NODE"

subsection \<open>Requests of the server\<close>

definition handle_ping :: "os \<Rightarrow> int \<Rightarrow> node \<Rightarrow> (bool \<times> node) option" where
  "handle_ping os fd nd = do {
     (ok, tr) \<leftarrow> io_write_all os fd [request_result_code REQUEST_OK] 1 (net_trace (nd_net nd));
     Some (ok, nd\<lparr>nd_net := (nd_net nd)\<lparr>net_trace := tr\<rparr>\<rparr>) }"

definition handle_server_send :: "os \<Rightarrow> request \<Rightarrow> node_packet \<Rightarrow> node \<Rightarrow> (bool \<times> node) option" where
  "handle_server_send os cmd_type packet nd = (let mid = ap_id (np_app packet) in do {
     valid \<leftarrow> is_valid_crc packet;
     (if \<not> valid then Some (False, nd) else do {
        app \<leftarrow> node_app_setup_delivery os (np_app packet);
        let packet = packet\<lparr>np_app := app\<rparr>;
        (if np_receiver_addr packet = nd_addr nd then do {
           (handled, _) \<leftarrow> node_app_handle_request os (nd_apps nd) (np_app packet);
           (_, nd) \<leftarrow> notify_node os (if handled then NOTIFY_GOT_MESSAGE else NOTIFY_FAIL) mid nd;
           Some (True, nd) }
         else let next_addr = routing_next_addr (nd_routing nd) (np_receiver_addr packet) in
           if next_addr = UINT8_MAX then do {
             (_, n) \<leftarrow> node_essentials_broadcast_route os (nd_neighbors nd)
                (packet\<lparr>np_local_sender_addr := nd_addr nd, np_time_to_live := word_of_int TTL\<rparr>) False (nd_net nd);
             Some (False, nd\<lparr>nd_net := n\<rparr>) }
           else do {
             crc \<leftarrow> packet_crc packet;
             (b, buf_len, _) \<leftarrow> create_local os MAX_MSG_LEN cmd_type (Packet (packet\<lparr>np_crc := crc\<rparr>));
             (_, nd) \<leftarrow> send_node os (node_port next_addr) b buf_len nd;
             Some (True, nd) }) }) })"

definition handle_broadcast :: "os \<Rightarrow> node_packet \<Rightarrow> node \<Rightarrow> node option" where
  "handle_broadcast os broadcast_payload nd = do {
     app \<leftarrow> node_app_setup_delivery os (np_app broadcast_payload);
     (_, n) \<leftarrow> node_essentials_broadcast os (nd_neighbors nd) (broadcast_payload\<lparr>np_app := app\<rparr>) (nd_net nd);
     Some (nd\<lparr>nd_net := n\<rparr>) }"

definition handle_server_unicast :: "os \<Rightarrow> node_packet \<Rightarrow> node \<Rightarrow> node option" where
  "handle_server_unicast os unicast_payload nd = do {
     app \<leftarrow> node_app_setup_delivery os (np_app unicast_payload);
     n \<leftarrow> node_essentials_send_unicast_contest os (nd_neighbors nd)
        \<lparr>uc_req = request_code REQUEST_UNICAST_CONTEST, uc_node_addr = nd_addr nd, uc_app = app\<rparr> (nd_net nd);
     Some (nd\<lparr>nd_net := n\<rparr>) }"

definition handle_reset :: "node \<Rightarrow> node" where
  "handle_reset nd = nd\<lparr>nd_routing := routing_table_fill_default (nd_routing nd),
     nd_net := node_essentials_reset_connections (nd_net nd),
     nd_apps := node_app_fill_default (nd_apps nd) (nd_addr nd),
     nd_messages := fill_messages_default (nd_messages nd)\<rparr>"

subsection \<open>Requests of other nodes\<close>

definition node_handle_app_request :: "os \<Rightarrow> node_packet \<Rightarrow> node \<Rightarrow> (bool \<times> node) option" where
  "node_handle_app_request os send_payload nd = (let mid = ap_id (np_app send_payload) in do {
     nd \<leftarrow> (if ap_req_type (np_app send_payload) = app_request_code APP_REQUEST_UNICAST
           then do { (_, nd) \<leftarrow> notify_node os NOTIFY_GOT_MESSAGE mid nd; Some nd }
           else Some nd);
     (handled, _) \<leftarrow> node_app_handle_request os (nd_apps nd) (np_app send_payload);
     (if handled then do {
        (notified, nd) \<leftarrow> notify_node os NOTIFY_GOT_MESSAGE mid nd;
        Some (notified, nd) }
      else do {
        (_, nd) \<leftarrow> notify_node os NOTIFY_FAIL mid nd;
        Some (False, nd) }) })"

definition send_next :: "os \<Rightarrow> node_packet \<Rightarrow> node \<Rightarrow> (bool \<times> node) option" where
  "send_next os ret_payload nd =
     (let next_addr = routing_next_addr (nd_routing nd) (np_receiver_addr ret_payload) in
      if next_addr = UINT8_MAX then do {
        (_, n) \<leftarrow> node_essentials_broadcast_route os (nd_neighbors nd)
           (ret_payload\<lparr>np_local_sender_addr := nd_addr nd, np_time_to_live := word_of_int TTL\<rparr>) False (nd_net nd);
        Some (False, nd\<lparr>nd_net := n\<rparr>) }
      else do {
        (b, buf_len, _) \<leftarrow> create_local os MAX_MSG_LEN REQUEST_SEND (Packet ret_payload);
        (_, nd) \<leftarrow> send_node os (node_port next_addr) b buf_len nd;
        Some (True, nd) })"

definition handle_node_send :: "os \<Rightarrow> node_packet \<Rightarrow> node \<Rightarrow> (bool \<times> node) option" where
  "handle_node_send os packet nd = do {
     valid \<leftarrow> is_valid_crc packet;
     (if \<not> valid then Some (False, nd)
      else if np_receiver_addr packet = nd_addr nd then node_handle_app_request os packet nd
      else send_next os packet nd) }"

text \<open>The distance a packet has travelled, as \<^verbatim>\<open>int8_t\<close>, and what a node learns from it.\<close>

definition packet_metric :: "node_packet \<Rightarrow> i8" where
  "packet_metric p = word_of_int (TTL - sint (np_time_to_live p) + 1)"

definition learn_direct :: "node_packet \<Rightarrow> routing_table \<Rightarrow> routing_table" where
  "learn_direct p routing = (let new_metric = packet_metric p in
     if sint new_metric > 0 then
       (if routing_next_addr routing (np_sender_addr p) = UINT8_MAX
        then routing_set_addr routing (np_sender_addr p) (np_local_sender_addr p) new_metric
        else let old_metric = rn_metric (routing_get routing (np_sender_addr p)) in
          if sint old_metric > sint new_metric
          then routing_set_addr routing (np_sender_addr p) (np_local_sender_addr p) new_metric
          else routing)
     else routing)"

definition learn_inverse :: "node_packet \<Rightarrow> routing_table \<Rightarrow> routing_table" where
  "learn_inverse p routing = (let new_metric = packet_metric p in
     if sint new_metric > 0 then
       (if routing_next_addr routing (np_receiver_addr p) = UINT8_MAX
        then routing_set_addr routing (np_receiver_addr p) (np_local_sender_addr p) new_metric
        else routing)
     else routing)"

definition route_direct_handle_delivered :: "os \<Rightarrow> node_packet \<Rightarrow> node \<Rightarrow> (bool \<times> node) option" where
  "route_direct_handle_delivered os p nd = (let mid = ap_id (np_app p) in do {
     valid \<leftarrow> is_valid_crc p;
     (if \<not> valid then Some (False, nd)
      else case get_inverse_by_id (nd_messages nd) mid of (stop_inverse, ms) \<Rightarrow>
        if stop_inverse = Some True then Some (True, nd\<lparr>nd_messages := ms\<rparr>)
        else
          let nd = nd\<lparr>nd_messages := set_inverse_by_id ms mid True\<rparr>;
              p = p\<lparr>np_time_to_live := word_of_int TTL, np_local_sender_addr := nd_addr nd\<rparr> in do {
            crc \<leftarrow> packet_crc p;
            let p = p\<lparr>np_crc := crc\<rparr>;
            (b, buf_len, _) \<leftarrow> create_local os MAX_MSG_LEN REQUEST_ROUTE_INVERSE (Packet p);
            let next_addr_to_back = routing_next_addr (nd_routing nd) (np_sender_addr p);
            (if next_addr_to_back = UINT8_MAX then Some (False, nd)
             else do {
               (sent_back, nd) \<leftarrow> send_node os (node_port next_addr_to_back) b buf_len nd;
               (if \<not> sent_back
                then Some (False, nd\<lparr>nd_routing := routing_del (nd_routing nd) (np_sender_addr p)\<rparr>)
                else do {
                  (handled, _) \<leftarrow> node_app_handle_request os (nd_apps nd) (np_app p);
                  (_, nd) \<leftarrow> notify_node os (if handled then NOTIFY_GOT_MESSAGE else NOTIFY_FAIL) mid nd;
                  Some (True, nd) }) }) }) })"

definition handle_node_route_direct :: "os \<Rightarrow> node_packet \<Rightarrow> node \<Rightarrow> (bool \<times> node) option" where
  "handle_node_route_direct os p nd = (let mid = ap_id (np_app p) in
     if sint (np_time_to_live p) \<le> 0 then Some (True, nd)
     else do {
       valid \<leftarrow> is_valid_crc p;
       (if \<not> valid then Some (False, nd)
        else case get_was_message_by_id (nd_messages nd) mid of (was_message, ms) \<Rightarrow>
          if was_message = Some True then Some (False, nd\<lparr>nd_messages := ms\<rparr>)
          else
            let nd = nd\<lparr>nd_messages := set_was_message_by_id ms mid True\<rparr>;
                nd = nd\<lparr>nd_routing := learn_direct p (nd_routing nd)\<rparr> in
            if np_receiver_addr p = nd_addr nd then do {
              (_, nd) \<leftarrow> route_direct_handle_delivered os p nd;
              Some (True, nd) }
            else do {
              (_, n) \<leftarrow> node_essentials_broadcast_route os (nd_neighbors nd)
                 (p\<lparr>np_local_sender_addr := nd_addr nd\<rparr>) False (nd_net nd);
              Some (True, nd\<lparr>nd_net := n\<rparr>) }) })"

text \<open>
  The local array of \<^verbatim>\<open>handle_node_route_inverse\<close> has the size of the packet object, not that of
  the message, which is three bytes longer.
\<close>

definition handle_node_route_inverse :: "os \<Rightarrow> node_packet \<Rightarrow> node \<Rightarrow> (bool \<times> node) option" where
  "handle_node_route_inverse os p nd = do {
     valid \<leftarrow> is_valid_crc p;
     (if \<not> valid then Some (False, nd)
      else
        let nd = nd\<lparr>nd_routing := learn_inverse p (nd_routing nd)\<rparr> in
        if np_sender_addr p = nd_addr nd then Some (True, nd)
        else
          let next_addr = routing_next_addr (nd_routing nd) (np_sender_addr p) in
          if next_addr = UINT8_MAX then Some (False, nd)
          else
            let p = p\<lparr>np_local_sender_addr := nd_addr nd, np_time_to_live := np_time_to_live p - 1\<rparr> in do {
              crc \<leftarrow> packet_crc p;
              let p = p\<lparr>np_crc := crc\<rparr>;
              (b, buf_len, _) \<leftarrow> create_local os sizeof_node_packet REQUEST_ROUTE_INVERSE (Packet p);
              (ok, nd) \<leftarrow> send_node os (node_port next_addr) b buf_len nd;
              (if \<not> ok
               then Some (False, nd\<lparr>nd_routing := routing_del (nd_routing nd) (np_sender_addr p)\<rparr>)
               else Some (True, nd)) }) }"

definition handle_unicast_contest :: "os \<Rightarrow> unicast_contest \<Rightarrow> node \<Rightarrow> node option" where
  "handle_unicast_contest os unicast nd = do {
     (_, n) \<leftarrow> node_essentials_send_unicast_first os unicast (nd_addr nd) (nd_net nd);
     Some (nd\<lparr>nd_net := n\<rparr>) }"

definition handle_unicast_first :: "os \<Rightarrow> unicast_contest \<Rightarrow> node \<Rightarrow> node option" where
  "handle_unicast_first os unicast nd = (let mid = ap_id (uc_app unicast) in
     case get_unicast_status_by_id (nd_messages nd) mid of
       (Some unicast_first, ms) \<Rightarrow>
         (if \<not> unicast_first
          then Some (nd\<lparr>nd_messages := set_unicast_status_by_id ms mid True\<rparr>)
          else Some (nd\<lparr>nd_messages := ms\<rparr>))
     | (None, ms) \<Rightarrow>
         let nd = nd\<lparr>nd_messages := set_unicast_status_by_id ms mid True\<rparr>;
             send_payload = \<lparr>np_sender_addr = nd_addr nd, np_receiver_addr = uc_node_addr unicast,
               np_local_sender_addr = 0, np_time_to_live = 0, np_app = uc_app unicast, np_crc = 0\<rparr> in do {
           crc \<leftarrow> packet_crc send_payload;
           (b, buf_len, _) \<leftarrow> create_local os MAX_MSG_LEN REQUEST_SEND (Packet (send_payload\<lparr>np_crc := crc\<rparr>));
           (_, nd) \<leftarrow> send_node os (node_port (uc_node_addr unicast)) b buf_len nd;
           Some nd })"

end
