(* ===== verification/Node_Spec.thy ===== *)
theory Node_Spec
  imports Node_Handler
begin

text \<open>
  What the handlers of \<open>Node_Handler\<close> do with well-formed payloads, as total functions over the
  interfaces of the tables: the route map (\<open>routes\<close>), the once-only flags (\<open>was_message\<close>,
  \<open>inverse\<close>, \<open>unicast_first\<close>) and \<open>send_message\<close>.  Each \<open>handle_*_eq\<close> lemma is a functional refinement:
  the handler, with its buffers and table loops, is that function and nothing in it is undefined.
  The end of the file shows that every handler keeps the node's invariant \<open>node_ok\<close>.
\<close>

subsection \<open>Sending, in total form\<close>

text \<open>
  For well-formed payloads nothing in a handler is undefined.  \<open>transmit\<close> sends one message to a
  port, \<open>relay\<close> floods a packet to the neighbours with one hop less to live and a fresh
  checksum, \<open>report\<close> notifies the server.
\<close>

definition transmit :: "os \<Rightarrow> u16 \<Rightarrow> request \<Rightarrow> payload \<Rightarrow> node \<Rightarrow> bool \<times> node" where
  "transmit os port req pl nd = (case send_message os port (os_transmitted os req pl) (nd_net nd) of
     (ok, n) \<Rightarrow> (ok, nd\<lparr>nd_net := n\<rparr>))"

definition one_hop_less :: "node_packet \<Rightarrow> node_packet" where
  "one_hop_less p = seal (p\<lparr>np_time_to_live := np_time_to_live p - 1\<rparr>)"

definition relay :: "os \<Rightarrow> node_packet \<Rightarrow> node \<Rightarrow> node" where
  "relay os p nd = nd\<lparr>nd_net := flood os (neighbor_ports (nd_neighbors nd))
     (os_transmitted os REQUEST_ROUTE_DIRECT (Packet (one_hop_less p))) (nd_net nd)\<rparr>"

definition report :: "os \<Rightarrow> notify_type \<Rightarrow> u16 \<Rightarrow> node \<Rightarrow> bool \<times> node" where
  "report os ty mid nd = transmit os SERVER_PORT REQUEST_NOTIFY
     (Notify \<lparr>nt_type = notify_code ty, nt_app_msg_id = mid\<rparr>) nd"

definition created :: "os \<Rightarrow> nat \<Rightarrow> request \<Rightarrow> payload \<Rightarrow> u8 list" where
  "created os cap req pl = (let m = wire_message req pl (os_getpid os) REQUEST_SENDER_NODE in
     m @ map (os_junk os) [length m..<cap])"

named_theorems handler_eqs

lemma packet_ok_update [simp]:
  "packet_ok (p\<lparr>np_local_sender_addr := a\<rparr>) = packet_ok p"
  "packet_ok (p\<lparr>np_receiver_addr := a\<rparr>) = packet_ok p"
  "packet_ok (p\<lparr>np_time_to_live := t\<rparr>) = packet_ok p"
  "packet_ok (p\<lparr>np_app := app\<rparr>) = app_ok app"
  by (simp_all add: packet_ok_def)

lemma payload_ok_one_hop_less [simp]: "packet_ok (one_hop_less p) = packet_ok p"
  by (simp add: one_hop_less_def)

lemma is_valid_crc_eq [handler_eqs]: "packet_ok p \<Longrightarrow> is_valid_crc p = Some (valid_crc p)"
  using packet_crc_Some [of p] by (auto simp: is_valid_crc_def valid_crc_def)

lemma notify_node_eq [handler_eqs]: "notify_node os ty mid nd = Some (report os ty mid nd)"
  by (simp add: notify_node_def notify_server_eq report_def transmit_def split: prod.split)

lemma broadcast_eq [handler_eqs]:
  "packet_ok p \<Longrightarrow> node_essentials_broadcast_route os nb p False n = Some (one_hop_less p,
     flood os (neighbor_ports nb) (os_transmitted os REQUEST_ROUTE_DIRECT (Packet (one_hop_less p))) n)"
  by (simp add: broadcast_route_eq one_hop_less_def)

lemma create_local_eq:
  assumes "fits req pl" and "payload_ok pl" and "wire_len pl \<le> cap"
  shows "create_local os cap req pl = Some (created os cap req pl, of_nat (wire_len pl), False)"
  using assms length_wire_message(1) [OF assms(2), of req "os_getpid os" REQUEST_SENDER_NODE]
  by (simp add: create_local_def format_create_uninit created_def Let_def)

lemma send_created_eq:
  assumes "payload_ok pl" and "wire_len pl \<le> cap"
  shows "send_node os port (created os cap req pl) (of_nat (wire_len pl)) nd = Some (transmit os port req pl nd)"
  using created_send_eq [OF assms, of os port req "nd_net nd"]
  by (simp add: send_node_def created_def transmit_def Let_def split: prod.split)

lemma packet_fits [simp]:
  "fits REQUEST_SEND (Packet p)" "fits REQUEST_ROUTE_INVERSE (Packet p)" "fits REQUEST_ROUTE_DIRECT (Packet p)"
  "fits REQUEST_UNICAST_CONTEST (Unicast u)" "fits REQUEST_UNICAST_FIRST (Unicast u)"
  by (simp_all add: fits_def is_route_request_def is_unicast_request_def)

lemma packet_buffer:
  "packet_ok p \<Longrightarrow> wire_len (Packet p) \<le> MAX_MSG_LEN"
  using wire_len_packet [of p] by (simp add: settings)

lemma create_packet_eq [handler_eqs]:
  "packet_ok p \<Longrightarrow> create_local os MAX_MSG_LEN REQUEST_SEND (Packet p)
     = Some (created os MAX_MSG_LEN REQUEST_SEND (Packet p), of_nat (wire_len (Packet p)), False)"
  "packet_ok p \<Longrightarrow> create_local os MAX_MSG_LEN REQUEST_ROUTE_INVERSE (Packet p)
     = Some (created os MAX_MSG_LEN REQUEST_ROUTE_INVERSE (Packet p), of_nat (wire_len (Packet p)), False)"
  by (simp_all only: create_local_eq packet_fits payload_ok.simps packet_buffer)

lemma send_packet_eq [handler_eqs]:
  "packet_ok p \<Longrightarrow> send_node os port (created os MAX_MSG_LEN req (Packet p)) (of_nat (wire_len (Packet p))) nd
     = Some (transmit os port req (Packet p) nd)"
  by (simp only: send_created_eq packet_buffer payload_ok.simps)

lemma packet_crc_eq [handler_eqs]: "packet_ok p \<Longrightarrow> packet_crc p = Some (np_crc (seal p))"
  using packet_crc_Some [of p] by (auto simp: seal_def)

lemma update_seal [handler_eqs]: "packet_ok p \<Longrightarrow> p\<lparr>np_crc := np_crc (seal p)\<rparr> = seal p"
  using packet_crc_Some [of p] by (auto simp: seal_def)

subsection \<open>Applications\<close>

definition delivery :: "os \<Rightarrow> app_payload \<Rightarrow> app_payload" where
  "delivery os a = the (node_app_setup_delivery os a)"

definition app_handles :: "os \<Rightarrow> app list \<Rightarrow> app_payload \<Rightarrow> bool" where
  "app_handles os apps a = fst (the (node_app_handle_request os apps a))"

lemma setup_delivery_eq [handler_eqs]: "app_ok a \<Longrightarrow> node_app_setup_delivery os a = Some (delivery os a)"
  using setup_delivery_ok [of a os] by (auto simp: delivery_def)

lemma delivery_fields [simp]:
  "app_ok a \<Longrightarrow> app_ok (delivery os a)" "app_ok a \<Longrightarrow> ap_id (delivery os a) = ap_id a"
  "app_ok a \<Longrightarrow> ap_req_type (delivery os a) = ap_req_type a"
  using setup_delivery_ok [of a os] by (auto simp: delivery_def)

lemma app_handle_request_eq [handler_eqs]:
  "app_ok a \<Longrightarrow> Option.bind (node_app_handle_request os apps a) (\<lambda>(h, x). f h) = f (app_handles os apps a)"
  using app_handle_request_ok [of a os apps] by (auto simp: app_handles_def)

declare wire_len.simps [simp del]

subsection \<open>What the handlers do\<close>

definition deliver_local :: "os \<Rightarrow> node_packet \<Rightarrow> node \<Rightarrow> bool \<times> node" where
  "deliver_local os p nd = (let a = np_app p;
     nd = (if ap_req_type a = app_request_code APP_REQUEST_UNICAST
           then snd (report os NOTIFY_GOT_MESSAGE (ap_id a) nd) else nd) in
     if app_handles os (nd_apps nd) a then report os NOTIFY_GOT_MESSAGE (ap_id a) nd
     else (False, snd (report os NOTIFY_FAIL (ap_id a) nd)))"

text \<open>Forwarding along the route, or a new search for one.\<close>

definition forward :: "os \<Rightarrow> node_packet \<Rightarrow> node \<Rightarrow> bool \<times> node" where
  "forward os p nd = (case routing_map (nd_routing nd) (np_receiver_addr p) of
      None \<Rightarrow> (False, relay os (p\<lparr>np_local_sender_addr := nd_addr nd, np_time_to_live := word_of_int TTL\<rparr>) nd)
    | Some (hop, _) \<Rightarrow> (True, snd (transmit os (node_port hop) REQUEST_SEND (Packet p) nd)))"

definition server_send :: "os \<Rightarrow> node_packet \<Rightarrow> node \<Rightarrow> bool \<times> node" where
  "server_send os p nd = (let mid = ap_id (np_app p); p = p\<lparr>np_app := delivery os (np_app p)\<rparr> in
     if np_receiver_addr p = nd_addr nd
     then (True, snd (report os (if app_handles os (nd_apps nd) (np_app p) then NOTIFY_GOT_MESSAGE else NOTIFY_FAIL) mid nd))
     else case routing_map (nd_routing nd) (np_receiver_addr p) of
        None \<Rightarrow> (False, relay os (p\<lparr>np_local_sender_addr := nd_addr nd, np_time_to_live := word_of_int TTL\<rparr>) nd)
      | Some (hop, _) \<Rightarrow> (True, snd (transmit os (node_port hop) REQUEST_SEND (Packet (seal p)) nd)))"

text \<open>The answer of a packet's receiver: the packet itself, turned round.\<close>

definition answer :: "u8 \<Rightarrow> node_packet \<Rightarrow> node_packet" where
  "answer addr p = seal (p\<lparr>np_time_to_live := word_of_int TTL, np_local_sender_addr := addr\<rparr>)"

definition delivered :: "os \<Rightarrow> node_packet \<Rightarrow> node \<Rightarrow> bool \<times> node" where
  "delivered os p nd = (let mid = ap_id (np_app p) in
     case inverse.once (nd_messages nd) mid of (first, ms) \<Rightarrow>
       let nd = nd\<lparr>nd_messages := ms\<rparr> in
       if \<not> first then (True, nd)
       else case routing_map (nd_routing nd) (np_sender_addr p) of
           None \<Rightarrow> (False, nd)
         | Some (hop, _) \<Rightarrow>
             (case transmit os (node_port hop) REQUEST_ROUTE_INVERSE (Packet (answer (nd_addr nd) p)) nd of
                (sent_back, nd) \<Rightarrow>
                  if \<not> sent_back then (False, nd\<lparr>nd_routing := routing_del (nd_routing nd) (np_sender_addr p)\<rparr>)
                  else (True, snd (report os (if app_handles os (nd_apps nd) (np_app p)
                         then NOTIFY_GOT_MESSAGE else NOTIFY_FAIL) mid nd))))"

definition route_direct :: "os \<Rightarrow> node_packet \<Rightarrow> node \<Rightarrow> bool \<times> node" where
  "route_direct os p nd =
     (if sint (np_time_to_live p) \<le> 0 then (True, nd)
      else if \<not> valid_crc p then (False, nd)
      else case was_message.once (nd_messages nd) (ap_id (np_app p)) of (first, ms) \<Rightarrow>
        if \<not> first then (False, nd\<lparr>nd_messages := ms\<rparr>)
        else let nd = nd\<lparr>nd_messages := ms, nd_routing :=
                 (if sint (packet_metric p) > 0
                  then routes.relax (nd_routing nd) (np_sender_addr p) (np_local_sender_addr p) (packet_metric p)
                  else nd_routing nd)\<rparr> in
          if np_receiver_addr p = nd_addr nd then (True, snd (delivered os p nd))
          else (True, relay os (p\<lparr>np_local_sender_addr := nd_addr nd\<rparr>) nd))"

text \<open>The packet that travels back, one hop further.\<close>

definition hop_back :: "u8 \<Rightarrow> node_packet \<Rightarrow> node_packet" where
  "hop_back addr p = one_hop_less (p\<lparr>np_local_sender_addr := addr\<rparr>)"

definition route_inverse :: "os \<Rightarrow> node_packet \<Rightarrow> node \<Rightarrow> bool \<times> node" where
  "route_inverse os p nd =
     (if \<not> valid_crc p then (False, nd)
      else let nd = nd\<lparr>nd_routing := learn_inverse p (nd_routing nd)\<rparr> in
        if np_sender_addr p = nd_addr nd then (True, nd)
        else case routing_map (nd_routing nd) (np_sender_addr p) of
            None \<Rightarrow> (False, nd)
          | Some (hop, _) \<Rightarrow>
              (case transmit os (node_port hop) REQUEST_ROUTE_INVERSE (Packet (hop_back (nd_addr nd) p)) nd of
                 (ok, nd) \<Rightarrow> if \<not> ok then (False, nd\<lparr>nd_routing := routing_del (nd_routing nd) (np_sender_addr p)\<rparr>)
                   else (True, nd)))"

lemma routing_next_addr_cases [handler_eqs]:
  "routing_map t d = None \<Longrightarrow> routing_next_addr t d = UINT8_MAX"
  "routing_map t d = Some (h, k) \<Longrightarrow> routing_next_addr t d = h"
  "routing_map t d = Some (h, k) \<Longrightarrow> h \<noteq> UINT8_MAX"
  by (auto simp: routing_map_def routing_next_addr_def routing_get_def split: if_splits)

lemma learn_direct_relax: "learn_direct p t = (if sint (packet_metric p) > 0
   then routes.relax t (np_sender_addr p) (np_local_sender_addr p) (packet_metric p) else t)"
  by (auto simp: learn_direct_def routes.relax_def routing_map_def Let_def)

lemma handle_node_send_eq:
  assumes "packet_ok p"
  shows "handle_node_send os p nd = Some (if \<not> valid_crc p then (False, nd)
     else if np_receiver_addr p = nd_addr nd then deliver_local os p nd else forward os p nd)"
proof -
  have ok: "app_ok (np_app p)" using assms by (simp add: packet_ok_def)
  have "node_handle_app_request os p nd = Some (deliver_local os p nd)"
    using ok by (simp add: node_handle_app_request_def deliver_local_def handler_eqs case_prod_beta Let_def)
  moreover have "send_next os p nd = Some (forward os p nd)"
    using assms by (cases "routing_map (nd_routing nd) (np_receiver_addr p)")
      (auto simp: send_next_def forward_def handler_eqs Let_def relay_def case_prod_beta)
  ultimately show ?thesis
    by (simp add: handle_node_send_def is_valid_crc_eq [OF assms])
qed

lemma handle_server_send_eq:
  assumes "packet_ok p"
  shows "handle_server_send os REQUEST_SEND p nd = Some (if \<not> valid_crc p then (False, nd) else server_send os p nd)"
proof -
  have ok: "app_ok (np_app p)" using assms by (simp add: packet_ok_def)
  show ?thesis
    using assms ok by (cases "routing_map (nd_routing nd) (np_receiver_addr p)")
      (auto simp: handle_server_send_def server_send_def handler_eqs Let_def relay_def case_prod_beta)
qed


lemma transmit_same [simp]: "nd_messages (snd (transmit os port req pl nd)) = nd_messages nd"
  "nd_routing (snd (transmit os port req pl nd)) = nd_routing nd"
  "nd_apps (snd (transmit os port req pl nd)) = nd_apps nd"
  "nd_neighbors (snd (transmit os port req pl nd)) = nd_neighbors nd"
  "nd_addr (snd (transmit os port req pl nd)) = nd_addr nd"
  by (simp_all add: transmit_def split: prod.split)

lemma route_direct_handle_delivered_eq:
  assumes "packet_ok p"
  shows "route_direct_handle_delivered os p nd = Some (if \<not> valid_crc p then (False, nd) else delivered os p nd)"
proof -
  have ok: "app_ok (np_app p)" using assms by (simp add: packet_ok_def)
  obtain stop ms where get: "get_inverse_by_id (nd_messages nd) (ap_id (np_app p)) = (stop, ms)"
    by fastforce
  consider "\<not> valid_crc p" | "valid_crc p" "stop = Some True" | "valid_crc p" "stop \<noteq> Some True"
    by blast
  then show ?thesis
  proof cases
    case 3
    then have "inverse.once (nd_messages nd) (ap_id (np_app p))
        = (True, set_inverse_by_id ms (ap_id (np_app p)) True)"
      by (auto simp: inverse.once_def get split: option.split bool.split)
    with 3 show ?thesis
      using assms ok by (cases "routing_map (nd_routing nd) (np_sender_addr p)")
        (auto simp: route_direct_handle_delivered_def delivered_def answer_def get handler_eqs Let_def case_prod_beta)
  qed (use assms in \<open>simp_all add: route_direct_handle_delivered_def delivered_def is_valid_crc_eq
      inverse.once_def get Let_def\<close>)
qed

lemma handle_node_route_direct_eq:
  assumes "packet_ok p"
  shows "handle_node_route_direct os p nd = Some (route_direct os p nd)"
  using assms by (simp add: handle_node_route_direct_def route_direct_def handler_eqs Let_def learn_direct_relax
      route_direct_handle_delivered_eq was_message.once_def relay_def case_prod_beta split: option.split bool.split)


text \<open>
  The return path formats into an array of 164 bytes: a message of at most 147 bytes fits, a longer
  one is written past the end as soon as the packet has to travel on.
\<close>

lemma wire_len_packet_eq: "packet_ok p \<Longrightarrow> wire_len (Packet p) = unat (ap_message_len (np_app p)) + 17"
  by (simp add: wire_len.simps sizeof_packet_ok)

lemma create_inverse_eq:
  assumes "packet_ok p"
  shows "create_local os sizeof_node_packet REQUEST_ROUTE_INVERSE (Packet p)
     = (if unat (ap_message_len (np_app p)) \<le> 147
        then Some (created os sizeof_node_packet REQUEST_ROUTE_INVERSE (Packet p), of_nat (wire_len (Packet p)), False)
        else None)"
proof -
  have "length (wire_message REQUEST_ROUTE_INVERSE (Packet p) pid s) = unat (ap_message_len (np_app p)) + 17" for pid s
    using assms length_wire_message(3) [of "Packet p"] by (simp add: wire_len_packet_eq)
  then show ?thesis
    using assms by (simp add: create_local_def format_create_uninit created_def Let_def settings)
qed

lemma send_inverse_eq:
  assumes "packet_ok p" and "unat (ap_message_len (np_app p)) \<le> 147"
  shows "send_node os port (created os sizeof_node_packet req (Packet p)) (of_nat (wire_len (Packet p))) nd
     = Some (transmit os port req (Packet p) nd)"
  using assms by (intro send_created_eq) (simp_all add: wire_len_packet_eq settings)

lemma hop_back_fields [simp]: "packet_ok (hop_back a p) = packet_ok p" "np_app (hop_back a p) = np_app p"
  "np_sender_addr (hop_back a p) = np_sender_addr p" "np_receiver_addr (hop_back a p) = np_receiver_addr p"
  "np_local_sender_addr (hop_back a p) = a" "np_time_to_live (hop_back a p) = np_time_to_live p - 1"
  by (simp_all add: hop_back_def one_hop_less_def)

lemma handle_node_route_inverse_eq:
  assumes "packet_ok p"
  shows "handle_node_route_inverse os p nd =
     (if valid_crc p \<and> np_sender_addr p \<noteq> nd_addr nd
         \<and> routing_map (learn_inverse p (nd_routing nd)) (np_sender_addr p) \<noteq> None
         \<and> 147 < unat (ap_message_len (np_app p))
      then None else Some (route_inverse os p nd))"
proof (cases "valid_crc p \<and> np_sender_addr p \<noteq> nd_addr nd")
  case False
  then show ?thesis
    using assms by (auto simp: handle_node_route_inverse_def route_inverse_def is_valid_crc_eq Let_def)
next
  case True
  let ?q = "p\<lparr>np_local_sender_addr := nd_addr nd, np_time_to_live := np_time_to_live p - 1\<rparr>"
  have q: "packet_ok ?q" "seal ?q = hop_back (nd_addr nd) p"
    using assms by (simp_all add: hop_back_def one_hop_less_def)
  note sealed = update_seal [OF q(1), unfolded q(2)]
  show ?thesis
    using assms True by (cases "routing_map (learn_inverse p (nd_routing nd)) (np_sender_addr p)")
      (auto simp: handle_node_route_inverse_def route_inverse_def handler_eqs Let_def q sealed
        create_inverse_eq send_inverse_eq case_prod_beta)
qed

lemma handle_unicast_contest_eq:
  assumes "unicast_ok u"
  shows "handle_unicast_contest os u nd = Some (snd (transmit os (node_port (uc_node_addr u)) REQUEST_UNICAST_FIRST
     (Unicast (u\<lparr>uc_node_addr := nd_addr nd\<rparr>)) nd))"
proof -
  let ?u = "u\<lparr>uc_node_addr := nd_addr nd\<rparr>" and ?cap = "sizeof_unicast_contest + MSG_BASE_LEN"
  have u: "payload_ok (Unicast ?u)" "wire_len (Unicast ?u) \<le> ?cap"
    using assms by (simp_all add: unicast_ok_def wire_len.simps settings)
  show ?thesis
    using create_local_eq [OF _ u, of REQUEST_UNICAST_FIRST os]
      created_send_eq [OF u, of os "node_port (uc_node_addr u)" REQUEST_UNICAST_FIRST "nd_net nd"]
    by (simp add: handle_unicast_contest_def node_essentials_send_unicast_first_def Let_def create_local_def
        created_def transmit_def case_prod_beta)
qed

text \<open>What the winner of a contest is sent.\<close>

definition unicast_packet :: "u8 \<Rightarrow> unicast_contest \<Rightarrow> node_packet" where
  "unicast_packet addr u = seal \<lparr>np_sender_addr = addr, np_receiver_addr = uc_node_addr u,
     np_local_sender_addr = 0, np_time_to_live = 0, np_app = uc_app u, np_crc = 0\<rparr>"

lemma update_seal_explicit:
  assumes "packet_ok \<lparr>np_sender_addr = a, np_receiver_addr = b, np_local_sender_addr = c,
     np_time_to_live = d, np_app = e, np_crc = f\<rparr>" (is "packet_ok ?p")
  shows "\<lparr>np_sender_addr = a, np_receiver_addr = b, np_local_sender_addr = c, np_time_to_live = d,
     np_app = e, np_crc = np_crc (seal ?p)\<rparr> = seal ?p"
  using packet_crc_Some [OF assms] by (auto simp: seal_def)

lemma handle_unicast_first_eq:
  assumes "unicast_ok u"
  shows "handle_unicast_first os u nd = Some (let mid = ap_id (uc_app u) in
     case get_unicast_status_by_id (nd_messages nd) mid of (status, ms) \<Rightarrow>
       let won = nd\<lparr>nd_messages := set_unicast_status_by_id ms mid True\<rparr> in
       if status = Some True then nd\<lparr>nd_messages := ms\<rparr>
       else if status = Some False then won
       else snd (transmit os (node_port (uc_node_addr u)) REQUEST_SEND
              (Packet (unicast_packet (nd_addr nd) u)) won))"
proof -
  let ?p = "\<lparr>np_sender_addr = nd_addr nd, np_receiver_addr = uc_node_addr u,
     np_local_sender_addr = 0, np_time_to_live = 0, np_app = uc_app u, np_crc = 0\<rparr>"
  have ok: "packet_ok ?p" using assms by (simp add: packet_ok_def unicast_ok_def)
  note sealed = update_seal_explicit [OF ok]
  from ok show ?thesis
    by (cases "get_unicast_status_by_id (nd_messages nd) (ap_id (uc_app u))"; cases "fst (get_unicast_status_by_id (nd_messages nd) (ap_id (uc_app u)))")
      (auto simp: handle_unicast_first_def Let_def handler_eqs sealed unicast_packet_def case_prod_beta split: bool.splits)
qed

lemma seal_crc [simp]: "packet_ok p \<Longrightarrow> seal (p\<lparr>np_crc := c\<rparr>) = seal p"
  using packet_crc_Some [of p] by (auto simp: seal_def)

text \<open>A broadcast addresses every neighbour in turn.\<close>

definition addressed :: "node_packet \<Rightarrow> u16 \<Rightarrow> node_packet" where
  "addressed p port = seal (p\<lparr>np_receiver_addr := word_of_int (node_addr port)\<rparr>)"

definition broadcast_all :: "os \<Rightarrow> u16 list \<Rightarrow> node_packet \<Rightarrow> net \<Rightarrow> net" where
  "broadcast_all os ports p n = fold (\<lambda>port n.
     snd (send_message os port (os_transmitted os REQUEST_SEND (Packet (addressed p port))) n)) ports n"


lemma broadcast_to_eq:
  assumes "packet_ok p"
  shows "broadcast_to os port (p, n) = Some (addressed p port,
     snd (send_message os port (os_transmitted os REQUEST_SEND (Packet (addressed p port))) n))"
proof -
  let ?p = "addressed p port"
  have ok: "packet_ok ?p" using assms by (simp add: addressed_def)
  have create: "format_create REQUEST_SEND (Packet ?p) (os_getpid os)
      (uninit (os_junk os) MAX_MSG_LEN, os_junk os 0) REQUEST_SENDER_NODE
    = Some (created os MAX_MSG_LEN REQUEST_SEND (Packet ?p), of_nat (wire_len (Packet ?p)), False)"
    using create_packet_eq(1) [of ?p os] ok by (simp add: create_local_def)
  have send: "node_essentials_get_conn_and_send os port (created os MAX_MSG_LEN REQUEST_SEND (Packet ?p))
      (of_nat (wire_len (Packet ?p))) n
    = Some (send_message os port (os_transmitted os REQUEST_SEND (Packet ?p)) n)"
    using created_send_eq [of "Packet ?p" MAX_MSG_LEN os port REQUEST_SEND n] ok packet_buffer [of ?p]
    by (simp add: created_def Let_def)
  obtain c where c: "packet_crc (p\<lparr>np_receiver_addr := word_of_int (node_addr port)\<rparr>) = Some c"
    "p\<lparr>np_receiver_addr := word_of_int (node_addr port), np_crc := c\<rparr> = ?p"
    using assms packet_crc_Some [of "p\<lparr>np_receiver_addr := word_of_int (node_addr port)\<rparr>"]
    by (auto simp: addressed_def packet_crc_seal)
  show ?thesis
    by (simp add: broadcast_to_def Let_def c create send case_prod_beta)
qed

lemma seal_receiver_crc: "packet_ok p \<Longrightarrow> seal (p\<lparr>np_crc := c, np_receiver_addr := b\<rparr>) = seal (p\<lparr>np_receiver_addr := b\<rparr>)"
proof -
  have "p\<lparr>np_crc := c, np_receiver_addr := b\<rparr> = p\<lparr>np_receiver_addr := b, np_crc := c\<rparr>" by simp
  then show "packet_ok p \<Longrightarrow> ?thesis" by (simp only: seal_crc packet_ok_update)
qed

lemma addressed_addressed [simp]: "packet_ok p \<Longrightarrow> addressed (addressed p a) b = addressed p b"
  using packet_crc_Some [of "p\<lparr>np_receiver_addr := word_of_int (node_addr a)\<rparr>"]
  by (auto simp: addressed_def seal_def [of "p\<lparr>np_receiver_addr := word_of_int (node_addr a)\<rparr>"] seal_receiver_crc)

lemma addressed_ok [simp]: "packet_ok (addressed p port) = packet_ok p"
  by (simp add: addressed_def)

lemma broadcast_all_addressed: "packet_ok p \<Longrightarrow> broadcast_all os ports (addressed p a) n = broadcast_all os ports p n"
  by (simp add: broadcast_all_def)

lemma broadcast_loop:
  "packet_ok p \<Longrightarrow> \<exists>q. mfold (broadcast_to os) ports (p, n) = Some (q, broadcast_all os ports p n)"
proof (induction ports arbitrary: p n)
  case (Cons port ports)
  from Cons.IH [of "addressed p port"] Cons.prems show ?case
    by (simp add: broadcast_to_eq broadcast_all_addressed) (simp add: broadcast_all_def)
qed (simp add: broadcast_all_def)

lemma handle_broadcast_eq:
  assumes "packet_ok p"
  shows "handle_broadcast os p nd = Some (nd\<lparr>nd_net := broadcast_all os (neighbor_ports (nd_neighbors nd))
     (p\<lparr>np_app := delivery os (np_app p)\<rparr>) (nd_net nd)\<rparr>)"
proof -
  have ok: "app_ok (np_app p)" using assms by (simp add: packet_ok_def)
  then obtain q where "node_essentials_broadcast os (nd_neighbors nd) (p\<lparr>np_app := delivery os (np_app p)\<rparr>) (nd_net nd)
      = Some (q, broadcast_all os (neighbor_ports (nd_neighbors nd)) (p\<lparr>np_app := delivery os (np_app p)\<rparr>) (nd_net nd))"
    using broadcast_loop [of "p\<lparr>np_app := delivery os (np_app p)\<rparr>" os "neighbor_ports (nd_neighbors nd)" "nd_net nd"]
    by (auto simp: node_essentials_broadcast_def)
  with ok show ?thesis
    by (simp add: handle_broadcast_def setup_delivery_eq)
qed

lemma handle_server_unicast_eq:
  assumes "packet_ok p"
  shows "handle_server_unicast os p nd = Some (nd\<lparr>nd_net := flood os (neighbor_ports (nd_neighbors nd))
     (os_transmitted os REQUEST_UNICAST_CONTEST (Unicast \<lparr>uc_req = request_code REQUEST_UNICAST_CONTEST,
        uc_node_addr = nd_addr nd, uc_app = delivery os (np_app p)\<rparr>)) (nd_net nd)\<rparr>)"
proof -
  let ?u = "\<lparr>uc_req = request_code REQUEST_UNICAST_CONTEST, uc_node_addr = nd_addr nd, uc_app = delivery os (np_app p)\<rparr>"
    and ?cap = "sizeof_unicast_contest + MSG_BASE_LEN"
  have ok: "app_ok (np_app p)" using assms by (simp add: packet_ok_def)
  then have u: "payload_ok (Unicast ?u)" "wire_len (Unicast ?u) \<le> ?cap"
    by (simp_all add: unicast_ok_def wire_len.simps settings)
  show ?thesis
    using ok create_local_eq [OF _ u, of REQUEST_UNICAST_CONTEST os]
      created_send_all_eq [OF u, of os _ REQUEST_UNICAST_CONTEST]
    by (simp add: handle_server_unicast_def node_essentials_send_unicast_contest_def setup_delivery_eq
        create_local_def created_def Let_def)
qed


subsection \<open>The invariant of a node\<close>

definition node_ok :: "node \<Rightarrow> bool" where
  "node_ok nd \<longleftrightarrow> routing_ok (nd_routing nd) \<and> apps_ok (nd_addr nd) (nd_apps nd) \<and> messages_ok (nd_messages nd)
     \<and> net_ok (nd_net nd) \<and> node_essentials_fill_neighbors_port (nd_addr nd) initial_neighbors = Some (nd_neighbors nd)"

definition keeps :: "node \<Rightarrow> node \<Rightarrow> bool" where
  "keeps nd nd' \<longleftrightarrow> (node_ok nd \<longrightarrow> node_ok nd') \<and> nd_addr nd' = nd_addr nd"

lemma keeps_refl [simp, intro]: "keeps nd nd"
  by (simp add: keeps_def)

lemma keeps_trans: "keeps nd nd' \<Longrightarrow> keeps nd' nd'' \<Longrightarrow> keeps nd nd''"
  by (simp add: keeps_def)

lemma net_ok_get_conn: "net_ok n \<Longrightarrow> net_ok (snd (get_conn os p n))"
  using pool.invar_connect [of n os p] by (cases "get_conn os p n") auto

lemma net_ok_send_message [simp]: "net_ok n \<Longrightarrow> net_ok (snd (send_message os port m n))"
  using net_ok_get_conn [of n os port]
  by (auto simp: send_message_def net_ok_def split: prod.split)

lemma net_ok_fold:
  "(\<And>x n. net_ok n \<Longrightarrow> net_ok (f x n)) \<Longrightarrow> net_ok n \<Longrightarrow> net_ok (fold f xs n)"
  by (induction xs arbitrary: n) auto

lemma net_ok_flood [simp]: "net_ok n \<Longrightarrow> net_ok (flood os ports m n)"
  unfolding flood_def by (rule net_ok_fold) auto

lemma net_ok_broadcast_all [simp]: "net_ok n \<Longrightarrow> net_ok (broadcast_all os ports p n)"
  unfolding broadcast_all_def by (rule net_ok_fold) auto

lemma keeps_updates:
  "(net_ok (nd_net nd) \<Longrightarrow> net_ok n) \<Longrightarrow> keeps nd (nd\<lparr>nd_net := n\<rparr>)"
  "(routing_ok (nd_routing nd) \<Longrightarrow> routing_ok t) \<Longrightarrow> keeps nd (nd\<lparr>nd_routing := t\<rparr>)"
  "(messages_ok (nd_messages nd) \<Longrightarrow> messages_ok ms) \<Longrightarrow> keeps nd (nd\<lparr>nd_messages := ms\<rparr>)"
  by (simp_all add: keeps_def node_ok_def)

lemma keeps_transmit: "keeps nd (snd (transmit os port req pl nd))"
proof -
  have "snd (transmit os port req pl nd)
      = nd\<lparr>nd_net := snd (send_message os port (os_transmitted os req pl) (nd_net nd))\<rparr>"
    by (simp add: transmit_def split: prod.split)
  then show ?thesis by (simp add: keeps_updates)
qed

lemma keeps_report: "keeps nd (snd (report os ty mid nd))"
  unfolding report_def by (rule keeps_transmit)

lemma keeps_relay: "keeps nd (relay os p nd)"
  unfolding relay_def by (simp add: keeps_updates)

lemma keeps_deliver_local: "keeps nd (snd (deliver_local os p nd))"
  by (auto simp: deliver_local_def Let_def intro: keeps_report keeps_trans)

lemma keeps_forward: "keeps nd (snd (forward os p nd))"
  by (auto simp: forward_def keeps_relay keeps_transmit split: option.split)

lemma keeps_server_send: "keeps nd (snd (server_send os p nd))"
  by (auto simp: server_send_def Let_def keeps_relay keeps_transmit keeps_report split: option.split)

lemma keeps_delivered: "keeps nd (snd (delivered os p nd))"
proof -
  define ms where "ms = snd (inverse.once (nd_messages nd) (ap_id (np_app p)))"
  have ms: "keeps nd (nd\<lparr>nd_messages := ms\<rparr>)"
    by (rule keeps_updates) (simp add: ms_def inverse.once_invar)
  have del: "keeps x (x\<lparr>nd_routing := routing_del (nd_routing x) d\<rparr>)" for x d
    by (rule keeps_updates) (rule routes.invar_del)
  show ?thesis
  proof (cases "routing_map (nd_routing nd) (np_sender_addr p)")
    case None
    then show ?thesis by (simp add: delivered_def Let_def case_prod_beta ms_def [symmetric] ms)
  next
    case (Some route)
    define sb where "sb = transmit os (node_port (fst route)) REQUEST_ROUTE_INVERSE
       (Packet (answer (nd_addr nd) p)) (nd\<lparr>nd_messages := ms\<rparr>)"
    have "keeps (nd\<lparr>nd_messages := ms\<rparr>) (snd sb)"
      unfolding sb_def by (rule keeps_transmit)
    note sb = keeps_trans [OF ms this]
    show ?thesis
      using Some ms keeps_trans [OF sb del] keeps_trans [OF sb keeps_report]
      by (simp add: delivered_def Let_def case_prod_beta ms_def [symmetric] sb_def [symmetric])
  qed
qed

lemma keeps_route_direct: "keeps nd (snd (route_direct os p nd))"
proof -
  define ms where "ms = snd (was_message.once (nd_messages nd) (ap_id (np_app p)))"
  define t where "t = (if sint (packet_metric p) > 0
     then routes.relax (nd_routing nd) (np_sender_addr p) (np_local_sender_addr p) (packet_metric p)
     else nd_routing nd)"
  have ms: "keeps nd (nd\<lparr>nd_messages := ms\<rparr>)"
    by (rule keeps_updates) (simp add: ms_def was_message.once_invar)
  have t: "keeps nd (nd\<lparr>nd_messages := ms, nd_routing := t\<rparr>)"
    using keeps_trans [OF ms keeps_updates(2), of t] by (simp add: t_def routes.relax_invar)
  show ?thesis
    using ms keeps_trans [OF t keeps_delivered] keeps_trans [OF t keeps_relay]
    by (simp add: route_direct_def Let_def case_prod_beta ms_def [symmetric] t_def [symmetric])
qed

lemma learn_inverse_ok: "routing_ok t \<Longrightarrow> routing_ok (learn_inverse p t)"
  by (simp add: learn_inverse_def Let_def routes.invar_set)

lemma keeps_route_inverse: "keeps nd (snd (route_inverse os p nd))"
proof -
  let ?nd = "nd\<lparr>nd_routing := learn_inverse p (nd_routing nd)\<rparr>"
  have t: "keeps nd ?nd"
    by (rule keeps_updates) (rule learn_inverse_ok)
  have del: "keeps x (x\<lparr>nd_routing := routing_del (nd_routing x) d\<rparr>)" for x d
    by (rule keeps_updates) (rule routes.invar_del)
  note sent = keeps_trans [OF t keeps_transmit]
  show ?thesis
  proof (cases "routing_map (learn_inverse p (nd_routing nd)) (np_sender_addr p)")
    case None
    then show ?thesis by (simp add: route_inverse_def Let_def t)
  next
    case (Some route)
    then show ?thesis
      using t sent keeps_trans [OF sent del, of os "node_port (fst route)" REQUEST_ROUTE_INVERSE
          "Packet (hop_back (nd_addr nd) p)" "np_sender_addr p"]
      by (simp add: route_inverse_def Let_def case_prod_beta)
  qed
qed

lemma keeps_once_flag:
  "messages_ok ms \<Longrightarrow> messages_ok (set_unicast_status_by_id (snd (get_unicast_status_by_id ms mid)) mid True)"
  by (rule unicast_first.invar_put) (simp_all add: unicast_first.invar_get unicast_first.get_cases)

lemma keeps_reset: "keeps nd (handle_reset nd)"
proof -
  have "length (nd_apps nd) = APPS_COUNT" if "apps_ok a (nd_apps nd)" for a
    using that by (simp add: apps_ok_def)
  then show ?thesis
    by (auto simp: keeps_def node_ok_def handle_reset_def routes.invar_clear messages_ok_fill net_ok_def
        node_essentials_reset_connections_def intro: node_app_fill_default_ok)
qed

lemma handle_ping_eq: "\<exists>ok tr. handle_ping os fd nd = Some (ok, nd\<lparr>nd_net := (nd_net nd)\<lparr>net_trace := tr\<rparr>\<rparr>)"
  using io_write_all_total [of 1 "[request_result_code REQUEST_OK]" os fd "net_trace (nd_net nd)"]
  by (auto simp: handle_ping_def)

lemma keeps_trace: "keeps nd (nd\<lparr>nd_net := (nd_net nd)\<lparr>net_trace := tr\<rparr>\<rparr>)"
  by (rule keeps_updates) (simp add: net_ok_def)

text \<open>
  The handlers of well-formed payloads are total and keep the invariant; only the return path
  has a bound of its own.
\<close>

lemma handlers_keep:
  assumes "packet_ok p"
  shows "\<exists>ok nd'. handle_server_send os REQUEST_SEND p nd = Some (ok, nd') \<and> keeps nd nd'"
    and "\<exists>nd'. handle_broadcast os p nd = Some nd' \<and> keeps nd nd'"
    and "\<exists>nd'. handle_server_unicast os p nd = Some nd' \<and> keeps nd nd'"
    and "\<exists>ok nd'. handle_node_send os p nd = Some (ok, nd') \<and> keeps nd nd'"
    and "\<exists>ok nd'. handle_node_route_direct os p nd = Some (ok, nd') \<and> keeps nd nd'"
    and "unat (ap_message_len (np_app p)) \<le> 147 \<Longrightarrow>
      \<exists>ok nd'. handle_node_route_inverse os p nd = Some (ok, nd') \<and> keeps nd nd'"
proof -
  have pair: "\<exists>ok nd'. Some r = Some (ok, nd') \<and> keeps nd nd'" if "keeps nd (snd r)" for r
    using that by (cases r) auto
  show "\<exists>ok nd'. handle_server_send os REQUEST_SEND p nd = Some (ok, nd') \<and> keeps nd nd'"
    unfolding handle_server_send_eq [OF assms] by (rule pair) (simp add: keeps_server_send)
  show "\<exists>ok nd'. handle_node_send os p nd = Some (ok, nd') \<and> keeps nd nd'"
    unfolding handle_node_send_eq [OF assms] by (rule pair) (simp add: keeps_deliver_local keeps_forward)
  show "\<exists>ok nd'. handle_node_route_direct os p nd = Some (ok, nd') \<and> keeps nd nd'"
    unfolding handle_node_route_direct_eq [OF assms] by (rule pair) (rule keeps_route_direct)
  show "\<exists>ok nd'. handle_node_route_inverse os p nd = Some (ok, nd') \<and> keeps nd nd'"
    if "unat (ap_message_len (np_app p)) \<le> 147"
    using pair [OF keeps_route_inverse] that by (simp add: handle_node_route_inverse_eq [OF assms])
qed (simp_all add: handle_broadcast_eq [OF assms] handle_server_unicast_eq [OF assms] keeps_updates)

lemma unicast_handlers_keep:
  assumes "unicast_ok u"
  shows "\<exists>nd'. handle_unicast_contest os u nd = Some nd' \<and> keeps nd nd'"
    and "\<exists>nd'. handle_unicast_first os u nd = Some nd' \<and> keeps nd nd'"
proof -
  show "\<exists>nd'. handle_unicast_contest os u nd = Some nd' \<and> keeps nd nd'"
    by (simp add: handle_unicast_contest_eq [OF assms] keeps_transmit)
  let ?get = "get_unicast_status_by_id (nd_messages nd) (ap_id (uc_app u))"
  have "keeps nd (nd\<lparr>nd_messages := snd ?get\<rparr>)"
    by (rule keeps_updates) (rule unicast_first.invar_get)
  moreover have won: "keeps nd (nd\<lparr>nd_messages := set_unicast_status_by_id (snd ?get) (ap_id (uc_app u)) True\<rparr>)"
    by (rule keeps_updates) (rule keeps_once_flag)
  ultimately show "\<exists>nd'. handle_unicast_first os u nd = Some nd' \<and> keeps nd nd'"
    using keeps_trans [OF won keeps_transmit]
    by (simp add: handle_unicast_first_eq [OF assms] Let_def case_prod_beta)
qed

end
