(* ===== verification/Format_Safety.thy ===== *)
theory Format_Safety
  imports Format_Wire
begin

text \<open>
  \<^verbatim>\<open>format_parse\<close> on arbitrary bytes, as they arrive from a peer that need not follow the
  protocol: which messages are parsed, and which overrun the 150-byte array of the payload.
\<close>

text \<open>The length field of the application message, where the request has one.\<close>

definition declared_len :: "u8 list \<Rightarrow> nat" where
  "declared_len buf = (case request_of (buf ! 0) of
      None \<Rightarrow> 0
    | Some r \<Rightarrow> if is_route_request r then unat (buf ! 11)
        else if is_unicast_request r then unat (buf ! 9) else 0)"

definition payload_message_len :: "payload \<Rightarrow> nat" where
  "payload_message_len pl = (case pl of
      Packet p \<Rightarrow> unat (ap_message_len (np_app p))
    | Unicast u \<Rightarrow> unat (ap_message_len (uc_app u))
    | _ \<Rightarrow> 0)"

lemma split_first:
  "k \<le> length xs \<Longrightarrow> \<exists>as bs. xs = as @ bs \<and> length as = k \<and> length bs = length xs - k"
  by (rule exI [of _ "take k xs"], rule exI [of _ "drop k xs"]) simp

lemma length_6: "length xs = 6 \<Longrightarrow> \<exists>a b c d e f. xs = [a, b, c, d, e, f]"
  by (auto simp: length_Suc_conv numeral_eq_Suc)

lemma get_u16_long: "2 \<le> length p \<Longrightarrow> \<exists>w. get_u16 p = Some (w, drop 2 p)"
  by (cases p; cases "tl p") (auto simp: get_u16_def)

lemma format_app_parse_message_any:
  assumes "length msg0 = APP_MESSAGE_LEN" and "158 \<le> length p"
  shows "if unat (p ! 5) \<le> APP_MESSAGE_LEN
    then \<exists>a. format_app_parse_message msg0 p = Some a \<and> app_ok a \<and> ap_message_len a = p ! 5
    else format_app_parse_message msg0 p = None"
proof -
  obtain h q where p: "p = h @ q" "length h = 6" "length q = length p - 6"
    using split_first [of 6 p] assms(2) by auto
  obtain a b c d e n where h: "h = [a, b, c, d, e, n]"
    using length_6 [OF p(2)] by auto
  have n: "p ! 5 = n" by (simp add: p h)
  show ?thesis
  proof (cases "unat n \<le> APP_MESSAGE_LEN")
    case True
    then have len: "unat n + 2 \<le> length q"
      using p(3) assms(2) by (simp add: settings)
    then have "2 \<le> length (drop (unat n) q)" "2 \<le> length q" by simp_all
    then obtain w v where "get_u16 (drop (unat n) q) = Some (w, drop 2 (drop (unat n) q))"
      "get_u16 q = Some (v, drop 2 q)"
      using get_u16_long by meson
    with True len n assms(1) show ?thesis
      by (auto simp: p(1) h format_app_parse_message_def get_u16_def [of "d # _"] get_bytes_def app_ok_def)
  next
    case False
    then show ?thesis
      using n assms(1) format_app_parse_message_overflow [of msg0 n a b c d e q] by (simp add: p(1) h)
  qed
qed

lemma format_app_parse_message_rest:
  assumes "length msg0 = APP_MESSAGE_LEN" and "158 \<le> length p" and "unat (p ! 5) \<le> APP_MESSAGE_LEN"
  shows "\<exists>a. format_app_parse_message msg0 p = Some a \<and> app_ok a \<and> ap_message_len a = p ! 5
     \<and> unat (format_app_message_len a) \<le> 158"
  using format_app_parse_message_any [OF assms(1,2)] assms(3)
  by (auto simp: unat_format_app_message_len app_ok_def settings)

lemma parse_route_payload_any:
  assumes "length msg0 = APP_MESSAGE_LEN" and "length buf = MAX_MSG_LEN"
  shows "if unat (buf ! 11) \<le> APP_MESSAGE_LEN
    then \<exists>p. parse_route_payload msg0 buf = Some p \<and> packet_ok p \<and> ap_message_len (np_app p) = buf ! 11
    else parse_route_payload msg0 buf = None"
proof -
  obtain h q where buf: "buf = h @ q" "length h = 6" "length q = 250"
    using split_first [of 6 buf] assms(2) by (auto simp: settings)
  obtain c s a b l t where h: "h = [c, s, a, b, l, t]"
    using length_6 [OF buf(2)] by auto
  have n: "buf ! 11 = q ! 5" by (simp add: buf h)
  show ?thesis
  proof (cases "unat (q ! 5) \<le> APP_MESSAGE_LEN")
    case True
    then obtain app where app: "format_app_parse_message msg0 q = Some app" "app_ok app"
      "ap_message_len app = q ! 5" "unat (format_app_message_len app) \<le> 158"
      using format_app_parse_message_rest [OF assms(1), of q] buf(3) by auto
    then have "2 \<le> length (drop (unat (format_app_message_len app)) q)" using buf(3) by simp
    then obtain w where "get_u16 (drop (unat (format_app_message_len app)) q)
        = Some (w, drop 2 (drop (unat (format_app_message_len app)) q))"
      using get_u16_long by blast
    with True app buf(3) n show ?thesis
      by (simp add: buf(1) h parse_route_payload_def skip_bytes_def packet_ok_def del: drop_drop)
  next
    case False
    then have "format_app_parse_message msg0 q = None"
      using format_app_parse_message_any [OF assms(1), of q] buf(3) by simp
    with False n show ?thesis
      by (simp add: buf(1) h parse_route_payload_def)
  qed
qed

lemma parse_unicast_payload_any:
  assumes "length msg0 = APP_MESSAGE_LEN" and "length buf = MAX_MSG_LEN"
  shows "if unat (buf ! 9) \<le> APP_MESSAGE_LEN
    then \<exists>u. parse_unicast_contest_payload msg0 buf = Some u \<and> unicast_ok u \<and> ap_message_len (uc_app u) = buf ! 9
    else parse_unicast_contest_payload msg0 buf = None"
proof -
  obtain h q where buf: "buf = h @ q" "length h = 4" "length q = 252"
    using split_first [of 4 buf] assms(2) by (auto simp: settings)
  obtain c s a b where h: "h = [c, s, a, b]"
    using buf(2) by (auto simp: length_Suc_conv numeral_eq_Suc)
  have "buf ! 9 = q ! 5" by (simp add: buf h)
  then show ?thesis
    using format_app_parse_message_any [OF assms(1), of q] buf(3)
    by (auto simp: buf(1) h parse_unicast_contest_payload_def unicast_ok_def)
qed

lemma parse_small_any:
  assumes "length buf = MAX_MSG_LEN"
  shows "parse_addr_payload buf = Some (buf ! 2)" and "\<exists>u. parse_node_update_payload buf = Some u"
    and "\<exists>n. parse_notify_payload buf = Some n"
proof -
  obtain h q where buf: "buf = h @ q" "length h = 9"
    using split_first [of 9 buf] assms by (auto simp: settings)
  obtain a b c d e f g i j where h: "h = [a, b, c, d, e, f, g, i, j]"
    using buf(2) by (auto simp: length_Suc_conv numeral_eq_Suc)
  show "parse_addr_payload buf = Some (buf ! 2)" "\<exists>u. parse_node_update_payload buf = Some u"
    "\<exists>n. parse_notify_payload buf = Some n"
    by (auto simp: buf(1) h parse_addr_payload_def parse_node_update_payload_def parse_notify_payload_def
        get_u16_def get_u32_def)
qed

text \<open>What a parsed message looks like, by its request byte.\<close>

definition parsed_as :: "u8 list \<Rightarrow> request option \<Rightarrow> payload \<Rightarrow> bool \<Rightarrow> bool" where
  "parsed_as buf cmd pl died \<longleftrightarrow> cmd = request_of (buf ! 0) \<and> died = (cmd = None) \<and> payload_ok pl
     \<and> payload_message_len pl = declared_len buf
     \<and> (\<forall>r. cmd = Some r \<longrightarrow> (is_route_request r \<longrightarrow> (\<exists>p. pl = Packet p)) \<and> (is_unicast_request r \<longrightarrow> (\<exists>u. pl = Unicast u))
         \<and> (r \<in> {REQUEST_PING, REQUEST_KILL_NODE, REQUEST_REVIVE_NODE} \<longrightarrow> pl = Addr (buf ! 2))
         \<and> (r = REQUEST_UPDATE \<longrightarrow> (\<exists>u. pl = Update u)) \<and> (r = REQUEST_NOTIFY \<longrightarrow> (\<exists>n. pl = Notify n)))"

lemma format_parse_any:
  assumes "length buf = MAX_MSG_LEN"
  shows "if declared_len buf \<le> APP_MESSAGE_LEN
    then \<exists>cmd pl died. format_parse junk buf = Some (cmd, pl, died) \<and> parsed_as buf cmd pl died
    else format_parse junk buf = None"
proof -
  let ?mem = "uninit junk APP_MESSAGE_LEN"
  obtain c q where buf: "buf = c # q"
    using assms by (cases buf) (auto simp: settings)
  note route = parse_route_payload_any [of ?mem, OF length_uninit assms]
  note unicast = parse_unicast_payload_any [of ?mem, OF length_uninit assms]
  note small = parse_small_any [OF assms]
  show ?thesis
  proof (cases "request_of c")
    case None
    then show ?thesis by (simp add: format_parse_def buf declared_len_def parsed_as_def payload_message_len_def)
  next
    case (Some r)
    have c: "get_u8 buf = Some (c, q)" "buf ! 0 = c" by (simp_all add: buf)
    consider "is_route_request r" | "is_unicast_request r" | "r \<in> {REQUEST_PING, REQUEST_REVIVE_NODE, REQUEST_KILL_NODE}"
      | "r \<in> {REQUEST_RESET, REQUEST_UPDATE, REQUEST_NOTIFY, REQUEST_UNDEFINED}"
      by (cases r) (simp_all add: is_route_request_def is_unicast_request_def)
    then show ?thesis
    proof cases
      case 1
      then have "format_parse junk buf = map_option (\<lambda>q. (Some r, Packet q, False)) (parse_route_payload ?mem buf)"
        by (auto simp: format_parse_def c Some is_route_request_def)
      with 1 route show ?thesis
        by (auto simp: declared_len_def c Some parsed_as_def payload_message_len_def is_route_request_def is_unicast_request_def split: if_splits)
    next
      case 2
      then have "format_parse junk buf = map_option (\<lambda>u. (Some r, Unicast u, False)) (parse_unicast_contest_payload ?mem buf)"
        by (auto simp: format_parse_def c Some is_route_request_def is_unicast_request_def)
      with 2 unicast show ?thesis
        by (auto simp: declared_len_def c Some parsed_as_def payload_message_len_def is_unicast_request_def split: if_splits)
    next
      case 3
      with small show ?thesis
        by (auto simp: format_parse_def c Some declared_len_def parsed_as_def payload_message_len_def
            is_route_request_def is_unicast_request_def)
    next
      case 4
      with small show ?thesis
        by (auto simp: format_parse_def c Some declared_len_def parsed_as_def payload_message_len_def
            is_route_request_def is_unicast_request_def)
    qed
  qed
qed

text \<open>So the object behind the pointer always has the type its request is cast to.\<close>

lemma parsed_carries:
  assumes "length buf = MAX_MSG_LEN" and "format_parse junk buf = Some (Some req, pl, died)" and "req \<noteq> REQUEST_UNDEFINED"
  shows "carries req pl"
proof -
  have parsed: "parsed_as buf (Some req) pl died"
    using format_parse_any [OF assms(1), of junk] assms(2) by (auto split: if_splits)
  show ?thesis
  proof (cases "req = REQUEST_RESET")
    case True
    obtain c q where buf: "buf = c # q" using assms(1) by (cases buf) (auto simp: settings)
    have "request_of c = Some REQUEST_RESET" using parsed True by (simp add: parsed_as_def buf)
    then have "pl = Null" using assms(2) by (simp add: format_parse_def buf is_route_request_def is_unicast_request_def)
    then show ?thesis by (simp add: carries_def fits_def is_addr_request_def True)
  next
    case False
    then show ?thesis using parsed assms(3)
      by (cases req) (auto simp: parsed_as_def carries_def fits_def is_addr_request_def is_route_request_def is_unicast_request_def)
  qed
qed

end
