(* ===== verification/Framing.thy ===== *)
theory Framing
  imports Format_Safety Io
begin

text \<open>
  Reading one message off a connection: the front part that \<^verbatim>\<open>handle_request\<close> of
  \<^verbatim>\<open>node/src/node.c\<close> and \<^verbatim>\<open>handle_request\<close> of \<^verbatim>\<open>server/src/server.c\<close> have in common.  The length
  byte comes first, then \<^verbatim>\<open>msg_len - sizeof(msg_len)\<close> bytes (narrowed to a byte by the call) go
  to the front of a stack array.  TCP may cut the stream anywhere: \<open>read_frame_delivers\<close> says
  the messages come out whole, one by one.
\<close>

definition receive_buffer :: "os \<Rightarrow> u8 list \<Rightarrow> u8 list" where
  "receive_buffer os got = got @ drop (length got) (uninit (os_junk os) MAX_MSG_LEN)"

definition read_frame :: "os \<Rightarrow> int \<Rightarrow> trace \<Rightarrow> u8 list option \<times> trace" where
  "read_frame os fd tr =
     (case io_read_all os fd 1 tr of (_, got, tr) \<Rightarrow>
        (case got of
           [] \<Rightarrow> (None, tr)
         | msg_len # _ \<Rightarrow>
             (case io_read_all os fd (msg_len - 1) tr of (ok, got, tr) \<Rightarrow>
                if \<not> ok then (None, tr)
                else if \<not> format_is_message_correct (length got) (msg_len - 1) then (None, tr)
                else if length got > 0 then (Some (receive_buffer os got), tr)
                else (None, tr))))"

lemma length_receive_buffer: "length got \<le> MAX_MSG_LEN \<Longrightarrow> length (receive_buffer os got) = MAX_MSG_LEN"
  by (simp add: receive_buffer_def)

lemma read_frame_length:
  assumes "read_frame os fd tr = (Some buf, tr')"
  shows "length buf = MAX_MSG_LEN"
proof -
  obtain ok got tr1 where first: "io_read_all os fd 1 tr = (ok, got, tr1)" by (metis surj_pair)
  then obtain n q where got: "got = n # q"
    using assms by (cases got) (simp_all add: read_frame_def)
  obtain ok' got' tr2 where second: "io_read_all os fd (n - 1) tr1 = (ok', got', tr2)" by (metis surj_pair)
  have "buf = receive_buffer os got'"
    using assms by (simp add: read_frame_def first got second split: if_splits)
  moreover have "length got' \<le> MAX_MSG_LEN"
    using io_read_all_length [OF second] order.trans [OF _ unat_u8_le] by (force simp: settings)
  ultimately show ?thesis by (simp add: length_receive_buffer)
qed

text \<open>
  A message \<open>m\<close> of at least three bytes whose first byte is its length, next in the stream of a
  connection, is read whole however the stream is cut, and nothing behind it is consumed.
\<close>

lemma read_frame_delivers:
  assumes stream: "delivers os fd S" "S = received fd tr @ m @ rest"
    and m: "3 \<le> length m" "length m < 256" "hd m = of_nat (length m)"
  shows "\<exists>tr'. read_frame os fd tr = (Some (receive_buffer os (tl m)), tr')
     \<and> received fd tr' = received fd tr @ m"
proof -
  obtain l q where lq: "m = l # q" using m(1) by (cases m) auto
  have l: "l = of_nat (length q) + 1" and q: "2 \<le> length q" "length q < 255"
    using m by (auto simp: lq)
  have n: "unat (l - 1) = length q" "l - 1 = of_nat (length q)"
    using q by (simp_all add: l unat_of_nat)
  obtain tr1 where first: "io_read_all os fd 1 tr = (True, [l], tr1)" "received fd tr1 = received fd tr @ [l]"
    using io_read_all_delivers [OF stream(1), of tr "[l]" "q @ rest" 1] stream(2) by (auto simp: lq)
  obtain tr2 where second: "io_read_all os fd (l - 1) tr1 = (True, q, tr2)" "received fd tr2 = received fd tr1 @ q"
    using io_read_all_delivers [OF stream(1), of tr1 q rest "l - 1"] stream(2) n first(2) by (auto simp: lq)
  have "format_is_message_correct (length q) (l - 1)"
    using q n by (simp add: format_is_message_correct_def)
  moreover have "q \<noteq> []" using q by auto
  ultimately show ?thesis
    using first second by (simp add: read_frame_def lq)
qed

text \<open>What a process transmits, another process reads and parses to an equal payload.\<close>

lemma transmitted_frame:
  assumes "payload_ok pl"
  shows "3 \<le> length (transmitted junk pid req pl s)" "length (transmitted junk pid req pl s) < 256"
    "hd (transmitted junk pid req pl s) = of_nat (length (transmitted junk pid req pl s))"
    "\<exists>r. tl (transmitted junk pid req pl s) = request_code req # sender_code s # wire_body pid pl @ r"
  using assms length_transmitted [OF assms, where junk = junk and pid = pid and req = req and s = s] length_wire_message(1) [OF assms, of req pid s]
    length_wire_message(2) [OF assms]
  by (auto simp: transmitted_def Let_def wire_message_def)

lemma receive_transmitted:
  assumes "carries req pl" and "payload_ok pl"
  shows "\<exists>pl'. format_parse junk' (receive_buffer os (tl (transmitted junk pid req pl s))) = Some (Some req, pl', False)
     \<and> payload_norm pid pl' = payload_norm pid pl \<and> payload_ok pl'"
proof -
  obtain r where "tl (transmitted junk pid req pl s) = request_code req # sender_code s # wire_body pid pl @ r"
    using transmitted_frame(4) [OF assms(2)] by blast
  then obtain r' where "receive_buffer os (tl (transmitted junk pid req pl s))
      = request_code req # sender_code s # wire_body pid pl @ r'"
    by (simp add: receive_buffer_def)
  then show ?thesis
    using format_parse_wire [OF assms, of junk' s pid r'] by simp
qed

lemma read_frame_sent: "read_frame os fd tr = (frame, tr') \<Longrightarrow> sent x tr' = sent x tr"
proof -
  obtain ok got tr1 where first: "io_read_loop os fd 1 [] tr = (ok, got, tr1)" by (metis surj_pair)
  obtain ok' got' tr2 where second: "io_read_loop os fd (hd got - 1) [] tr1 = (ok', got', tr2)" by (metis surj_pair)
  assume "read_frame os fd tr = (frame, tr')"
  then have "tr' \<in> {tr1, tr2}"
    using first second by (cases got) (auto simp: read_frame_def io_read_all_def split: if_splits)
  then show "sent x tr' = sent x tr"
    using io_read_loop_sent [OF first] io_read_loop_sent [OF second] by auto
qed

lemma read_transmitted:
  assumes "payload_ok pl" and "delivers os fd S" and "S = received fd tr @ transmitted junk pid req pl s @ rest"
  shows "\<exists>r tr'. read_frame os fd tr = (Some (request_code req # sender_code s # wire_body pid pl @ r), tr')"
proof -
  let ?b = "transmitted junk pid req pl s"
  obtain tr' where frame: "read_frame os fd tr = (Some (receive_buffer os (tl ?b)), tr')"
    using read_frame_delivers [OF assms(2,3)] transmitted_frame(1-3) [OF assms(1)] by auto
  obtain r where "tl ?b = request_code req # sender_code s # wire_body pid pl @ r"
    using transmitted_frame(4) [OF assms(1)] by blast
  then show ?thesis using frame by (simp add: receive_buffer_def)
qed

text \<open>
  What a peer that follows the protocol writes to a connection: messages, each a request, a
  payload and the kind of the sender.  The receiver calls \<open>read_frame\<close> once for each.
\<close>

type_synonym message = "request \<times> payload \<times> request_sender"

primrec message_ok :: "message \<Rightarrow> bool" where
  "message_ok (req, r) \<longleftrightarrow> carries req (fst r) \<and> payload_ok (fst r)"

primrec message_bytes :: "(nat \<Rightarrow> u8) \<Rightarrow> u32 \<Rightarrow> message \<Rightarrow> u8 list" where
  "message_bytes junk pid (req, r) = transmitted junk pid req (fst r) (snd r)"

definition received_as :: "os \<Rightarrow> u32 \<Rightarrow> message \<Rightarrow> u8 list \<Rightarrow> bool" where
  "received_as os pid m buf = (case m of (req, pl, s) \<Rightarrow> format_define_sender buf = Some (sender_code s) \<and>
     (\<exists>pl'. format_parse (os_junk os) buf = Some (Some req, pl', False) \<and> payload_norm pid pl' = payload_norm pid pl \<and> payload_ok pl'))"

primrec read_frames :: "os \<Rightarrow> int \<Rightarrow> nat \<Rightarrow> trace \<Rightarrow> u8 list list \<times> trace" where
  "read_frames os fd 0 tr = ([], tr)"
| "read_frames os fd (Suc n) tr = (case read_frame os fd tr of
      (None, tr) \<Rightarrow> ([], tr)
    | (Some buf, tr) \<Rightarrow> (case read_frames os fd n tr of (bufs, tr) \<Rightarrow> (buf # bufs, tr)))"

lemma read_message:
  assumes "message_ok m" and "delivers os fd S" and "S = received fd tr @ message_bytes junk pid m @ rest"
  shows "\<exists>buf tr'. read_frame os fd tr = (Some buf, tr') \<and> received fd tr' = received fd tr @ message_bytes junk pid m
     \<and> received_as os pid m buf"
proof -
  obtain req pl s where m: "m = (req, pl, s)" by (cases m) auto
  let ?b = "transmitted junk pid req pl s"
  have ok: "carries req pl" "payload_ok pl" using assms(1) by (simp_all add: m)
  obtain tr' where frame: "read_frame os fd tr = (Some (receive_buffer os (tl ?b)), tr')" "received fd tr' = received fd tr @ ?b"
    using read_frame_delivers [OF assms(2), of tr ?b rest] assms(3) transmitted_frame(1-3) [OF ok(2)] by (auto simp: m)
  obtain r where "tl ?b = request_code req # sender_code s # wire_body pid pl @ r"
    using transmitted_frame(4) [OF ok(2)] by blast
  then have "format_define_sender (receive_buffer os (tl ?b)) = Some (sender_code s)"
    by (simp add: receive_buffer_def)
  with receive_transmitted [OF ok] have "received_as os pid m (receive_buffer os (tl ?b))"
    by (auto simp: received_as_def m)
  with frame show ?thesis by (auto simp: m)
qed

lemma read_messages:
  assumes "\<forall>m \<in> set ms. message_ok m" and "delivers os fd S"
    and "S = received fd tr @ concat (map (message_bytes junk pid) ms) @ rest"
  shows "\<exists>bufs tr'. read_frames os fd (length ms) tr = (bufs, tr')
     \<and> received fd tr' = received fd tr @ concat (map (message_bytes junk pid) ms) \<and> list_all2 (received_as os pid) ms bufs"
  using assms(1,3)
proof (induction ms arbitrary: tr)
  case (Cons m ms)
  obtain buf tr1 where one: "read_frame os fd tr = (Some buf, tr1)" "received fd tr1 = received fd tr @ message_bytes junk pid m"
    "received_as os pid m buf"
    using read_message [OF _ assms(2), of m tr junk pid "concat (map (message_bytes junk pid) ms) @ rest"] Cons.prems by auto
  then obtain bufs tr' where "read_frames os fd (length ms) tr1 = (bufs, tr')"
    "received fd tr' = received fd tr1 @ concat (map (message_bytes junk pid) ms)" "list_all2 (received_as os pid) ms bufs"
    using Cons.IH [of tr1] Cons.prems by auto
  with one show ?case by auto
qed simp

end
