(* ===== verification/Node_Listener.thy ===== *)
theory Node_Listener
  imports Node_Spec Framing
begin

text \<open>
  From bytes to handlers: \<^verbatim>\<open>node/src/node_listener.c\<close> and \<^verbatim>\<open>handle_request\<close> of
  \<^verbatim>\<open>node/src/node.c\<close>.  \<^verbatim>\<open>not_implemented()\<close> raises \<^verbatim>\<open>SIGTERM\<close>, whose handler clears
  \<^verbatim>\<open>keeprunning\<close> and returns: the event \<open>EvSigterm\<close> in the trace stands for it.
\<close>

definition node_log_event :: "os_event list \<Rightarrow> node \<Rightarrow> node" where
  "node_log_event evs nd = nd\<lparr>nd_net := (nd_net nd)\<lparr>net_trace := net_trace (nd_net nd) @ evs\<rparr>\<rparr>"

definition node_trace :: "node \<Rightarrow> trace" where
  "node_trace nd = net_trace (nd_net nd)"

text \<open>\<^verbatim>\<open>format_parse\<close> as the listener calls it: request, payload pointer, and the node afterwards.\<close>

definition node_parse :: "os \<Rightarrow> u8 list \<Rightarrow> node \<Rightarrow> (request option \<times> payload \<times> node) option" where
  "node_parse os buf nd = do {
     (cmd_type, pl, died) \<leftarrow> format_parse (os_junk os) buf;
     Some (cmd_type, pl, if died then node_log_event [EvSigterm] nd else nd) }"

definition handle_server :: "os \<Rightarrow> int \<Rightarrow> u8 list \<Rightarrow> node \<Rightarrow> (bool \<times> node) option" where
  "handle_server os fd buf nd = do {
     (cmd_type, pl, nd) \<leftarrow> node_parse os buf nd;
     (case cmd_type of
        Some REQUEST_PING \<Rightarrow> handle_ping os fd nd
      | Some REQUEST_SEND \<Rightarrow> (case pl of Packet p \<Rightarrow> handle_server_send os REQUEST_SEND p nd | _ \<Rightarrow> None)
      | Some REQUEST_RESET \<Rightarrow> Some (True, handle_reset nd)
      | Some REQUEST_UNICAST \<Rightarrow>
          (case pl of Packet p \<Rightarrow> map_option (Pair True) (handle_server_unicast os p nd) | _ \<Rightarrow> None)
      | Some REQUEST_BROADCAST \<Rightarrow>
          (case pl of Packet p \<Rightarrow> map_option (Pair True) (handle_broadcast os p nd) | _ \<Rightarrow> None)
      | Some REQUEST_UNDEFINED \<Rightarrow> Some (False, nd)
      | _ \<Rightarrow> Some (False, nd)) }"

definition handle_node :: "os \<Rightarrow> u8 list \<Rightarrow> node \<Rightarrow> (bool \<times> node) option" where
  "handle_node os buf nd = do {
     (cmd_type, pl, nd) \<leftarrow> node_parse os buf nd;
     (case cmd_type of
        Some REQUEST_SEND \<Rightarrow> (case pl of Packet p \<Rightarrow> handle_node_send os p nd | _ \<Rightarrow> None)
      | Some REQUEST_ROUTE_DIRECT \<Rightarrow> (case pl of Packet p \<Rightarrow> handle_node_route_direct os p nd | _ \<Rightarrow> None)
      | Some REQUEST_ROUTE_INVERSE \<Rightarrow> (case pl of Packet p \<Rightarrow> handle_node_route_inverse os p nd | _ \<Rightarrow> None)
      | Some REQUEST_UNICAST_CONTEST \<Rightarrow>
          (case pl of Unicast u \<Rightarrow> map_option (Pair True) (handle_unicast_contest os u nd) | _ \<Rightarrow> None)
      | Some REQUEST_UNICAST_FIRST \<Rightarrow>
          (case pl of Unicast u \<Rightarrow> map_option (Pair True) (handle_unicast_first os u nd) | _ \<Rightarrow> None)
      | Some REQUEST_UNDEFINED \<Rightarrow> Some (False, nd)
      | _ \<Rightarrow> Some (False, nd)) }"

definition node_listener_handle_request :: "os \<Rightarrow> int \<Rightarrow> u8 list \<Rightarrow> node \<Rightarrow> (bool \<times> node) option" where
  "node_listener_handle_request os fd buf nd = do {
     sender \<leftarrow> format_define_sender buf;
     (if sender = sender_code REQUEST_SENDER_SERVER then handle_server os fd buf nd
      else if sender = sender_code REQUEST_SENDER_NODE then handle_node os buf nd
      else Some (False, nd)) }"

text \<open>One request from a connection; the result of the handler is ignored.\<close>

definition handle_request :: "os \<Rightarrow> int \<Rightarrow> node \<Rightarrow> (bool \<times> node) option" where
  "handle_request os fd nd =
     (case read_frame os fd (node_trace nd) of (frame, tr) \<Rightarrow>
        let nd = nd\<lparr>nd_net := (nd_net nd)\<lparr>net_trace := tr\<rparr>\<rparr> in
        (case frame of
           None \<Rightarrow> Some (False, nd)
         | Some buf \<Rightarrow> do {
             (_, nd) \<leftarrow> node_listener_handle_request os fd buf nd;
             Some (True, nd) }))"

subsection \<open>Safety for arbitrary messages\<close>

lemma node_trace_updates [simp]: "node_trace (nd\<lparr>nd_net := (nd_net nd)\<lparr>net_trace := tr\<rparr>\<rparr>) = tr"
  by (simp add: node_trace_def)

lemma keeps_log_event: "keeps nd (node_log_event evs nd)"
  unfolding node_log_event_def by (rule keeps_trace)

text \<open>
  A message is safe when its length field stays within the array it is parsed into and, on the
  return path, within the array it is forwarded from.
\<close>

definition safe_message :: "u8 list \<Rightarrow> bool" where
  "safe_message buf \<longleftrightarrow> declared_len buf \<le> APP_MESSAGE_LEN
     \<and> (buf ! 0 = request_code REQUEST_ROUTE_INVERSE \<longrightarrow> declared_len buf \<le> 147)"

lemma node_parse_any:
  assumes "length buf = MAX_MSG_LEN" and "declared_len buf \<le> APP_MESSAGE_LEN"
  shows "\<exists>cmd pl nd'. node_parse os buf nd = Some (cmd, pl, nd') \<and> parsed_as buf cmd pl (cmd = None) \<and> keeps nd nd'"
  using format_parse_any [OF assms(1), of "os_junk os"] assms(2)
  by (auto simp: node_parse_def parsed_as_def keeps_log_event)

lemma parsed_as_Packet:
  "parsed_as buf (Some r) pl d \<Longrightarrow> is_route_request r \<Longrightarrow>
     \<exists>p. pl = Packet p \<and> packet_ok p \<and> unat (ap_message_len (np_app p)) = declared_len buf"
  "parsed_as buf (Some r) pl d \<Longrightarrow> is_unicast_request r \<Longrightarrow> \<exists>u. pl = Unicast u \<and> unicast_ok u"
  by (auto simp: parsed_as_def payload_message_len_def)

lemma request_of_Some: "request_of b = Some r \<Longrightarrow> b = request_code r"
  by (auto simp: request_of_def find_Some_iff)

lemma keeps_map_pair:
  "\<exists>nd'. x = Some nd' \<and> keeps nd nd' \<Longrightarrow> \<exists>ok nd'. map_option (Pair True) x = Some (ok, nd') \<and> keeps nd nd'"
  by auto

lemma handle_server_any:
  assumes "length buf = MAX_MSG_LEN" and "declared_len buf \<le> APP_MESSAGE_LEN"
  shows "\<exists>ok nd'. handle_server os fd buf nd = Some (ok, nd') \<and> keeps nd nd'"
proof -
  obtain cmd pl nd1 where parse: "node_parse os buf nd = Some (cmd, pl, nd1)" "parsed_as buf cmd pl (cmd = None)"
    and keep: "keeps nd nd1"
    using node_parse_any [OF assms] by blast
  have ping: "\<exists>ok nd'. handle_ping os fd nd1 = Some (ok, nd') \<and> keeps nd1 nd'"
    using handle_ping_eq [of os fd nd1] keeps_trace by metis
  have "\<exists>ok nd'. handle_server os fd buf nd = Some (ok, nd') \<and> keeps nd1 nd'"
  proof (cases cmd)
    case None
    then show ?thesis by (auto simp: handle_server_def parse(1))
  next
    case (Some r)
    note packet = parsed_as_Packet(1) [OF parse(2) [unfolded Some]]
    show ?thesis
    proof (cases "r \<in> {REQUEST_SEND, REQUEST_UNICAST, REQUEST_BROADCAST}")
      case True
      then obtain p where "pl = Packet p" "packet_ok p"
        using packet by (auto simp: is_route_request_def)
      with True parse(1) Some handlers_keep(1-3) [OF \<open>packet_ok p\<close>, of os nd1] show ?thesis
        by (auto simp: handle_server_def)
    next
      case False
      then show ?thesis
        using ping keeps_reset [of nd1] by (cases r) (auto simp: handle_server_def parse(1) Some)
    qed
  qed
  then show ?thesis using keeps_trans [OF keep] by blast
qed

text \<open>Whatever the message, a handler that is defined keeps the invariant.\<close>

definition kept :: "node \<Rightarrow> (bool \<times> node) option \<Rightarrow> bool" where
  "kept nd r \<longleftrightarrow> (case r of None \<Rightarrow> True | Some (_, nd') \<Rightarrow> keeps nd nd')"

lemma kept_simps [simp]: "kept nd None" "kept nd (Some (ok, nd')) \<longleftrightarrow> keeps nd nd'"
  by (simp_all add: kept_def)

lemma kept_Some: "(\<exists>ok nd'. r = Some (ok, nd') \<and> keeps nd nd') \<longleftrightarrow> kept nd r \<and> r \<noteq> None"
  by (cases r) auto

lemma kept_trans: "keeps nd nd1 \<Longrightarrow> kept nd1 r \<Longrightarrow> kept nd r"
  by (cases r) (auto intro: keeps_trans)

lemma kept_route_inverse: "packet_ok p \<Longrightarrow> kept nd (handle_node_route_inverse os p nd)"
  using keeps_route_inverse [of nd os p]
  by (cases "route_inverse os p nd") (simp add: handle_node_route_inverse_eq)

lemma handle_node_any:
  assumes "length buf = MAX_MSG_LEN" and "declared_len buf \<le> APP_MESSAGE_LEN"
  shows "kept nd (handle_node os buf nd) \<and> (safe_message buf \<longrightarrow> handle_node os buf nd \<noteq> None)"
proof -
  obtain cmd pl nd1 where parse: "node_parse os buf nd = Some (cmd, pl, nd1)" "parsed_as buf cmd pl (cmd = None)"
    and keep: "keeps nd nd1"
    using node_parse_any [OF assms] by blast
  have "kept nd1 (handle_node os buf nd) \<and> (safe_message buf \<longrightarrow> handle_node os buf nd \<noteq> None)"
  proof (cases cmd)
    case None
    then show ?thesis by (simp add: handle_node_def parse(1))
  next
    case (Some r)
    note packet = parsed_as_Packet(1) [OF parse(2) [unfolded Some]]
    note unicast = parsed_as_Packet(2) [OF parse(2) [unfolded Some]]
    consider "r \<in> {REQUEST_SEND, REQUEST_ROUTE_DIRECT}" | "r = REQUEST_ROUTE_INVERSE"
      | "r \<in> {REQUEST_UNICAST_CONTEST, REQUEST_UNICAST_FIRST}"
      | "r \<notin> {REQUEST_SEND, REQUEST_ROUTE_DIRECT, REQUEST_ROUTE_INVERSE, REQUEST_UNICAST_CONTEST, REQUEST_UNICAST_FIRST}"
      by blast
    then show ?thesis
    proof cases
      case 1
      then obtain p where "pl = Packet p" "packet_ok p"
        using packet by (auto simp: is_route_request_def)
      with 1 parse(1) Some handlers_keep(4,5) [OF \<open>packet_ok p\<close>, of os nd1] show ?thesis
        by (auto simp: handle_node_def)
    next
      case 2
      then obtain p where p: "pl = Packet p" "packet_ok p" "unat (ap_message_len (np_app p)) = declared_len buf"
        using packet by (auto simp: is_route_request_def)
      have "buf ! 0 = request_code r"
        using parse(2) Some request_of_Some [of "buf ! 0" r] by (simp add: parsed_as_def)
      then have "safe_message buf \<Longrightarrow> unat (ap_message_len (np_app p)) \<le> 147"
        using 2 p(3) by (simp add: safe_message_def)
      with 2 parse(1) Some p(1) handlers_keep(6) [OF p(2), of os nd1] kept_route_inverse [OF p(2), of nd1 os]
      show ?thesis
        by (auto simp: handle_node_def)
    next
      case 3
      then obtain u where "pl = Unicast u" "unicast_ok u"
        using unicast by (auto simp: is_unicast_request_def)
      with 3 parse(1) Some unicast_handlers_keep [OF \<open>unicast_ok u\<close>, of os nd1] show ?thesis
        by (auto simp: handle_node_def)
    next
      case 4
      then show ?thesis
        by (cases r) (simp_all add: handle_node_def parse(1) Some)
    qed
  qed
  then show ?thesis using kept_trans [OF keep] by blast
qed

lemma node_listener_any:
  assumes "length buf = MAX_MSG_LEN"
  shows "kept nd (node_listener_handle_request os fd buf nd)"
    and "safe_message buf \<Longrightarrow> node_listener_handle_request os fd buf nd \<noteq> None"
proof -
  obtain a b q where buf: "buf = a # b # q"
    using assms(1) by (cases buf; cases "tl buf") (auto simp: settings)
  have listener: "node_listener_handle_request os fd buf nd =
     (if b = sender_code REQUEST_SENDER_SERVER then handle_server os fd buf nd
      else if b = sender_code REQUEST_SENDER_NODE then handle_node os buf nd else Some (False, nd))"
    by (simp add: node_listener_handle_request_def buf)
  show "kept nd (node_listener_handle_request os fd buf nd)"
  proof (cases "declared_len buf \<le> APP_MESSAGE_LEN")
    case True
    then show ?thesis
      using handle_server_any [OF assms True, of os fd nd] handle_node_any [OF assms True, of nd os]
      by (auto simp: listener)
  next
    case False
    then have "format_parse (os_junk os) buf = None" using format_parse_any [OF assms, of "os_junk os"] by simp
    then show ?thesis by (simp add: listener handle_server_def handle_node_def node_parse_def)
  qed
  show "node_listener_handle_request os fd buf nd \<noteq> None" if "safe_message buf"
    using that handle_server_any [OF assms, of os fd nd] handle_node_any [OF assms, of nd os]
    by (auto simp: listener safe_message_def)
qed

text \<open>One turn of the node is undefined only if the message it reads is unsafe.\<close>

definition next_message :: "os \<Rightarrow> int \<Rightarrow> node \<Rightarrow> u8 list option" where
  "next_message os fd nd = fst (read_frame os fd (node_trace nd))"

lemma handle_request_any:
  "kept nd (handle_request os fd nd)"
  "handle_request os fd nd = None \<Longrightarrow> \<exists>buf. next_message os fd nd = Some buf \<and> \<not> safe_message buf"
proof -
  obtain frame tr where frame: "read_frame os fd (node_trace nd) = (frame, tr)" by fastforce
  define nd1 where "nd1 = nd\<lparr>nd_net := (nd_net nd)\<lparr>net_trace := tr\<rparr>\<rparr>"
  have keep: "keeps nd nd1" unfolding nd1_def by (rule keeps_trace)
  have "kept nd (handle_request os fd nd) \<and> (handle_request os fd nd = None \<longrightarrow>
     (\<exists>buf. next_message os fd nd = Some buf \<and> \<not> safe_message buf))"
  proof (cases frame)
    case None
    then show ?thesis using keep by (simp add: handle_request_def frame nd1_def Let_def)
  next
    case (Some buf)
    have len: "length buf = MAX_MSG_LEN" using read_frame_length frame Some by metis
    have eq: "handle_request os fd nd = Option.bind (node_listener_handle_request os fd buf nd1) (\<lambda>(_, nd). Some (True, nd))"
      by (simp add: handle_request_def frame Some nd1_def Let_def)
    show ?thesis
      using node_listener_any(1) [OF len, of nd1 os fd] node_listener_any(2) [OF len, of os fd nd1] keep Some frame
      by (cases "node_listener_handle_request os fd buf nd1") (auto simp: eq next_message_def intro: keeps_trans)
  qed
  then show "kept nd (handle_request os fd nd)"
    "handle_request os fd nd = None \<Longrightarrow> \<exists>buf. next_message os fd nd = Some buf \<and> \<not> safe_message buf" by blast+
qed

end
