(* ===== verification/Serving.thy ===== *)
theory Serving
  imports Io "HOL-Library.Multiset"
begin

text \<open>
  The poll loop that the server and every node run: \<^verbatim>\<open>common/src/serving.c\<close>.  The state \<open>'s\<close> of the
  process is threaded through the request handler; \<open>log\<close> adds events to its trace and \<open>trace_of\<close>
  reads it.  The array \<^verbatim>\<open>pfds\<close> is a list as long as its capacity: entries at and behind
  \<^verbatim>\<open>pfd_count\<close> hold what \<^verbatim>\<open>malloc\<close> and \<^verbatim>\<open>realloc\<close> left there or a deleted entry.  Counters are
  natural numbers; they count open descriptors.
\<close>

record pollfd =
  pf_fd :: int
  pf_ready :: bool \<comment> \<open>\<^verbatim>\<open>revents & POLLIN\<close>\<close>

record serving_data =
  sv_server_fd :: int
  sv_pfds :: "pollfd list"
  sv_count :: nat

definition junk_pollfd :: "os \<Rightarrow> nat \<Rightarrow> pollfd" where
  "junk_pollfd os i = \<lparr>pf_fd = sint (os_junk os (8 * i)), pf_ready = odd (os_junk os (8 * i + 6))\<rparr>"

definition serving_init :: "os \<Rightarrow> int \<Rightarrow> serving_data" where
  "serving_init os server_fd =
     \<lparr>sv_server_fd = server_fd,
      sv_pfds = (map (junk_pollfd os) [0..<5])[0 := (junk_pollfd os 0)\<lparr>pf_fd := server_fd\<rparr>],
      sv_count = 1\<rparr>"

definition add_to_pfds :: "os \<Rightarrow> int \<Rightarrow> serving_data \<Rightarrow> serving_data" where
  "add_to_pfds os newfd sv =
     (let pfds = (if sv_count sv = length (sv_pfds sv)
                  then sv_pfds sv @ map (junk_pollfd os) [length (sv_pfds sv)..<2 * length (sv_pfds sv)]
                  else sv_pfds sv) in
      sv\<lparr>sv_pfds := pfds[sv_count sv := (pfds ! sv_count sv)\<lparr>pf_fd := newfd\<rparr>], sv_count := sv_count sv + 1\<rparr>)"

definition del_from_pfds :: "nat \<Rightarrow> serving_data \<Rightarrow> serving_data" where
  "del_from_pfds i sv =
     sv\<lparr>sv_pfds := (sv_pfds sv)[i := sv_pfds sv ! (sv_count sv - 1)], sv_count := sv_count sv - 1\<rparr>"

definition serving_free :: "serving_data \<Rightarrow> os_event list" where
  "serving_free sv = map (\<lambda>p. EvClose (pf_fd p)) (take (sv_count sv) (sv_pfds sv))"

text \<open>
  The manual page of \<^verbatim>\<open>accept\<close>: a negative number, or a descriptor that was not open, so not the
  listening socket.
\<close>

definition accept_call :: "os \<Rightarrow> trace \<Rightarrow> int \<Rightarrow> int" where
  "accept_call os tr fd = (let r = os_accept os tr fd in if r < 0 \<or> r = fd then -1 else r)"

definition pf_at :: "serving_data \<Rightarrow> nat \<Rightarrow> pollfd" where
  "pf_at sv i = sv_pfds sv ! i"

text \<open>
  The loop of \<^verbatim>\<open>serving_poll\<close> (\<open>None\<close> if it would leave the array).  Its bound \<^verbatim>\<open>pfd_count\<close> moves while it runs: an accepted connection
  is visited in the same round (its \<^verbatim>\<open>revents\<close> being what the slot held), and after a deletion the
  entry moved into the hole is not.
\<close>

function serving_scan ::
  "os \<Rightarrow> ('s \<Rightarrow> trace) \<Rightarrow> (os_event \<Rightarrow> 's \<Rightarrow> 's) \<Rightarrow> (int \<Rightarrow> 's \<Rightarrow> (bool \<times> 's) option)
     \<Rightarrow> nat \<Rightarrow> serving_data \<Rightarrow> 's \<Rightarrow> (serving_data \<times> 's) option" where
  "serving_scan os trace_of log handle_request i sv s =
     (if sv_count sv > length (sv_pfds sv) then None
      else if i < sv_count sv then
        (if pf_ready (pf_at sv i) then
           (if pf_fd (pf_at sv i) = sv_server_fd sv then
              (let newfd = accept_call os (trace_of s) (sv_server_fd sv);
                   s = log (EvAccept (sv_server_fd sv) newfd) s in
               if newfd = -1
               then serving_scan os trace_of log handle_request (Suc i) sv s
               else serving_scan os trace_of log handle_request (Suc i) (add_to_pfds os newfd sv) s)
            else
              (case handle_request (pf_fd (pf_at sv i)) s of
                 None \<Rightarrow> None
               | Some (res, s) \<Rightarrow>
                   if \<not> res
                   then serving_scan os trace_of log handle_request (Suc i) (del_from_pfds i sv)
                          (log (EvClose (pf_fd (pf_at sv i))) s)
                   else serving_scan os trace_of log handle_request (Suc i) sv s))
         else serving_scan os trace_of log handle_request (Suc i) sv s)
      else Some (sv, s))"
  by pat_completeness blast

text \<open>Listening entries still to come count twice: each can add one entry, which is not listening.\<close>

definition scan_weight :: "serving_data \<Rightarrow> nat \<Rightarrow> nat" where
  "scan_weight sv i = (\<Sum>k \<in> {i..<sv_count sv}. if pf_fd (pf_at sv k) = sv_server_fd sv then 2 else 1)"

lemma add_to_pfds_simps [simp]:
  "sv_server_fd (add_to_pfds os newfd sv) = sv_server_fd sv"
  "sv_count (add_to_pfds os newfd sv) = sv_count sv + 1"
  by (simp_all add: add_to_pfds_def Let_def)

lemma pf_at_add:
  assumes "sv_count sv \<le> length (sv_pfds sv)"
  shows "k < sv_count sv \<Longrightarrow> pf_at (add_to_pfds os newfd sv) k = pf_at sv k"
    and "0 < sv_count sv \<Longrightarrow> pf_fd (pf_at (add_to_pfds os newfd sv) (sv_count sv)) = newfd"
  using assms by (auto simp: add_to_pfds_def pf_at_def Let_def nth_append nth_list_update mult_2)

lemma del_from_pfds_simps [simp]:
  "sv_server_fd (del_from_pfds i sv) = sv_server_fd sv"
  "sv_count (del_from_pfds i sv) = sv_count sv - 1"
  "length (sv_pfds (del_from_pfds i sv)) = length (sv_pfds sv)"
  by (simp_all add: del_from_pfds_def)

lemma pf_at_del: "k \<noteq> i \<Longrightarrow> pf_at (del_from_pfds i sv) k = pf_at sv k"
  by (simp add: del_from_pfds_def pf_at_def)

lemma scan_weight_Suc:
  "i < sv_count sv \<Longrightarrow> scan_weight sv i
     = (if pf_fd (pf_at sv i) = sv_server_fd sv then 2 else 1) + scan_weight sv (Suc i)"
  by (simp add: scan_weight_def sum.atLeast_Suc_lessThan)

lemma scan_weight_add:
  assumes "sv_count sv \<le> length (sv_pfds sv)" and "i < sv_count sv" and "newfd \<noteq> sv_server_fd sv"
  shows "scan_weight (add_to_pfds os newfd sv) (Suc i) = scan_weight sv (Suc i) + 1"
proof -
  have "scan_weight (add_to_pfds os newfd sv) (Suc i)
    = (\<Sum>k \<in> {Suc i..<sv_count sv}. if pf_fd (pf_at sv k) = sv_server_fd sv then 2 else 1) + 1"
    using assms by (simp add: scan_weight_def pf_at_add)
  then show ?thesis by (simp add: scan_weight_def)
qed

lemma scan_weight_del: "scan_weight (del_from_pfds i sv) (Suc i) \<le> scan_weight sv (Suc i)"
proof -
  have "scan_weight (del_from_pfds i sv) (Suc i)
    = (\<Sum>k \<in> {Suc i..<sv_count sv - 1}. if pf_fd (pf_at sv k) = sv_server_fd sv then 2 else 1)"
    by (simp add: scan_weight_def pf_at_del)
  also have "\<dots> \<le> scan_weight sv (Suc i)"
    unfolding scan_weight_def by (rule sum_mono2) auto
  finally show ?thesis .
qed

lemma accept_call_not_listening: "accept_call os tr fd \<noteq> -1 \<Longrightarrow> accept_call os tr fd \<noteq> fd"
  by (auto simp: accept_call_def Let_def split: if_splits)

termination serving_scan
proof (relation "measure (\<lambda>(os, trace_of, log, h, i, sv, s). scan_weight sv i)", goal_cases)
  case (3 os trace_of log h i sv s newfd s')
  then show ?case
    using accept_call_not_listening [of os "trace_of s" "sv_server_fd sv"]
    by (simp add: scan_weight_Suc [of i] scan_weight_add)
next
  case (4 os trace_of log h i sv s r res s')
  then show ?case
    using scan_weight_del [of i sv] by (simp add: scan_weight_Suc [of i])
qed (simp_all add: scan_weight_Suc [of i for i])

declare serving_scan.simps [simp del]

text \<open>One call of \<^verbatim>\<open>serving_poll\<close>: a failed \<^verbatim>\<open>poll\<close> ends the process.\<close>

definition serving_poll ::
  "os \<Rightarrow> ('s \<Rightarrow> trace) \<Rightarrow> (os_event \<Rightarrow> 's \<Rightarrow> 's) \<Rightarrow> (int \<Rightarrow> 's \<Rightarrow> (bool \<times> 's) option)
     \<Rightarrow> serving_data \<Rightarrow> 's \<Rightarrow> (serving_data \<times> 's) option" where
  "serving_poll os trace_of log handle_request sv s =
     (case os_poll os (trace_of s) (sv_count sv) of
        None \<Rightarrow> Some (sv, log (EvExit 1) (log (EvPoll (sv_count sv)) s))
      | Some ready \<Rightarrow>
          serving_scan os trace_of log handle_request 0
            (sv\<lparr>sv_pfds := map (\<lambda>i. if i < sv_count sv then (pf_at sv i)\<lparr>pf_ready := ready i\<rparr> else pf_at sv i)
                [0..<length (sv_pfds sv)]\<rparr>)
            (log (EvPoll (sv_count sv)) s))"

subsection \<open>The watched descriptors\<close>

text \<open>The listening socket is always entry 0, and the entries in use are inside the array.\<close>

definition serving_ok :: "serving_data \<Rightarrow> bool" where
  "serving_ok sv \<longleftrightarrow> 0 < sv_count sv \<and> sv_count sv \<le> length (sv_pfds sv) \<and> pf_fd (pf_at sv 0) = sv_server_fd sv"

definition watched :: "serving_data \<Rightarrow> int list" where
  "watched sv = map pf_fd (take (sv_count sv) (sv_pfds sv))"

lemma serving_ok_init: "serving_ok (serving_init os fd)" "watched (serving_init os fd) = [fd]"
  by (simp_all add: serving_ok_def watched_def serving_init_def pf_at_def numeral_eq_Suc)

lemma serving_ok_add: "serving_ok sv \<Longrightarrow> serving_ok (add_to_pfds os newfd sv)"
  by (auto simp: serving_ok_def pf_at_add) (simp add: add_to_pfds_def Let_def)

lemma serving_ok_del:
  "serving_ok sv \<Longrightarrow> 0 < i \<Longrightarrow> i < sv_count sv \<Longrightarrow> serving_ok (del_from_pfds i sv)"
  by (auto simp: serving_ok_def pf_at_del)

lemma watched_add: "serving_ok sv \<Longrightarrow> watched (add_to_pfds os newfd sv) = watched sv @ [newfd]"
  by (auto simp: watched_def serving_ok_def add_to_pfds_def Let_def take_Suc_conv_app_nth mult_2)

lemma mset_watched_del:
  assumes "serving_ok sv" and "i < sv_count sv"
  shows "mset (watched (del_from_pfds i sv)) = mset (watched sv) - {#pf_fd (pf_at sv i)#}"
proof -
  define xs where "xs = take (sv_count sv) (sv_pfds sv)"
  have len: "length xs = sv_count sv" using assms(1) by (simp add: xs_def serving_ok_def)
  then obtain ys y where ys: "xs = ys @ [y]" using assms(2) by (cases xs rule: rev_cases) auto
  have last: "sv_count sv - 1 = length ys" using len ys by simp
  have "xs ! length ys = sv_pfds sv ! length ys"
    unfolding xs_def by (rule nth_take) (use last assms(2) in linarith)
  then have y: "sv_pfds sv ! (sv_count sv - 1) = y" using last by (simp add: ys)
  have "length ys \<le> sv_count sv" using last by simp
  then have "take (sv_count sv - 1) (sv_pfds sv) = ys"
    using arg_cong [OF ys, of "take (length ys)"] last assms(2) by (simp add: xs_def min_def)
  then have del: "watched (del_from_pfds i sv) = map pf_fd (ys[i := y])"
    by (simp add: watched_def del_from_pfds_def take_update_swap y [unfolded One_nat_def])
  have at: "pf_at sv i = xs ! i" using assms(2) by (simp add: pf_at_def xs_def)
  have all: "watched sv = map pf_fd (ys @ [y])" by (simp add: watched_def xs_def [symmetric] ys)
  show ?thesis
  proof (cases "i < length ys")
    case True
    then show ?thesis by (simp add: del all at ys nth_append map_update mset_update)
  next
    case False
    then have i: "i = length ys" using len ys assms(2) by simp
    show ?thesis by (simp add: i del [unfolded i] all at [unfolded i] ys list_update_beyond)
  qed
qed

subsection \<open>What the loop keeps\<close>

text \<open>
  A handler keeps \<open>invar\<close> whenever it is defined; then the loop does, and it is undefined only
  where the handler is.
\<close>

locale poll_loop =
  fixes trace_of :: "'s \<Rightarrow> trace" and log :: "os_event \<Rightarrow> 's \<Rightarrow> 's"
    and handle :: "int \<Rightarrow> 's \<Rightarrow> (bool \<times> 's) option" and invar :: "'s \<Rightarrow> bool"
  assumes invar_log: "invar s \<Longrightarrow> invar (log e s)"
    and invar_handle: "invar s \<Longrightarrow> handle fd s = Some (res, s') \<Longrightarrow> invar s'"
begin

definition undefined_on :: "'s \<Rightarrow> bool" where
  "undefined_on s \<longleftrightarrow> (\<exists>fd. handle fd s = None)"

definition round_ok :: "serving_data \<Rightarrow> (serving_data \<times> 's) option \<Rightarrow> bool" where
  "round_ok sv r \<longleftrightarrow> (case r of
      None \<Rightarrow> \<exists>s. invar s \<and> undefined_on s
    | Some (sv', s') \<Rightarrow> serving_ok sv' \<and> invar s' \<and> sv_server_fd sv' = sv_server_fd sv)"

lemma round_ok_same: "sv_server_fd sv = sv_server_fd sv' \<Longrightarrow> round_ok sv r = round_ok sv' r"
  by (auto simp: round_ok_def split: option.split)

lemma scan_round:
  "serving_ok sv \<Longrightarrow> invar s \<Longrightarrow> round_ok sv (serving_scan os trace_of log handle i sv s)"
proof (induction "scan_weight sv i" arbitrary: i sv s rule: less_induct)
  case less
  let ?p = "pf_at sv i" and ?new = "accept_call os (trace_of s) (sv_server_fd sv)"
  have count: "sv_count sv \<le> length (sv_pfds sv)" using less.prems by (simp add: serving_ok_def)
  note scan = serving_scan.simps [of os trace_of log handle i sv s]
  have next_i: "round_ok sv (serving_scan os trace_of log handle (Suc i) sv x)" if "invar x" "i < sv_count sv" for x
    using less.hyps [of sv "Suc i" x] less.prems that by (simp add: scan_weight_Suc [of i])
  consider "\<not> i < sv_count sv" | "i < sv_count sv" "\<not> pf_ready ?p"
    | "i < sv_count sv" "pf_ready ?p" "pf_fd ?p = sv_server_fd sv"
    | "i < sv_count sv" "pf_ready ?p" "pf_fd ?p \<noteq> sv_server_fd sv" by blast
  then show ?case
  proof cases
    case 1
    then show ?thesis using less.prems count by (simp add: scan round_ok_def)
  next
    case 2
    then show ?thesis using next_i less.prems count by (simp add: scan)
  next
    case 3
    have s: "invar (log (EvAccept (sv_server_fd sv) ?new) s)" using less.prems invar_log by blast
    show ?thesis
    proof (cases "?new = -1")
      case True
      then show ?thesis using 3 next_i [OF s] count by (simp add: scan Let_def)
    next
      case False
      then have "scan_weight (add_to_pfds os ?new sv) (Suc i) < scan_weight sv i"
        using 3 accept_call_not_listening by (simp add: scan_weight_Suc [of i] scan_weight_add count)
      from less.hyps [OF this serving_ok_add s] less.prems
      show ?thesis using 3 False count by (simp add: scan Let_def round_ok_same [of sv "add_to_pfds os ?new sv"])
    qed
  next
    case 4
    show ?thesis
    proof (cases "handle (pf_fd ?p) s")
      case None
      then show ?thesis using 4 less.prems count by (auto simp: scan round_ok_def undefined_on_def)
    next
      case (Some r)
      then obtain res s' where r: "handle (pf_fd ?p) s = Some (res, s')" by (cases r) auto
      have s': "invar s'" using invar_handle [OF _ r] less.prems by blast
      show ?thesis
      proof (cases res)
        case True
        then show ?thesis using 4 r next_i [OF s'] count by (simp add: scan)
      next
        case False
        have "0 < i" using 4 less.prems by (cases i) (auto simp: serving_ok_def)
        then have del: "serving_ok (del_from_pfds i sv)"
          using 4 less.prems by (simp add: serving_ok_del)
        have "scan_weight (del_from_pfds i sv) (Suc i) < scan_weight sv i"
          using 4 scan_weight_del [of i sv] by (simp add: scan_weight_Suc [of i])
        from less.hyps [OF this del invar_log [OF s']]
        show ?thesis using 4 False r count by (simp add: scan round_ok_same [of sv "del_from_pfds i sv"])
      qed
    qed
  qed
qed

lemma poll_round:
  assumes "serving_ok sv" and "invar s"
  shows "round_ok sv (serving_poll os trace_of log handle sv s)"
proof (cases "os_poll os (trace_of s) (sv_count sv)")
  case None
  then show ?thesis using assms by (simp add: serving_poll_def round_ok_def invar_log)
next
  case (Some ready)
  define sv1 where "sv1 = sv\<lparr>sv_pfds := map (\<lambda>i. if i < sv_count sv then (pf_at sv i)\<lparr>pf_ready := ready i\<rparr> else pf_at sv i)
      [0..<length (sv_pfds sv)]\<rparr>"
  have "0 < length (sv_pfds sv)" using assms(1) unfolding serving_ok_def by linarith
  then have "serving_ok sv1"
    using assms(1) by (auto simp: serving_ok_def sv1_def pf_at_def)
  from scan_round [OF this invar_log [OF assms(2)]] show ?thesis
    by (simp add: serving_poll_def Some sv1_def [symmetric] round_ok_same [of sv sv1])
      (simp add: sv1_def round_ok_same [of sv "sv\<lparr>sv_pfds := x\<rparr>" for x])
qed

end

end
