(* ===== verification/Node.thy ===== *)
theory Node
  imports Node_Listener Serving Libc
begin

text \<open>
  The node process: \<^verbatim>\<open>node/src/node.c\<close>.  Start-up, then \<^verbatim>\<open>serving_poll\<close> until a signal clears
  \<^verbatim>\<open>keeprunning\<close>.  \<open>die\<close> raises \<^verbatim>\<open>SIGTERM\<close>, which the node handles, so that the statements after
  it run.  \<open>node_reachable\<close> are the states of the poll loop.
\<close>

subsection \<open>Start-up\<close>

text \<open>Static storage before \<^verbatim>\<open>main\<close>.\<close>

definition static_node :: "trace \<Rightarrow> node" where
  "static_node tr = \<lparr>nd_addr = 0,
     nd_routing = \<lparr>rt_nodes = replicate NODE_COUNT \<lparr>rn_addr = 0, rn_metric = 0\<rparr>, rt_len = 0\<rparr>,
     nd_apps = replicate APPS_COUNT \<lparr>at_node_addr = 0, at_app_addr = 0\<rparr>,
     nd_messages = initial_messages, nd_neighbors = initial_neighbors, nd_net = initial_net tr\<rparr>"

text \<open>
  The result, \<^verbatim>\<open>server.addr\<close> and \<^verbatim>\<open>*port\<close> afterwards; \<open>port0\<close> is the caller's variable before.
\<close>

definition parse_args :: "string list \<Rightarrow> u8 \<Rightarrow> u16 \<Rightarrow> bool \<times> u8 \<times> u16" where
  "parse_args args addr0 port0 =
     (if length args \<noteq> 2 then (False, addr0, port0)
      else case strtol10 (args ! 1) of
          None \<Rightarrow> (False, 0, port0)
        | Some v \<Rightarrow> (let addr = word_of_int v in (True, addr, node_port addr)))"

definition die_unless :: "bool \<Rightarrow> trace \<Rightarrow> trace" where
  "die_unless ok tr = (if ok then tr else tr @ [EvSigterm])"

definition update_node_state :: "os \<Rightarrow> u8 \<Rightarrow> u16 \<Rightarrow> trace \<Rightarrow> (bool \<times> trace) option" where
  "update_node_state os addr port tr =
     (case connection_socket_to_send os SERVER_PORT tr of (server_fd, tr) \<Rightarrow>
        let tr = die_unless (\<not> server_fd < 0) tr;
            pl = \<lparr>nu_pid = os_getpid os, nu_port = port, nu_addr = addr\<rparr> in do {
          (buf, buf_len, _) \<leftarrow> format_create REQUEST_UPDATE (Update pl) (os_getpid os)
             (uninit (os_junk os) (sizeof_node_update + MSG_BASE_LEN), os_junk os 0) REQUEST_SENDER_NODE;
          (status, tr) \<leftarrow> io_write_all os server_fd buf buf_len tr;
          Some (status, tr @ [EvClose server_fd]) })"

definition node_init :: "os \<Rightarrow> string list \<Rightarrow> trace \<Rightarrow> (serving_data \<times> node) option" where
  "node_init os args tr =
     (let nd = static_node tr in
      case parse_args args (nd_addr nd) (u16_of_bytes (os_junk os 0) (os_junk os 1)) of (ok, addr, port) \<Rightarrow> do {
        let tr = die_unless ok tr;
        let routing = routing_table_fill_default (nd_routing nd);
        let apps = node_app_fill_default (nd_apps nd) addr;
        neighbors \<leftarrow> node_essentials_fill_neighbors_port addr (nd_neighbors nd);
        (case connection_socket_to_listen os port tr of (node_server_fd, tr) \<Rightarrow> do {
           let tr = die_unless (\<not> node_server_fd < 0) tr;
           (updated, tr) \<leftarrow> update_node_state os addr port tr;
           let tr = die_unless updated tr;
           Some (serving_init os node_server_fd,
             nd\<lparr>nd_addr := addr, nd_routing := routing, nd_apps := apps, nd_neighbors := neighbors,
                nd_net := (nd_net nd)\<lparr>net_trace := tr\<rparr>\<rparr>) }) })"

subsection \<open>The main loop\<close>

text \<open>\<^verbatim>\<open>SIGINT\<close> and \<^verbatim>\<open>SIGTERM\<close> of other processes arrive between two rounds as an \<open>EvSigterm\<close>.\<close>

definition keeprunning :: "trace \<Rightarrow> bool" where
  "keeprunning tr \<longleftrightarrow> EvSigterm \<notin> set tr \<and> (\<forall>k. EvExit k \<notin> set tr)"

definition node_log :: "os_event \<Rightarrow> node \<Rightarrow> node" where
  "node_log e = node_log_event [e]"

definition node_poll :: "os \<Rightarrow> serving_data \<Rightarrow> node \<Rightarrow> (serving_data \<times> node) option" where
  "node_poll os sv nd = serving_poll os node_trace node_log (handle_request os) sv nd"

definition node_shutdown :: "serving_data \<Rightarrow> int \<Rightarrow> node \<Rightarrow> node" where
  "node_shutdown sv node_server_fd nd = (let nd = node_log_event (serving_free sv @ [EvClose node_server_fd]) nd in
     nd\<lparr>nd_net := node_essentials_reset_connections (nd_net nd)\<rparr>)"

inductive node_reachable :: "os \<Rightarrow> string list \<Rightarrow> serving_data \<Rightarrow> node \<Rightarrow> bool" for os args where
  start: "node_init os args tr = Some (sv, nd) \<Longrightarrow> node_reachable os args sv nd"
| round: "node_reachable os args sv nd \<Longrightarrow> keeprunning (node_trace nd) \<Longrightarrow>
    node_poll os sv nd = Some (sv', nd') \<Longrightarrow> node_reachable os args sv' nd'"
| signal: "node_reachable os args sv nd \<Longrightarrow> node_reachable os args sv (node_log EvSigterm nd)"

inductive_cases node_reachableE: "node_reachable os args sv nd"

subsection \<open>The invariant of a running node\<close>

lemma u16_of_bytes_parse: "parse_args args a p = (ok, addr, port) \<Longrightarrow> ok \<Longrightarrow> port = node_port addr"
  by (auto simp: parse_args_def Let_def split: if_splits option.splits)

lemma update_node_state_total: "\<exists>ok tr'. update_node_state os addr port tr = Some (ok, tr')"
proof -
  let ?pl = "Update \<lparr>nu_pid = os_getpid os, nu_port = port, nu_addr = addr\<rparr>"
  let ?m = "wire_message REQUEST_UPDATE ?pl (os_getpid os) REQUEST_SENDER_NODE"
  have len: "length ?m = 10" using length_wire_message(3) [of ?pl] by (simp add: wire_len.simps)
  obtain fd tr1 where conn: "connection_socket_to_send os SERVER_PORT tr = (fd, tr1)" by fastforce
  obtain ok tr2 where "io_write_all os fd ?m 10 (die_unless (\<not> fd < 0) tr1) = Some (ok, tr2)"
    using io_write_all_total [of 10 ?m os fd "die_unless (\<not> fd < 0) tr1"] len by auto
  then show ?thesis
    by (simp add: update_node_state_def conn Let_def format_create_uninit fits_def len sizeof_eqs wire_len.simps)
qed

lemma fill_neighbors_total: "\<exists>nb. node_essentials_fill_neighbors_port addr initial_neighbors = Some nb"
proof (cases "unat addr < NODE_COUNT")
  case True
  then show ?thesis using fill_neighbors by blast
next
  case False
  then have "10 \<le> unat addr div 10" by (simp add: settings)
  then show ?thesis
    by (simp add: node_essentials_fill_neighbors_port_def fill_broadcast_neighbors_def settings)
qed

lemma node_init_ok:
  "\<exists>sv nd. node_init os args tr = Some (sv, nd) \<and> serving_ok sv \<and> node_ok nd"
proof -
  obtain ok addr port where args: "parse_args args 0 (u16_of_bytes (os_junk os 0) (os_junk os 1)) = (ok, addr, port)"
    using prod_cases3 by blast
  obtain nb where nb: "node_essentials_fill_neighbors_port addr initial_neighbors = Some nb"
    using fill_neighbors_total by blast
  obtain fd tr1 where listen: "connection_socket_to_listen os port (die_unless ok tr) = (fd, tr1)" by fastforce
  obtain upd tr2 where upd: "update_node_state os addr port (die_unless (\<not> fd < 0) tr1) = Some (upd, tr2)"
    using update_node_state_total by blast
  define nd where "nd = (static_node tr)\<lparr>nd_addr := addr,
     nd_routing := routing_table_fill_default (nd_routing (static_node tr)),
     nd_apps := node_app_fill_default (nd_apps (static_node tr)) addr, nd_neighbors := nb,
     nd_net := (nd_net (static_node tr))\<lparr>net_trace := die_unless upd tr2\<rparr>\<rparr>"
  have "nd_addr (static_node tr) = 0" "nd_neighbors (static_node tr) = initial_neighbors"
    by (simp_all add: static_node_def)
  then have "node_init os args tr = Some (serving_init os fd, nd)"
    by (simp add: node_init_def args [unfolded One_nat_def] nb listen upd Let_def nd_def)
  moreover have "routing_ok (nd_routing (static_node tr))" "length (nd_apps (static_node tr)) = APPS_COUNT"
    "messages_ok (nd_messages (static_node tr))" "net_ok (nd_net (static_node tr))"
    by (simp_all add: static_node_def routing_ok_def messages_ok_initial net_ok_def initial_net_def)
  then have "node_ok nd"
    by (simp add: node_ok_def nd_def nb routes.invar_clear node_app_fill_default_ok net_ok_def)
  ultimately show ?thesis by (simp add: serving_ok_init)
qed

interpretation node_loop: poll_loop node_trace node_log "handle_request os" "\<lambda>nd. node_ok nd \<and> nd_addr nd = a"
  for os a
proof unfold_locales
  show "node_ok (node_log e nd) \<and> nd_addr (node_log e nd) = a" if "node_ok nd \<and> nd_addr nd = a" for nd e
    using keeps_log_event [of nd "[e]"] that by (simp add: node_log_def keeps_def)
  show "node_ok nd' \<and> nd_addr nd' = a" if "node_ok nd \<and> nd_addr nd = a" "handle_request os fd nd = Some (res, nd')"
    for nd fd res nd'
    using handle_request_any(1) [of nd os fd] that by (simp add: keeps_def)
qed

lemma node_reachable_invariant:
  "node_reachable os args sv nd \<Longrightarrow> serving_ok sv \<and> node_ok nd"
proof (induction rule: node_reachable.induct)
  case (start tr sv nd)
  then show ?case using node_init_ok [of os args tr] by auto
next
  case (round sv nd sv' nd')
  then show ?case
    using node_loop.poll_round [of sv nd "nd_addr nd" os os] by (simp add: node_poll_def node_loop.round_ok_def)
next
  case (signal sv nd)
  then show ?case using keeps_log_event [of nd] by (simp add: node_log_def keeps_def)
qed

end
