(* ===== verification/Node_Behaviour.thy ===== *)
theory Node_Behaviour
  imports Node
begin

text \<open>
  Consequences of the handler equations of \<open>Node_Spec\<close> that involve more than one request or more
  than one process: acting once per message id, what a successful send puts on a connection,
  and the link from the bytes one node transmits to the handler of another.
\<close>

subsection \<open>Once per message id\<close>

definition handled :: "node \<Rightarrow> u16 \<Rightarrow> bool" where
  "handled nd mid \<longleftrightarrow> is_id_set (nd_messages nd) mid \<and> flag_of md_was_message (nd_messages nd) mid"

lemma once_inverse_keeps:
  assumes "messages_ok s" and "is_id_set s mid"
  shows "is_id_set (snd (inverse.once s mid)) m = is_id_set s m"
    and "flag_of md_was_message (snd (inverse.once s mid)) m = flag_of md_was_message s m"
proof -
  let ?upd = "update_messages s mid (\<lambda>m. m\<lparr>md_stop_inverse := True\<rparr>)"
  have upd: "is_id_set ?upd m = is_id_set s m" "flag_of md_was_message ?upd m = flag_of md_was_message s m"
    by (rule update_messages_known(1) [OF assms(1)], simp)
      (subst update_messages_known(2) [OF assms(1)], simp_all add: flag_of_def split: option.split)
  have "snd (inverse.once s mid) \<in> {s, ?upd}"
    by (simp add: inverse.once_eq assms(1) inverse.get_known [OF assms] put_eq [OF assms])
  then show "is_id_set (snd (inverse.once s mid)) m = is_id_set s m"
    "flag_of md_was_message (snd (inverse.once s mid)) m = flag_of md_was_message s m"
    using upd by auto
qed

lemma delivered_messages: "nd_messages (snd (delivered os p nd)) = snd (inverse.once (nd_messages nd) (ap_id (np_app p)))"
  by (simp add: delivered_def Let_def case_prod_beta report_def split: option.split)

text \<open>A packet that passes the checks of \<^verbatim>\<open>handle_node_route_direct\<close> leaves its id marked.\<close>

lemma route_direct_handled:
  assumes "messages_ok (nd_messages nd)" and "sint (np_time_to_live p) > 0" and "valid_crc p"
  shows "handled (snd (route_direct os p nd)) (ap_id (np_app p))"
proof -
  let ?m = "ap_id (np_app p)"
  define ms where "ms = snd (was_message.once (nd_messages nd) ?m)"
  have ok: "messages_ok ms" unfolding ms_def by (rule was_message.once_invar [OF assms(1)])
  have marked: "is_id_set ms ?m" "flag_of md_was_message ms ?m"
    using was_message.once_marks [OF assms(1)] by (simp_all add: ms_def)
  have "nd_messages (snd (route_direct os p nd)) \<in> {ms, snd (inverse.once ms ?m)}"
    using assms(2,3) by (auto simp: route_direct_def Let_def case_prod_beta ms_def delivered_messages relay_def)
  then show ?thesis
    using marked once_inverse_keeps [OF ok marked(1), of ?m] by (auto simp: handled_def)
qed

lemma route_direct_drops_handled:
  assumes "messages_ok (nd_messages nd)" and "handled nd (ap_id (np_app q))" and "sint (np_time_to_live q) > 0"
    and "valid_crc q"
  shows "route_direct os q nd = (False, nd)"
  using assms by (simp add: route_direct_def was_message.once_eq handled_def)

text \<open>The same for the winner of a unicast contest.\<close>

definition contest_won :: "node \<Rightarrow> u16 \<Rightarrow> bool" where
  "contest_won nd mid \<longleftrightarrow> is_id_set (nd_messages nd) mid \<and> flag_of md_unicast_first (nd_messages nd) mid"

lemma unicast_first_won:
  assumes "messages_ok (nd_messages nd)" and "unicast_ok u" and "handle_unicast_first os u nd = Some nd'"
  shows "contest_won nd' (ap_id (uc_app u))"
proof -
  let ?m = "ap_id (uc_app u)" and ?get = "get_unicast_status_by_id (nd_messages nd) (ap_id (uc_app u))"
  have known: "is_id_set (snd ?get) ?m" "messages_ok (snd ?get)"
    using unicast_first.get_cases [OF assms(1)] unicast_first.invar_get [OF assms(1)] by blast+
  have put: "is_id_set (set_unicast_status_by_id (snd ?get) ?m True) ?m"
    "flag_of md_unicast_first (set_unicast_status_by_id (snd ?get) ?m True) ?m"
    using unicast_first.known_put [OF known(2,1)] unicast_first.flag_put [OF known(2,1) known(1)] known by simp_all
  have again: "fst ?get = Some True \<Longrightarrow> flag_of md_unicast_first (nd_messages nd) ?m \<and> snd ?get = nd_messages nd"
    using unicast_first.get_cases(2) [OF assms(1), of ?m] unicast_first.get_known [OF assms(1), of ?m]
    by (auto split: if_splits)
  show ?thesis
    using assms(3) put known again
    by (auto simp: handle_unicast_first_eq [OF assms(2)] Let_def case_prod_beta contest_won_def split: if_splits)
qed

lemma unicast_first_ignored:
  assumes "messages_ok (nd_messages nd)" and "contest_won nd (ap_id (uc_app u))" and "unicast_ok u"
  shows "handle_unicast_first os u nd = Some nd"
  using assms unicast_first.get_known [of "nd_messages nd" "ap_id (uc_app u)"]
  by (simp add: handle_unicast_first_eq contest_won_def)

text \<open>The distance a packet has come, as long as its time to live is one that a node ever sets.\<close>

lemma packet_metric_exact:
  assumes "0 \<le> sint (np_time_to_live p)" and "sint (np_time_to_live p) \<le> TTL"
  shows "sint (packet_metric p) = TTL - sint (np_time_to_live p) + 1"
proof -
  have "sint (word_of_int x :: i8) = x" if "-128 \<le> x" "x < 128" for x
    using that signed_take_bit_int_eq_self [of 7 x] by (simp add: signed_of_int)
  from this [of "TTL - sint (np_time_to_live p) + 1"] show ?thesis
    using assms unfolding packet_metric_def by (simp only: settings)
qed

subsection \<open>Reused slots\<close>

text \<open>
  A slot that is filled before the table is full keeps the flags it has: after the table has
  wrapped round, those of an older message.
\<close>

lemma set_new_id_keeps_flags:
  assumes "messages_ok s" and "ms_num s < MAX_MESSAGE_DATA" and "\<not> is_id_set s mid"
  shows "find_message (set_new_id s mid) mid = Some ((ms_messages s ! ms_num s)\<lparr>md_id := mid\<rparr>)"
proof -
  have "visible (set_new_id s mid) = visible s @ [(ms_messages s ! ms_num s)\<lparr>md_id := mid\<rparr>]"
    using assms(1,2) by (simp add: visible_def set_new_id_def messages_ok_def take_Suc_conv_app_nth settings)
  moreover have "find (\<lambda>m. md_id m = mid) (visible s) = None"
    using assms(3) find_message_None by (simp add: find_message_def)
  ultimately show ?thesis
    by (simp add: find_message_def find_append)
qed

lemma fresh_was_message:
  assumes "messages_ok s" and "ms_init s" and "ms_num s < MAX_MESSAGE_DATA" and "\<not> is_id_set s mid"
  shows "fst (was_message.once s mid)"
    and "find_message (snd (was_message.once s mid)) mid
       = Some ((ms_messages s ! ms_num s)\<lparr>md_id := mid, md_was_message := True\<rparr>)"
proof -
  have s: "init_messages_data s = s" using assms(2) by (simp add: init_messages_data_def)
  have new: "messages_ok (set_new_id s mid)" "is_id_set (set_new_id s mid) mid"
    using set_new_id_ok [OF assms(1,2)] by blast+
  have once: "was_message.once s mid = (True, update_messages (set_new_id s mid) mid (\<lambda>m. m\<lparr>md_was_message := True\<rparr>))"
    using assms(4) by (simp add: was_message.once_eq assms(1) get_eq s put_eq(2) [OF new])
  then show "fst (was_message.once s mid)" by simp
  have "find_message (update_messages (set_new_id s mid) mid (\<lambda>m. m\<lparr>md_was_message := True\<rparr>)) mid
      = map_option (\<lambda>m. if mid = mid then m\<lparr>md_was_message := True\<rparr> else m) (find_message (set_new_id s mid) mid)"
    unfolding find_message_def visible_update [OF new(1)] by (rule find_map_if) simp
  then show "find_message (snd (was_message.once s mid)) mid
       = Some ((ms_messages s ! ms_num s)\<lparr>md_id := mid, md_was_message := True\<rparr>)"
    by (simp add: once set_new_id_keeps_flags [OF assms(1,3,4)])
qed

text \<open>
  So a new message for this very node is swallowed: no answer, no delivery, no report to the
  server.
\<close>

lemma stale_slot_swallows:
  assumes s: "messages_ok (nd_messages nd)" "ms_init (nd_messages nd)" "ms_num (nd_messages nd) < MAX_MESSAGE_DATA"
    and fresh: "\<not> is_id_set (nd_messages nd) (ap_id (np_app p))"
    and stale: "md_stop_inverse (ms_messages (nd_messages nd) ! ms_num (nd_messages nd))"
    and p: "sint (np_time_to_live p) > 0" "valid_crc p" "np_receiver_addr p = nd_addr nd"
  shows "fst (route_direct os p nd) \<and> nd_net (snd (route_direct os p nd)) = nd_net nd"
proof -
  let ?m = "ap_id (np_app p)"
  define ms where "ms = snd (was_message.once (nd_messages nd) ?m)"
  have ok: "messages_ok ms" unfolding ms_def by (rule was_message.once_invar [OF s(1)])
  have first: "fst (was_message.once (nd_messages nd) ?m)" by (rule fresh_was_message(1) [OF s fresh])
  have found: "find_message ms ?m = Some ((ms_messages (nd_messages nd) ! ms_num (nd_messages nd))\<lparr>md_id := ?m, md_was_message := True\<rparr>)"
    unfolding ms_def by (rule fresh_was_message(2) [OF s fresh])
  then have "is_id_set ms ?m" using find_message_None [of ms ?m] by auto
  moreover have "flag_of md_stop_inverse ms ?m" using found stale by (simp add: flag_of_def)
  ultimately have "inverse.once ms ?m = (False, ms)" by (simp add: inverse.once_eq [OF ok])
  then show ?thesis
    using p first by (simp add: route_direct_def delivered_def Let_def case_prod_beta ms_def [symmetric])
qed

text \<open>A table that was reset knows id 0, with all flags cleared, if it knew any id before.\<close>

lemma fill_messages_default_eq:
  "messages_ok s \<Longrightarrow> ms_messages (fill_messages_default s) = replicate MAX_MESSAGE_DATA (blank_message 0)"
proof -
  have "foldl (\<lambda>xs i. xs[i := y]) xs [0..<n] = replicate n y @ drop n xs" if "n \<le> length xs" for n y and xs :: "message_data list"
    using that
  proof (induction n)
    case (Suc n)
    then have "drop n xs = xs ! n # drop (Suc n) xs" by (simp add: Cons_nth_drop_Suc)
    with Suc show ?case by (simp add: list_update_append replicate_append_same)
  qed simp
  then show "messages_ok s \<Longrightarrow> ?thesis" by (simp add: messages_ok_def fill_messages_default_def)
qed

lemma reset_messages_zero:
  assumes "messages_ok s" and "0 < ms_num s"
  shows "fst (get_unicast_status_by_id (fill_messages_default s) 0) = Some False"
proof -
  let ?s = "fill_messages_default s"
  obtain k where k: "ms_num s = Suc k" "Suc k \<le> MAX_MESSAGE_DATA"
    using assms by (cases "ms_num s") (auto simp: messages_ok_def)
  then have "visible ?s = replicate (Suc k) (blank_message 0)"
    by (simp add: visible_def fill_messages_default_eq [OF assms(1)]) (simp add: fill_messages_default_def min_def)
  then have "find_message ?s 0 = Some (blank_message 0)"
    by (simp add: find_message_def blank_message_def)
  then have "is_id_set ?s 0" "flag_of md_unicast_first ?s 0 = False"
    using find_message_None [of ?s 0] by (auto simp: flag_of_def blank_message_def)
  then show ?thesis by (simp add: get_eq(3) [OF messages_ok_fill [OF assms(1)]])
qed

lemma reset_flags:
  assumes "messages_ok s"
  shows "flag_of f (fill_messages_default s) mid = f (blank_message 0) \<or> flag_of f (fill_messages_default s) mid = False"
proof (cases "find_message (fill_messages_default s) mid")
  case (Some m)
  then have "m \<in> set (visible (fill_messages_default s))"
    by (auto simp: find_message_def find_Some_iff in_set_conv_nth)
  then have "m = blank_message 0"
    unfolding visible_def fill_messages_default_eq [OF assms] by (auto dest: in_set_takeD)
  then show ?thesis using Some by (simp add: flag_of_def)
qed (simp add: flag_of_def)

text \<open>Resetting closes every connection but the one to the server.\<close>

lemma reset_closes:
  assumes "p \<noteq> SERVER_PORT" and "p \<noteq> UINT16_MAX"
  shows "open_on (node_essentials_reset_connections n) p = None"
proof -
  have "(- 1 :: u16) = UINT16_MAX" by (simp add: UINT16_MAX_def)
  then have "p < UINT16_MAX" using assms(2) word_order.not_eq_extremum [of p] by simp
  then show ?thesis
    using assms(1) by (auto simp: open_on_def node_essentials_reset_connections_def find_slot_None no_conn_def resettable_def)
qed

subsection \<open>What a send does\<close>

text \<open>Whatever the kernel does, a send that reports success has put the message, and nothing else, on one connection.\<close>

lemma get_conn_sent:
  assumes "get_conn os port n = (fd, n')"
  shows "sent x (net_trace n') = sent x (net_trace n)"
  using assms by (rule get_conn_cases) (auto dest: connection_socket_to_send_sent)

lemma send_message_sent:
  assumes "send_message os port m n = (ok, n')" and "length m < 256" and "net_ok n"
  shows "ok \<Longrightarrow> \<exists>fd. sent fd (net_trace n') = sent fd (net_trace n) @ m \<and> (fd > 0 \<longrightarrow> open_on n' port = Some fd)"
    and "\<not> ok \<Longrightarrow> \<exists>fd k. k \<le> length m \<and> sent fd (net_trace n') = sent fd (net_trace n) @ take k m"
proof -
  obtain fd n1 where conn: "get_conn os port n = (fd, n1)" by fastforce
  have n1: "sent x (net_trace n1) = sent x (net_trace n)" for x by (rule get_conn_sent [OF conn])
  have open_fd: "fd > 0 \<Longrightarrow> open_on n1 port = Some fd" by (rule pool.connect_opens [OF assms(3) conn])
  have small: "unat (of_nat (length m) :: u8) = length m" using assms(2) by (simp add: unat_of_nat)
  obtain ok1 tr where loop: "io_write_loop os fd m (of_nat (length m)) (net_trace n1) = (ok1, tr)" by fastforce
  then have spec: "if ok1 then sent fd tr = sent fd (net_trace n1) @ m
     else \<exists>k < length m. sent fd tr = sent fd (net_trace n1) @ take k m"
    using io_write_loop_spec [OF loop] small by (auto split: if_splits)
  have eq: "(ok, n') = (if fd < 0 then (False, n1) else (ok1, n1\<lparr>net_trace := tr\<rparr>))"
    using assms(1) loop by (auto simp: send_message_def conn split: if_splits)
  show "\<exists>fd. sent fd (net_trace n') = sent fd (net_trace n) @ m \<and> (fd > 0 \<longrightarrow> open_on n' port = Some fd)" if ok
    using eq that spec n1 open_fd by (intro exI [of _ fd]) (auto simp: open_on_trace split: if_splits)
  show "\<exists>fd k. k \<le> length m \<and> sent fd (net_trace n') = sent fd (net_trace n) @ take k m" if failed: "\<not> ok"
  proof (cases "fd < 0")
    case True
    then show ?thesis using eq n1 by (intro exI [of _ fd] exI [of _ 0]) auto
  next
    case False
    then obtain k where "k < length m" "sent fd tr = sent fd (net_trace n1) @ take k m"
      using eq failed spec by auto
    then show ?thesis using eq False n1 by (intro exI [of _ fd] exI [of _ k]) auto
  qed
qed

subsection \<open>From one node to another\<close>

lemma carries_packet:
  "carries REQUEST_ROUTE_DIRECT (Packet p)" "carries REQUEST_ROUTE_INVERSE (Packet p)" "carries REQUEST_SEND (Packet p)"
  by (simp_all add: carries_def)

text \<open>A message reaches the handler intact: the bytes are next in the stream of a connection, cut anywhere.\<close>

lemma receive_payload:
  assumes "carries req pl" and "payload_ok pl" and "delivers os fd S"
    and "S = received fd tr @ transmitted junk pid req pl s @ rest"
  shows "\<exists>pl' buf tr'. read_frame os fd tr = (Some buf, tr')
     \<and> received fd tr' = received fd tr @ transmitted junk pid req pl s
     \<and> format_define_sender buf = Some (sender_code s)
     \<and> format_parse (os_junk os) buf = Some (Some req, pl', False) \<and> payload_ok pl' \<and> payload_norm pid pl' = payload_norm pid pl"
proof -
  let ?m = "transmitted junk pid req pl s"
  obtain tr' where frame: "read_frame os fd tr = (Some (receive_buffer os (tl ?m)), tr')" "received fd tr' = received fd tr @ ?m"
    using read_frame_delivers [OF assms(3,4)] transmitted_frame(1-3) [OF assms(2)] by auto
  obtain pl' where pl: "format_parse (os_junk os) (receive_buffer os (tl ?m)) = Some (Some req, pl', False)"
    "payload_norm pid pl' = payload_norm pid pl" "payload_ok pl'"
    using receive_transmitted [OF assms(1,2)] by blast
  obtain r where "tl ?m = request_code req # sender_code s # wire_body pid pl @ r"
    using transmitted_frame(4) [OF assms(2)] by blast
  then have "format_define_sender (receive_buffer os (tl ?m)) = Some (sender_code s)" by (simp add: receive_buffer_def)
  then show ?thesis using frame pl by blast
qed

lemma receive_packet:
  assumes "packet_ok p" and "carries req (Packet p)" and "delivers os fd S"
    and "S = received fd tr @ transmitted junk pid req (Packet p) s @ rest"
  shows "\<exists>q buf tr'. read_frame os fd tr = (Some buf, tr')
     \<and> received fd tr' = received fd tr @ transmitted junk pid req (Packet p) s
     \<and> format_define_sender buf = Some (sender_code s)
     \<and> format_parse (os_junk os) buf = Some (Some req, Packet q, False)
     \<and> packet_ok q \<and> packet_norm q = packet_norm p"
proof -
  obtain pl buf tr' where r: "read_frame os fd tr = (Some buf, tr')" "received fd tr' = received fd tr @ transmitted junk pid req (Packet p) s"
    "format_define_sender buf = Some (sender_code s)" "format_parse (os_junk os) buf = Some (Some req, pl, False)"
    "payload_ok pl" "payload_norm pid pl = payload_norm pid (Packet p)"
    using receive_payload [OF assms(2) _ assms(3,4)] assms(1) by auto
  then obtain q where "pl = Packet q" by (cases pl) auto
  with r show ?thesis by auto
qed

lemma sender_code_neq [simp]: "sender_code REQUEST_SENDER_NODE \<noteq> sender_code REQUEST_SENDER_SERVER"
  by (simp add: codes)

end
