(* ===== verification/Scenarios.thy ===== *)
theory Scenarios
  imports Node_Behaviour
begin

text \<open>
  A concrete environment in which the properties of the development are instantiated: every
  system call succeeds, a connection delivers the bytes \<open>S\<close> in pieces of at most \<open>k\<close> bytes, and
  the compressor puts a marker byte in front of its input.
\<close>

definition demo_os :: "u8 list \<Rightarrow> nat \<Rightarrow> os" where
  "demo_os S k = \<lparr>os_socket = (\<lambda>tr. 4 + int (length tr)), os_connect = (\<lambda>_ _ _. 0),
     os_bind = (\<lambda>_ _ _. 0), os_listen = (\<lambda>_ _. 0), os_send = (\<lambda>_ _ bs. int (length bs)),
     os_recv = (\<lambda>tr fd n. RecvBytes (take (min n (Suc k)) (drop (length (received fd tr)) S))),
     os_fork = (\<lambda>tr. 1000 + int (length tr)), os_poll = (\<lambda>_ _. Some (\<lambda>i. i = 0)),
     os_accept = (\<lambda>tr _. 4 + int (length tr)),
     os_getpid = 1000, os_junk = (\<lambda>_. 0xAA), os_deflate = (\<lambda>m. 0x78 # m), os_inflate = tl\<rparr>"

lemma demo_delivers: "delivers (demo_os S k) fd S"
proof -
  have "\<exists>m. 0 < m \<and> m \<le> n \<and> os_recv (demo_os S k) tr fd n = RecvBytes (take m rest)"
    if "S = received fd tr @ rest" "rest \<noteq> []" "n > 0" for tr n rest
    using that by (intro exI [of _ "min n (Suc k)"]) (simp add: demo_os_def)
  then show ?thesis by (auto simp: delivers_def)
qed

definition demo_node :: "u8 \<Rightarrow> node" where
  "demo_node a = (static_node [])\<lparr>nd_addr := a, nd_routing := routing_table_fill_default (nd_routing (static_node [])),
     nd_apps := node_app_fill_default (nd_apps (static_node [])) a,
     nd_neighbors := the (node_essentials_fill_neighbors_port a initial_neighbors)\<rparr>"

lemma demo_node_ok: "node_ok (demo_node a)" "nd_addr (demo_node a) = a"
  using fill_neighbors_total [of a]
  by (auto simp: node_ok_def demo_node_def static_node_def messages_ok_initial net_ok_def initial_net_def
      node_app_fill_default_ok routes.invar_clear routing_ok_def)
     (use routes.invar_clear in \<open>simp add: routing_ok_def\<close>)

lemma demo_node_trace [simp]: "node_trace (demo_node a) = []"
  by (simp add: node_trace_def demo_node_def static_node_def initial_net_def)

lemma demo_fresh: "\<not> is_id_set (nd_messages (demo_node a)) mid" "\<not> handled (demo_node a) mid"
  by (simp_all add: handled_def demo_node_def static_node_def initial_messages_def is_id_set_def visible_def)

text \<open>A message of one byte from application 1 of node 11 to application 2 of node 22.\<close>

definition demo_app :: app_payload where
  "demo_app = \<lparr>ap_req_type = app_request_code APP_REQUEST_DELIVERY, ap_addr_from = 1, ap_addr_to = 2, ap_id = 7,
     ap_message_len = 1, ap_message = 0x41 # replicate 149 0, ap_crc = 0\<rparr>"

definition demo_packet :: "int \<Rightarrow> node_packet" where
  "demo_packet ttl = seal \<lparr>np_sender_addr = 11, np_receiver_addr = 22, np_local_sender_addr = 12,
     np_time_to_live = word_of_int ttl, np_app = demo_app, np_crc = 0\<rparr>"

lemma demo_app_ok: "app_ok demo_app"
  by (simp add: app_ok_def demo_app_def settings)

lemma demo_packet_ok: "packet_ok (demo_packet ttl)" "valid_crc (demo_packet ttl)"
  "np_sender_addr (demo_packet ttl) = 11" "np_receiver_addr (demo_packet ttl) = 22"
  "np_local_sender_addr (demo_packet ttl) = 12" "np_time_to_live (demo_packet ttl) = word_of_int ttl"
  "np_app (demo_packet ttl) = demo_app"
  by (simp_all add: demo_packet_def seal_valid packet_ok_def demo_app_ok)

lemma demo_no_route: "routing_map (nd_routing (demo_node a)) d = None"
  using routes.route_clear [of "nd_routing (static_node [])"]
  by (simp add: demo_node_def static_node_def routing_ok_def)

text \<open>Offers of neighbours to take a unicast.\<close>

definition demo_offer :: "u8 \<Rightarrow> unicast_contest" where
  "demo_offer a = \<lparr>uc_req = request_code REQUEST_UNICAST_FIRST, uc_node_addr = a, uc_app = demo_app\<rparr>"

definition demo_offer_0 :: unicast_contest where
  "demo_offer_0 = (demo_offer 12)\<lparr>uc_app := demo_app\<lparr>ap_id := 0\<rparr>\<rparr>"

lemma demo_offer_ok: "unicast_ok (demo_offer a)" "ap_id (uc_app (demo_offer a)) = 7"
  "unicast_ok demo_offer_0" "ap_id (uc_app demo_offer_0) = 0"
  using demo_app_ok by (simp_all add: unicast_ok_def demo_offer_def demo_offer_0_def demo_app_def app_ok_def)

text \<open>Node 11 after one message, and node 22 with a full table whose second slot stopped an answer.\<close>

definition demo_used_node :: node where
  "demo_used_node = (demo_node 11)\<lparr>nd_messages := set_new_id (init_messages_data initial_messages) 7\<rparr>"

lemma demo_used_node: "node_ok demo_used_node" "0 < ms_num (nd_messages demo_used_node)"
proof -
  have "messages_ok (set_new_id (init_messages_data initial_messages) 7)"
    using set_new_id_ok messages_ok_init messages_ok_initial by blast
  then show "node_ok demo_used_node"
    using demo_node_ok(1) [of 11] by (simp add: node_ok_def demo_used_node_def)
  show "0 < ms_num (nd_messages demo_used_node)"
    by (simp add: demo_used_node_def set_new_id_def init_messages_data_def fill_messages_default_def initial_messages_def settings)
qed

definition demo_wrapped_node :: node where
  "demo_wrapped_node = (demo_node 22)\<lparr>nd_messages := \<lparr>ms_num = 1, ms_init = True,
     ms_messages = replicate MAX_MESSAGE_DATA ((blank_message 1)\<lparr>md_stop_inverse := True\<rparr>)\<rparr>\<rparr>"

lemma demo_wrapped_node:
  "messages_ok (nd_messages demo_wrapped_node)" "ms_init (nd_messages demo_wrapped_node)"
  "ms_num (nd_messages demo_wrapped_node) < MAX_MESSAGE_DATA"
  "\<not> is_id_set (nd_messages demo_wrapped_node) (ap_id demo_app)"
  "md_stop_inverse (ms_messages (nd_messages demo_wrapped_node) ! ms_num (nd_messages demo_wrapped_node))"
  "nd_addr demo_wrapped_node = 22"
  using demo_node_ok(2) [of 22]
  by (simp_all add: demo_wrapped_node_def messages_ok_def settings is_id_set_def visible_def blank_message_def
      demo_app_def)

text \<open>A packet with a message of 150 bytes, and a node that knows the way back to its sender.\<close>

definition demo_long_packet :: node_packet where
  "demo_long_packet = seal ((demo_packet 20)\<lparr>np_app := demo_app\<lparr>ap_message_len := 150\<rparr>\<rparr>)"

lemma demo_long_packet: "packet_ok demo_long_packet" "valid_crc demo_long_packet"
  "np_sender_addr demo_long_packet = 11" "ap_message_len (np_app demo_long_packet) = 150"
proof -
  have "app_ok (demo_app\<lparr>ap_message_len := 150\<rparr>)" by (simp add: app_ok_def demo_app_def settings)
  then have ok: "packet_ok ((demo_packet 20)\<lparr>np_app := demo_app\<lparr>ap_message_len := 150\<rparr>\<rparr>)"
    using demo_packet_ok(1) [of 20] by simp
  then show "packet_ok demo_long_packet" "valid_crc demo_long_packet"
    "np_sender_addr demo_long_packet = 11" "ap_message_len (np_app demo_long_packet) = 150"
    using seal_valid [OF ok] by (simp_all add: demo_long_packet_def demo_packet_ok)
qed

definition demo_routed_node :: node where
  "demo_routed_node = (demo_node 33)\<lparr>nd_routing := routing_set_addr (nd_routing (demo_node 33)) 11 12 2\<rparr>"

lemma demo_routed_node: "node_ok demo_routed_node" "nd_addr demo_routed_node = 33"
  "routing_map (nd_routing demo_routed_node) 11 = Some (12, 2)"
  "routing_map (learn_inverse demo_long_packet (nd_routing demo_routed_node)) 11 \<noteq> None"
proof -
  have "routing_ok (nd_routing (demo_node 33))" using demo_node_ok(1) [of 33] by (simp add: node_ok_def)
  then have r: "routing_ok (nd_routing demo_routed_node)" "routing_map (nd_routing demo_routed_node) 11 = Some (12, 2)"
    by (simp_all add: demo_routed_node_def routes.invar_set routes.route_set settings)
  then show "node_ok demo_routed_node" "nd_addr demo_routed_node = 33" "routing_map (nd_routing demo_routed_node) 11 = Some (12, 2)"
    using demo_node_ok [of 33] by (simp_all add: node_ok_def demo_routed_node_def)
  show "routing_map (learn_inverse demo_long_packet (nd_routing demo_routed_node)) 11 \<noteq> None"
    using r by (simp add: learn_inverse_def Let_def routes.route_set settings demo_long_packet_def demo_packet_ok)
qed

text \<open>The first connection of a process.\<close>

lemma demo_connects:
  assumes "get_conn (demo_os S k) p n = (fd, n')" and "\<not> net_init n" and "net_conns n \<noteq> []" and "open_on n p = None"
  shows "fd > 0"
  using assms(1)
proof (cases rule: get_conn_cases)
  case full
  have "conn_fd (net_conns (init_conns n) ! 0) = -1" "0 < length (net_conns n)"
    using assms(2,3) by (simp_all add: init_conns_def no_conn_def)
  with full(4) show ?thesis by (auto simp: find_slot_None)
qed (use assms(4) in \<open>auto simp: connection_socket_to_send_def demo_os_def Let_def split: if_splits\<close>)

definition demo_sealed_app :: app_payload where
  "demo_sealed_app = demo_app\<lparr>ap_crc := the (app_crc demo_app)\<rparr>"

lemma demo_sealed_app: "app_ok demo_sealed_app" "app_crc demo_sealed_app = Some (ap_crc demo_sealed_app)"
  "ap_message_len demo_sealed_app = 1" "ap_req_type demo_sealed_app = app_request_code APP_REQUEST_DELIVERY"
  "ap_addr_to demo_sealed_app = 2" "take 1 (ap_message demo_sealed_app) = [0x41]"
  "zlib_inverse (demo_os S k) [0x41]"
proof -
  show ok: "app_ok demo_sealed_app" using demo_app_ok by (simp add: demo_sealed_app_def app_ok_def)
  obtain c where c: "app_crc demo_app = Some c" using demo_app_ok by (auto simp: app_crc_head crc16_eq)
  have "app_head demo_sealed_app = app_head demo_app" by (simp add: app_head_def demo_sealed_app_def)
  then have "app_crc demo_sealed_app = app_crc demo_app"
    by (simp add: app_crc_head [OF ok] app_crc_head [OF demo_app_ok])
  then show "app_crc demo_sealed_app = Some (ap_crc demo_sealed_app)" using c by (simp add: demo_sealed_app_def)
qed (simp_all add: demo_sealed_app_def demo_app_def zlib_inverse_def demo_os_def settings)

text \<open>A stream of two messages.\<close>

definition demo_messages :: "message list" where
  "demo_messages = [(REQUEST_SEND, Packet (demo_packet 20), REQUEST_SENDER_NODE), (REQUEST_PING, Addr 22, REQUEST_SENDER_CLIENT)]"

lemma demo_messages_ok: "\<forall>m \<in> set demo_messages. message_ok m" "length demo_messages = 2"
  using carries_packet(3) [of "demo_packet 20"]
  by (simp_all add: demo_messages_def demo_packet_ok carries_def fits_def is_addr_request_def)

end
