(* ===== verification/Node_Properties.thy ===== *)
theory Node_Properties
  imports Scenarios
begin

text \<open>
  The properties of a node process, each with an instance in the environment of \<open>Scenarios\<close>:
  its invariant and memory safety, the routing protocol (learning, flooding, acting once per
  message), its connections, and where the code departs from what it means to do.
\<close>

section \<open>The process as a whole\<close>

text \<open>
  C10: Every state a node process reaches, whatever the network, the kernel and its peers do, is
  well-formed: the tables have their sizes, the message counter is in range, the neighbours are
  those of its address, and the listening socket is still watched.
\<close>

theorem node_invariant:
  assumes "node_reachable os args sv nd"
  shows "node_ok nd \<and> serving_ok sv"
  using node_reachable_invariant [OF assms] by blast

theorem node_invariant_witness:
  "\<exists>sv nd. node_reachable (demo_os [] 0) [''mesh_node'', ''22''] sv nd \<and> node_ok nd \<and> serving_ok sv"
proof -
  obtain sv nd where "node_init (demo_os [] 0) [''mesh_node'', ''22''] [] = Some (sv, nd)"
    using node_init_ok by blast
  then have "node_reachable (demo_os [] 0) [''mesh_node'', ''22''] sv nd"
    by (rule node_reachable.start)
  with node_invariant [OF this] show ?thesis by blast
qed

text \<open>
  C11: One request of a node is memory-safe and keeps its invariant unless the message it reads
  declares an application message longer than the array it is parsed into (150 bytes) or, on
  the return path, longer than the array it is forwarded from allows (147 bytes).
\<close>

theorem handle_request_safe:
  assumes "\<And>buf. next_message os fd nd = Some buf \<Longrightarrow> safe_message buf"
  shows "\<exists>ok nd'. handle_request os fd nd = Some (ok, nd') \<and> (node_ok nd \<longrightarrow> node_ok nd') \<and> nd_addr nd' = nd_addr nd"
  using handle_request_any(1) [of nd os fd] handle_request_any(2) [of os fd nd] assms by (cases "handle_request os fd nd") (auto simp: keeps_def)

text \<open>The four bytes of a ping: length, request, sender, address.\<close>

theorem handle_request_safe_witness:
  "\<exists>ok nd'. handle_request (demo_os [4, 2, 2, 22] 0) 9 (demo_node 22) = Some (ok, nd') \<and> node_ok nd'"
proof -
  let ?os = "demo_os [4, 2, 2, 22] 0"
  have "received 9 (node_trace (demo_node 22)) = []"
    by (simp add: node_trace_def demo_node_def static_node_def initial_net_def)
  then obtain tr where "read_frame ?os 9 (node_trace (demo_node 22)) = (Some (receive_buffer ?os [2, 2, 22]), tr)"
    using read_frame_delivers [of ?os 9 "[4, 2, 2, 22]" "node_trace (demo_node 22)" "[4, 2, 2, 22]" "[]"]
    by (auto simp: demo_delivers)
  then have "next_message ?os 9 (demo_node 22) = Some buf \<Longrightarrow> safe_message buf" for buf
    by (auto simp: next_message_def safe_message_def receive_buffer_def declared_len_def request_of_def
        all_requests_def codes is_route_request_def is_unicast_request_def)
  then show ?thesis
    using handle_request_safe [of ?os 9 "demo_node 22"] demo_node_ok by auto
qed

section \<open>The search for a route\<close>

text \<open>
  C14: On a well-formed packet \<^verbatim>\<open>handle_node_route_direct\<close>, with its buffers, table loops and the
  call of \<^verbatim>\<open>route_direct_handle_delivered\<close>, is defined and is exactly the protocol step
  \<open>route_direct\<close>: drop a packet that is spent, damaged or seen before; otherwise learn the way back
  to its sender; answer and deliver it if it is for this node, and flood it on if not.
\<close>

theorem route_direct_refines:
  assumes "packet_ok p"
  shows "handle_node_route_direct os p nd = Some (route_direct os p nd)"
  by (rule handle_node_route_direct_eq [OF assms])

theorem route_direct_refines_witness:
  "handle_node_route_direct (demo_os [] 0) (demo_packet 0) (demo_node 22) = Some (True, demo_node 22)"
  using route_direct_refines [OF demo_packet_ok(1), of "demo_os [] 0" 0 "demo_node 22"]
  by (simp add: route_direct_def demo_packet_ok)



text \<open>
  While a node passes packets on, routes only improve: every destination it can reach stays
  reachable at no greater distance, and a changed entry is the one the packet taught, through the
  neighbour it came from.
\<close>

theorem route_never_worse:
  assumes "node_ok nd" and "packet_ok p" and "np_local_sender_addr p \<noteq> UINT8_MAX" and "np_receiver_addr p \<noteq> nd_addr nd"
    and "routing_map (nd_routing nd) d = Some (hop, k)" and "handle_node_route_direct os p nd = Some (ok, nd')"
  shows "\<exists>hop' k'. routing_map (nd_routing nd') d = Some (hop', k') \<and> sint k' \<le> sint k
     \<and> (hop', k') \<in> {(hop, k), (np_local_sender_addr p, packet_metric p)}"
proof -
  let ?t = "routes.relax (nd_routing nd) (np_sender_addr p) (np_local_sender_addr p) (packet_metric p)"
  have ok: "routing_ok (nd_routing nd)" using assms(1) by (simp add: node_ok_def)
  have "nd_routing nd' \<in> {nd_routing nd, ?t}"
    using assms(4,6) by (auto simp: handle_node_route_direct_eq [OF assms(2)] route_direct_def Let_def
        case_prod_beta relay_def split: if_splits)
  moreover have "routing_map ?t d \<in> {Some (hop, k), Some (np_local_sender_addr p, packet_metric p)}"
    using routes.relax_origin [OF ok assms(3), of "np_sender_addr p" "packet_metric p"]
      routes.relax_other [OF ok assms(3), of d "np_sender_addr p" "packet_metric p"] assms(5)
    by (cases "d = np_sender_addr p") auto
  ultimately show ?thesis
    using routes.relax_monotone [OF ok assms(3,5), of "np_sender_addr p" "packet_metric p"] assms(5) by auto
qed

theorem route_never_worse_witness:
  "\<exists>ok nd' hop k. handle_node_route_direct (demo_os [] 0) (demo_packet 17) demo_routed_node = Some (ok, nd')
     \<and> routing_map (nd_routing nd') 11 = Some (hop, k) \<and> sint k \<le> 2"
proof -
  obtain ok nd' where run: "handle_node_route_direct (demo_os [] 0) (demo_packet 17) demo_routed_node = Some (ok, nd')"
    using handlers_keep(5) [OF demo_packet_ok(1)] by blast
  from route_never_worse [OF demo_routed_node(1) demo_packet_ok(1) _ _ demo_routed_node(3) run]
  show ?thesis using run by (auto simp: demo_packet_ok demo_routed_node settings)
qed

section \<open>Data packets and unicast\<close>

text \<open>
  C25: A data packet from another node is dropped if damaged; otherwise the receiver hands it to its
  application and reports the outcome to the server, and any other node sends it unchanged to the
  next hop of its route, or floods a search for a route when it has none.
\<close>

theorem node_send_refines:
  assumes "packet_ok p"
  shows "handle_node_send os p nd = Some (if \<not> valid_crc p then (False, nd)
     else if np_receiver_addr p = nd_addr nd then deliver_local os p nd else forward os p nd)"
  by (rule handle_node_send_eq [OF assms])

theorem node_send_refines_witness:
  "handle_node_send (demo_os [] 0) (demo_packet 20) (demo_node 33)
     = Some (False, relay (demo_os [] 0) ((demo_packet 20)\<lparr>np_local_sender_addr := 33, np_time_to_live := 20\<rparr>) (demo_node 33))"
  using node_send_refines [OF demo_packet_ok(1), of "demo_os [] 0" 20 "demo_node 33"] demo_no_route
  by (simp add: demo_packet_ok demo_node_ok forward_def settings)

text \<open>
  At most one neighbour wins a unicast: once a node has handled an offer for a message,
  every later offer for it is ignored, and nothing is sent.
\<close>

theorem unicast_single_winner:
  assumes "node_ok nd" and "unicast_ok u" and "unicast_ok v" and "ap_id (uc_app v) = ap_id (uc_app u)"
  shows "\<exists>nd'. handle_unicast_first os u nd = Some nd' \<and> handle_unicast_first os' v nd' = Some nd'"
proof -
  obtain nd' where step: "handle_unicast_first os u nd = Some nd'" "keeps nd nd'"
    using unicast_handlers_keep(2) [OF assms(2)] by blast
  have "messages_ok (nd_messages nd)" using assms(1) by (simp add: node_ok_def)
  then have "contest_won nd' (ap_id (uc_app v))"
    using unicast_first_won [OF _ assms(2) step(1)] assms(4) by simp
  moreover have "messages_ok (nd_messages nd')" using step(2) assms(1) by (simp add: keeps_def node_ok_def)
  ultimately show ?thesis using unicast_first_ignored assms(3) step(1) by blast
qed

theorem unicast_single_winner_witness:
  "\<exists>nd'. handle_unicast_first (demo_os [] 0) (demo_offer 12) (demo_node 11) = Some nd'
     \<and> handle_unicast_first (demo_os [] 0) (demo_offer 21) nd' = Some nd'"
  by (rule unicast_single_winner) (simp_all add: demo_node_ok demo_offer_ok)

text \<open>
  After a reset the first unicast is lost: the table of message ids is cleared to id 0 but not
  emptied, so that the first offer for message 0, the first id the server gives out after a reset,
  is taken for a repetition and nothing is sent to the winner.
\<close>

theorem unicast_lost_after_reset:
  assumes "node_ok nd" and "0 < ms_num (nd_messages nd)" and "unicast_ok u" and "ap_id (uc_app u) = 0"
  shows "\<exists>nd'. handle_unicast_first os u (handle_reset nd) = Some nd' \<and> nd_net nd' = nd_net (handle_reset nd)"
proof -
  have "messages_ok (nd_messages nd)" using assms(1) by (simp add: node_ok_def)
  from reset_messages_zero [OF this assms(2)]
  have "fst (get_unicast_status_by_id (nd_messages (handle_reset nd)) 0) = Some False"
    by (simp add: handle_reset_def)
  then show ?thesis
    by (simp add: handle_unicast_first_eq [OF assms(3)] assms(4) Let_def case_prod_beta)
qed

theorem unicast_lost_after_reset_witness:
  "\<exists>nd'. handle_unicast_first (demo_os [] 0) demo_offer_0 (handle_reset demo_used_node) = Some nd'
     \<and> nd_net nd' = nd_net (handle_reset demo_used_node)"
  by (rule unicast_lost_after_reset) (simp_all add: demo_used_node demo_offer_ok)

section \<open>Two defects of the search\<close>

text \<open>
  C34: Forwarding an answer is undefined exactly when the packet is intact, must travel on, has a
  route and carries more than 147 bytes: the message is formatted into an array of the size of the
  packet object, which lacks the three bytes in front.  In every other case it is \<open>route_inverse\<close>.
\<close>

theorem inverse_overflow:
  assumes "packet_ok p"
  shows "handle_node_route_inverse os p nd =
     (if valid_crc p \<and> np_sender_addr p \<noteq> nd_addr nd
         \<and> routing_map (learn_inverse p (nd_routing nd)) (np_sender_addr p) \<noteq> None
         \<and> 147 < unat (ap_message_len (np_app p))
      then None else Some (route_inverse os p nd))"
  by (rule handle_node_route_inverse_eq [OF assms])

theorem inverse_overflow_witness:
  "handle_node_route_inverse (demo_os [] 0) demo_long_packet demo_routed_node = None"
  using inverse_overflow [OF demo_long_packet(1), of "demo_os [] 0" demo_routed_node]
  by (simp add: demo_long_packet demo_routed_node)

text \<open>
  C37: A slot of the message table keeps the flags of the message it held before the table was
  full.  If the flag that stops answers is among them, a new message for this very node is
  swallowed: no answer, no delivery, no report to the server, although the handler returns
  success.
\<close>

theorem stale_flags_swallow:
  assumes "messages_ok (nd_messages nd)" and "ms_init (nd_messages nd)" and "ms_num (nd_messages nd) < MAX_MESSAGE_DATA"
    and "\<not> is_id_set (nd_messages nd) (ap_id (np_app p))"
    and "md_stop_inverse (ms_messages (nd_messages nd) ! ms_num (nd_messages nd))"
    and "packet_ok p" and "sint (np_time_to_live p) > 0" and "valid_crc p" and "np_receiver_addr p = nd_addr nd"
  shows "\<exists>nd'. handle_node_route_direct os p nd = Some (True, nd') \<and> nd_net nd' = nd_net nd"
  using stale_slot_swallows [OF assms(1-5,7-9), of os]
  by (cases "route_direct os p nd") (simp add: handle_node_route_direct_eq [OF assms(6)])

theorem stale_flags_swallow_witness:
  "\<exists>nd'. handle_node_route_direct (demo_os [] 0) (demo_packet 19) demo_wrapped_node = Some (True, nd')
     \<and> nd_net nd' = nd_net demo_wrapped_node"
  by (rule stale_flags_swallow) (simp_all add: demo_wrapped_node demo_packet_ok)

section \<open>Neighbours, connections, applications\<close>

text \<open>
  C28: The table of neighbours filled at start-up holds, each once, the ports of the nodes inside
  the 5 by 5 square around a node and of those at distance 3 in its row and column, at most 28 of
  the 29 slots; and being a neighbour is symmetric, so that an answer can go back the way a packet
  came.
\<close>

theorem neighbours_are_near:
  assumes "unat a < NODE_COUNT"
  shows "\<exists>nb. node_essentials_fill_neighbors_port a initial_neighbors = Some nb
     \<and> set (neighbor_ports nb) = node_port ` {b. near a b} \<and> distinct (neighbor_ports nb)
     \<and> length (neighbor_ports nb) \<le> 28 \<and> (\<forall>b. near a b \<longleftrightarrow> near b a) \<and> \<not> near a a"
  using fill_neighbors [OF assms] neighbor_addrs [OF assms] near_sym near_irrefl
  by (auto simp: distinct_map inj_on_def)

theorem neighbours_are_near_witness:
  "\<exists>nb. node_essentials_fill_neighbors_port 0 initial_neighbors = Some nb
     \<and> node_port 22 \<in> set (neighbor_ports nb) \<and> node_port 23 \<notin> set (neighbor_ports nb)"
  using neighbours_are_near [of 0] by (auto simp: settings near_def near_offset_def row_of_def col_of_def)

text \<open>
  A connection that was opened to a port is used again for the next message to that port,
  whatever happened on other ports in between; no system call is made for it.
\<close>

theorem connection_reused:
  assumes "net_ok n" and "get_conn os p n = (fd, n1)" and "fd > 0" and "get_conn os' q n1 = (fd', n2)"
  shows "\<exists>n3. get_conn os'' p n2 = (fd, n3) \<and> net_trace n3 = net_trace n2 \<and> open_on n3 = open_on n2"
proof -
  have ok: "net_ok n1" "net_ok n2" using pool.invar_connect assms by blast+
  have "open_on n1 p = Some fd" by (rule pool.connect_opens [OF assms(1-3)])
  then have op: "open_on n2 p = Some fd"
    using pool.reuse [OF ok(1), of p fd os'] pool.connect_other [OF ok(1) assms(4), of p] assms(4) by (cases "p = q") auto
  then obtain n3 where n3: "get_conn os'' p n2 = (fd, n3)" "open_on n3 = open_on n2"
    using pool.reuse [OF ok(2)] by blast
  moreover have "net_trace n3 = net_trace n2"
    using n3(1) by (rule get_conn_cases) (use op in auto)
  ultimately show ?thesis by blast
qed

theorem connection_reused_witness:
  "\<exists>fd n1 n3. get_conn (demo_os [] 0) (node_port 12) (initial_net []) = (fd, n1)
     \<and> get_conn (demo_os [] 0) (node_port 12) n1 = (fd, n3) \<and> net_trace n3 = net_trace n1"
proof -
  let ?os = "demo_os [] 0"
  obtain fd n1 where conn: "get_conn ?os (node_port 12) (initial_net []) = (fd, n1)" by fastforce
  then have fd: "fd > 0" by (rule demo_connects) (simp_all add: initial_net_def open_on_def settings)
  have ok: "net_ok (initial_net [])" by (simp add: net_ok_def initial_net_def)
  have again: "get_conn ?os (node_port 12) n1 = (fd, snd (get_conn ?os (node_port 12) n1))"
    using pool.connect_again [OF ok conn fd] by auto
  have "net_trace (snd (get_conn ?os (node_port 12) n1)) = net_trace n1"
    using again by (rule get_conn_cases) (use pool.connect_opens [OF ok conn fd] in auto)
  then show ?thesis
    using conn connection_reused [OF ok conn fd again, of ?os] again by blast
qed



text \<open>
  C22: What a client sends arrives at the application: a message that the sending node compresses
  decompresses at the receiving node to the same bytes and passes the checksum there, for every
  compressor that is inverted by its decompressor and whose output fits the 150-byte array.
\<close>

theorem application_round_trip:
  assumes "app_ok a" and "app_crc a = Some (ap_crc a)" and "ap_message_len a \<noteq> 0"
    and "ap_req_type a = app_request_code APP_REQUEST_DELIVERY" and "unat (ap_addr_to a) < APPS_COUNT"
    and "zlib_inverse os (take (unat (ap_message_len a)) (ap_message a))"
    and "node_app_setup_delivery os a = Some a'" and "app_norm b = app_norm a'" and "app_ok b" and "apps_ok x apps"
  shows "\<exists>b'. node_app_handle_request os apps b = Some (True, b') \<and> ap_message_len b' = ap_message_len a
     \<and> take (unat (ap_message_len a)) (ap_message b') = take (unat (ap_message_len a)) (ap_message a)"
proof -
  obtain b' where b': "ap_message_len b \<noteq> 0" "check_message os b = Some (True, b')" "ap_message_len b' = ap_message_len a"
    "take (unat (ap_message_len a)) (ap_message b') = take (unat (ap_message_len a)) (ap_message a)"
    using setup_then_check [OF assms(1-3,6-9)] by blast
  have "ap_req_type b = ap_req_type a" "ap_addr_to b = ap_addr_to a"
    using assms(8) setup_delivery_ok [OF assms(1), of os] assms(7) unfolding app_norm_iff by auto
  moreover have "list_ex (\<lambda>y. at_app_addr y = ap_addr_to a) apps"
    using assms(5,10) by (auto simp: apps_ok_def list_ex_iff intro!: bexI [of _ "unat (ap_addr_to a)"])
  ultimately show ?thesis
    using b' assms(4) by (simp add: node_app_handle_request_def app_request_of_def)
qed

theorem application_round_trip_witness:
  "\<exists>a' b'. node_app_setup_delivery (demo_os [] 0) demo_sealed_app = Some a'
     \<and> node_app_handle_request (demo_os [] 0) (nd_apps (demo_node 22)) a' = Some (True, b')
     \<and> take 1 (ap_message b') = [0x41]"
proof -
  obtain a' where a': "node_app_setup_delivery (demo_os [] 0) demo_sealed_app = Some a'" "app_ok a'"
    using setup_delivery_ok [OF demo_sealed_app(1)] by blast
  have "apps_ok 22 (nd_apps (demo_node 22))" using demo_node_ok [of 22] by (simp add: node_ok_def)
  from application_round_trip [OF demo_sealed_app(1,2) _ _ _ _ a'(1) refl a'(2) this]
  show ?thesis using a'(1) demo_sealed_app by (auto simp: settings)
qed

text \<open>
  A reset makes a node forget: it has no routes and no open connection except the one to the
  server, no message counts as handled or won, and the invariant still holds.
\<close>

theorem reset_forgets:
  assumes "node_ok nd"
  shows "node_ok (handle_reset nd) \<and> routing_map (nd_routing (handle_reset nd)) = Map.empty
     \<and> (\<forall>mid. \<not> handled (handle_reset nd) mid \<and> \<not> contest_won (handle_reset nd) mid)
     \<and> (\<forall>p. p \<noteq> SERVER_PORT \<longrightarrow> p \<noteq> UINT16_MAX \<longrightarrow> open_on (nd_net (handle_reset nd)) p = None)"
proof -
  have ms: "messages_ok (nd_messages nd)" and rt: "routing_ok (nd_routing nd)" using assms by (simp_all add: node_ok_def)
  have "flag_of f (fill_messages_default (nd_messages nd)) mid = f (blank_message 0)
      \<or> flag_of f (fill_messages_default (nd_messages nd)) mid = False" for f mid
    by (rule reset_flags [OF ms])
  then have "\<not> flag_of md_was_message (fill_messages_default (nd_messages nd)) mid"
    "\<not> flag_of md_unicast_first (fill_messages_default (nd_messages nd)) mid" for mid
    by (metis blank_message_def message_data.select_convs(3), metis blank_message_def message_data.select_convs(4))
  then show ?thesis
    using keeps_reset [of nd] assms routes.route_clear [OF rt] reset_closes
    by (auto simp: keeps_def handled_def contest_won_def handle_reset_def)
qed

theorem reset_forgets_witness:
  "routing_map (nd_routing demo_routed_node) 11 = Some (12, 2)
     \<and> routing_map (nd_routing (handle_reset demo_routed_node)) 11 = None"
  using reset_forgets [OF demo_routed_node(1)] demo_routed_node(3) by simp

end
