(* ===== verification/Wire_Properties.thy ===== *)
theory Wire_Properties
  imports Scenarios
begin

text \<open>
  The properties of what goes over a connection: the message formats, the checksum, and the
  loops that read and write a byte stream.
\<close>

section \<open>Formats\<close>

text \<open>
  C21: Formatting and parsing are inverse.  Into any buffer with room \<^verbatim>\<open>format_create\<close> writes the
  message at the front, leaves the rest of the buffer alone and sets the length; parsing what follows
  the length byte gives the request and a payload that agrees with the original on every byte that
  is transmitted.
\<close>

theorem create_parse:
  assumes "carries req pl" and "payload_ok pl" and "wire_len pl \<le> length buf"
  shows "\<exists>b pl'. format_create req pl pid (buf, len) s = Some (b, of_nat (wire_len pl), False)
     \<and> length b = length buf \<and> drop (wire_len pl) b = drop (wire_len pl) buf
     \<and> format_define_sender (tl b) = Some (sender_code s)
     \<and> format_parse junk (tl b) = Some (Some req, pl', False) \<and> payload_norm pid pl' = payload_norm pid pl"
proof -
  let ?m = "wire_message req pl pid s"
  define b where "b = ?m @ drop (length ?m) buf"
  have len: "length ?m \<le> wire_len pl" by (rule length_wire_message(1) [OF assms(2)])
  have "fits req pl" using assms(1) by (simp add: carries_def)
  then have "format_create req pl pid (buf, len) s = Some (b, of_nat (wire_len pl), False)"
    using len assms(3) by (simp add: format_create_eq [OF _ assms(2)] write_front_eq b_def)
  moreover have "tl b = request_code req # sender_code s # wire_body pid pl @ drop (length ?m) buf"
    by (simp add: b_def wire_message_def)
  moreover have "length b = length buf" "drop (wire_len pl) b = drop (wire_len pl) buf"
    using len assms(3) by (simp_all add: b_def)
  ultimately show ?thesis
    using format_parse_wire [OF assms(1,2)] by fastforce
qed

theorem create_parse_witness:
  "\<exists>b q. format_create REQUEST_SEND (Packet (demo_packet 20)) 1 (replicate 20 0xFF, 0) REQUEST_SENDER_CLIENT = Some (b, 18, False)
     \<and> drop 18 b = [0xFF, 0xFF] \<and> format_parse (\<lambda>_. 0xAA) (tl b) = Some (Some REQUEST_SEND, q, False)
     \<and> payload_norm 1 q = payload_norm 1 (Packet (demo_packet 20))"
proof -
  have len: "wire_len (Packet (demo_packet 20)) = 18"
    by (simp only: wire_len_packet_eq [OF demo_packet_ok(1)] demo_packet_ok) (simp add: demo_app_def)
  have "payload_ok (Packet (demo_packet 20))" by (simp add: demo_packet_ok)
  moreover have "wire_len (Packet (demo_packet 20)) \<le> length (replicate 20 (0xFF :: u8))" by (simp only: len) simp
  ultimately obtain b q where b: "format_create REQUEST_SEND (Packet (demo_packet 20)) 1 (replicate 20 0xFF, 0) REQUEST_SENDER_CLIENT
       = Some (b, of_nat 18, False)" "drop 18 b = drop 18 (replicate 20 0xFF)"
    "format_parse (\<lambda>_. 0xAA) (tl b) = Some (Some REQUEST_SEND, q, False)"
    "payload_norm 1 q = payload_norm 1 (Packet (demo_packet 20))"
    using create_parse [OF carries_packet(3), of "demo_packet 20" "replicate 20 0xFF" 1 0 REQUEST_SENDER_CLIENT "\<lambda>_. 0xAA"]
    unfolding len by blast
  have "drop 18 (replicate 20 0xFF) = [0xFF, 0xFF :: u8]" by (simp add: numeral_2_eq_2)
  then show ?thesis using b by (intro exI [of _ b] exI [of _ q] conjI) simp_all
qed

text \<open>
  C26: Parsing a received buffer is undefined exactly when the length field of the application
  message exceeds the 150-byte array it is copied into; otherwise the request is the one of the
  first byte and every payload that comes out is well-formed.
\<close>

theorem parse_undefined_iff:
  assumes "length buf = MAX_MSG_LEN"
  shows "(format_parse junk buf = None \<longleftrightarrow> APP_MESSAGE_LEN < declared_len buf)
     \<and> (\<forall>cmd pl died. format_parse junk buf = Some (cmd, pl, died) \<longrightarrow> parsed_as buf cmd pl died)"
  using format_parse_any [OF assms, of junk] by (auto split: if_splits)

theorem parse_undefined_iff_witness:
  "format_parse (\<lambda>_. 0) ([request_code REQUEST_SEND, 0] @ replicate 254 151) = None"
  using parse_undefined_iff [of "[request_code REQUEST_SEND, 0] @ replicate 254 151" "\<lambda>_. 0"]
  by (simp add: settings declared_len_def is_route_request_def)

text \<open>
  C27: The object behind \<^verbatim>\<open>void*\<close> has the type it is cast to.  Whatever bytes arrive, if parsing yields
  a request, the payload is the object that goes with it and is well-formed; so it can be formatted
  again, for the same request, into any buffer with room for it.
\<close>

theorem payload_typed:
  assumes "length buf = MAX_MSG_LEN" and "format_parse junk buf = Some (Some req, pl, died)" and "req \<noteq> REQUEST_UNDEFINED"
  shows "carries req pl \<and> payload_ok pl
     \<and> (\<forall>mem n pid sender. wire_len pl \<le> length mem \<longrightarrow>
          (\<exists>b. format_create req pl pid (mem, n) sender = Some (b, of_nat (wire_len pl), False)))"
proof -
  have carries: "carries req pl" by (rule parsed_carries [OF assms])
  have ok: "payload_ok pl" using format_parse_any [OF assms(1), of junk] assms(2) by (auto simp: parsed_as_def split: if_splits)
  have "\<exists>b. format_create req pl pid (mem, n) sender = Some (b, of_nat (wire_len pl), False)"
    if "wire_len pl \<le> length mem" for mem n pid sender
    using that carries ok length_wire_message(1) [OF ok, of req pid sender]
    by (simp add: carries_def format_create_eq write_front_eq)
  then show ?thesis using carries ok by blast
qed

theorem payload_typed_witness:
  "\<exists>pl. format_parse (\<lambda>_. 0) ([request_code REQUEST_PING, 0] @ replicate 254 151) = Some (Some REQUEST_PING, pl, False) \<and> carries REQUEST_PING pl"
proof -
  have "format_parse (\<lambda>_. 0) ([request_code REQUEST_PING, 0] @ replicate 254 151) = Some (Some REQUEST_PING, Addr 151, False)" by code_simp
  with payload_typed [OF _ this] show ?thesis by (auto simp: settings)
qed

section \<open>Checksums\<close>

text \<open>
  C32: The table-driven checksum with its lazily filled static table computes the bit-serial CRC
  with polynomial \<open>0xA001\<close> and start value \<open>0xFFFF\<close>, on the first call and on every later one.
\<close>

theorem crc_is_bit_serial:
  assumes "crc_ok st"
  shows "fst (crc16_call st data len) = (if len \<le> length data then Some (crc16_serial 0xFFFF (take len data)) else None)
     \<and> crc_ok (snd (crc16_call st data len))"
  using crc16_call_pure [OF assms, of data len] by (simp add: crc16_eq)

text \<open>The check value of this CRC: the digits 1 to 9.\<close>

theorem crc_is_bit_serial_witness:
  "fst (crc16_call \<lparr>crc16_table = replicate 256 0, crc16_init = False\<rparr> [0x31, 0x32, 0x33, 0x34, 0x35, 0x36, 0x37, 0x38, 0x39] 9)
     = Some 0x4B37"
proof -
  have check: "crc16_serial 0xFFFF [0x31, 0x32, 0x33, 0x34, 0x35, 0x36, 0x37, 0x38, 0x39] = 0x4B37" by code_simp
  show ?thesis
    using crc_is_bit_serial [of "\<lparr>crc16_table = replicate 256 0, crc16_init = False\<rparr>"
        "[0x31, 0x32, 0x33, 0x34, 0x35, 0x36, 0x37, 0x38, 0x39]" 9] check
    by (simp add: crc_ok_def)
qed



section \<open>Byte streams\<close>

text \<open>
  C20: However TCP cuts the stream, the receiver reads exactly the messages that were written, one
  per call and in order, and parses each to its request and payload.
\<close>

theorem stream_of_messages:
  assumes "\<forall>m \<in> set ms. message_ok m" and "delivers os fd S"
    and "S = received fd tr @ concat (map (message_bytes junk pid) ms) @ rest"
  shows "\<exists>bufs tr'. read_frames os fd (length ms) tr = (bufs, tr')
     \<and> received fd tr' = received fd tr @ concat (map (message_bytes junk pid) ms) \<and> list_all2 (received_as os pid) ms bufs"
  by (rule read_messages [OF assms])

theorem stream_of_messages_witness:
  "\<exists>bufs tr'. read_frames (demo_os (concat (map (message_bytes (\<lambda>_. 0) 1) demo_messages)) 0) 9 2 [] = (bufs, tr')
     \<and> list_all2 (received_as (demo_os (concat (map (message_bytes (\<lambda>_. 0) 1) demo_messages)) 0) 1) demo_messages bufs"
  using stream_of_messages [OF demo_messages_ok(1) demo_delivers, of "concat (map (message_bytes (\<lambda>_. 0) 1) demo_messages)" 9 "[]" "\<lambda>_. 0" 1 "[]"]
  by (simp add: demo_messages_ok) blast

text \<open>
  \<^verbatim>\<open>io_write_all\<close> puts the whole buffer on its descriptor when it reports success and a proper
  prefix of it when it reports failure, whatever the kernel does, terminates, and touches no other
  descriptor.
\<close>

theorem write_all_or_prefix:
  assumes "unat n \<le> length buf"
  shows "\<exists>ok tr'. io_write_all os fd buf n tr = Some (ok, tr')
     \<and> (if ok then sent fd tr' = sent fd tr @ take (unat n) buf else \<exists>k < unat n. sent fd tr' = sent fd tr @ take k buf)
     \<and> (\<forall>x. x \<noteq> fd \<longrightarrow> sent x tr' = sent x tr)"
proof -
  obtain ok tr' where run: "io_write_loop os fd buf n tr = (ok, tr')" by fastforce
  then obtain evs where evs: "tr' = tr @ evs" "\<forall>e \<in> set evs. \<exists>bs r. e = EvSend fd bs r"
    "if ok then sent fd evs = take (unat n) buf else \<exists>k < unat n. sent fd evs = take k buf"
    using io_write_loop_spec [OF run assms] by blast
  have "sent x evs = []" if "x \<noteq> fd" for x
    using evs(2) that by (induction evs) auto
  then show ?thesis
    using evs assms run by (cases ok) (auto simp: io_write_all_def)
qed

theorem write_all_or_prefix_witness:
  "\<exists>ok tr'. io_write_all (demo_os [] 0) 5 [1, 2, 3] 2 [] = Some (ok, tr') \<and> (ok \<longrightarrow> sent 5 tr' = [1, 2])"
proof -
  have "unat (2 :: u8) \<le> length [1, 2, 3 :: u8]" by simp
  from write_all_or_prefix [OF this, of "demo_os [] 0" 5 "[]"] show ?thesis by auto
qed

end
