(* ===== verification/Server_Handler.thy ===== *)
theory Server_Handler
  imports Framing Libc
begin

text \<open>
  The server's request handlers and what they rest on: \<^verbatim>\<open>server/src/server_handler.c\<close> and
  \<^verbatim>\<open>server/src/server_essentials.c\<close>, on the array of child processes.  Handlers take the trace of
  system calls so far and return it extended.  The model follows the server through \<^verbatim>\<open>fork\<close>: its
  child runs \<open>run_node\<close>.
\<close>

record child =
  ch_pid :: int
  ch_write_fd :: int
  ch_addr :: u8
  ch_port :: u16

subsection \<open>Starting a node\<close>

text \<open>
  The argument vector of the new process and whether \<^verbatim>\<open>die\<close> is called first.  The test compares the
  length without the terminator against the size with it.
\<close>

definition run_node :: "u8 \<Rightarrow> string list \<times> bool" where
  "run_node addr = (case snprintf_d 3 (unat addr) of (node_addr_str, len) \<Rightarrow>
     ([''mesh_node'', node_addr_str], len > 3))"

text \<open>\<^verbatim>\<open>fork\<close> in the parent: the child's process id, or \<open>-1\<close>.\<close>

definition fork_call :: "os \<Rightarrow> trace \<Rightarrow> int" where
  "fork_call os tr = (let pid = os_fork os tr in if pid > 0 then pid else -1)"

definition revivie_node :: "os \<Rightarrow> child \<Rightarrow> trace \<Rightarrow> child \<times> trace" where
  "revivie_node os node tr = (let pid = fork_call os tr in (node\<lparr>ch_pid := pid\<rparr>, tr @ [EvFork pid]))"

subsection \<open>Answers to clients\<close>

definition send_res_to_client :: "os \<Rightarrow> int \<Rightarrow> request_result \<Rightarrow> trace \<Rightarrow> (bool \<times> trace) option" where
  "send_res_to_client os client_fd res tr = do {
     (ok, tr) \<leftarrow> io_write_all os client_fd [request_result_code res] 1 tr;
     Some (if \<not> ok then (False, tr) else (True, tr)) }"

text \<open>\<^verbatim>\<open>format_create\<close> into a fresh array.\<close>

definition server_create :: "os \<Rightarrow> nat \<Rightarrow> request \<Rightarrow> payload \<Rightarrow> (u8 list \<times> u8 \<times> bool) option" where
  "server_create os cap req pl =
     format_create req pl (os_getpid os) (uninit (os_junk os) cap, os_junk os 0) REQUEST_SENDER_SERVER"

text \<open>
  \<^verbatim>\<open>received = (uint8_t) recv(..)\<close>: an error is 255, a full buffer 0.  What arrives overwrites the
  front of \<open>b\<close>.
\<close>

definition recv_narrow :: "recv_result \<Rightarrow> u8 list \<Rightarrow> u8 \<times> u8 list" where
  "recv_narrow r b = (case r of
      RecvError \<Rightarrow> (word_of_int (-1), b)
    | RecvBytes bs \<Rightarrow> (of_nat (length bs), bs @ drop (length bs) b))"

definition recv_event :: "int \<Rightarrow> recv_result \<Rightarrow> os_event" where
  "recv_event fd r = (case r of RecvError \<Rightarrow> EvRecvError fd | RecvBytes bs \<Rightarrow> EvRecv fd bs)"

definition handle_ping :: "os \<Rightarrow> child list \<Rightarrow> int \<Rightarrow> u8 \<Rightarrow> trace \<Rightarrow> (bool \<times> trace) option" where
  "handle_ping os children client_fd p tr =
     (case find (\<lambda>c. ch_addr c = p) children of
        None \<Rightarrow> Some (True, tr)
      | Some c \<Rightarrow>
          if ch_write_fd c = -1 then send_res_to_client os client_fd REQUEST_ERR tr
          else do {
            (b, buf_len, _) \<leftarrow> server_create os MAX_MSG_LEN REQUEST_PING Null;
            (ok, tr) \<leftarrow> io_write_all os (ch_write_fd c) b buf_len tr;
            (if \<not> ok then send_res_to_client os client_fd REQUEST_ERR tr
             else
               let r = recv_call os tr (ch_write_fd c) MAX_MSG_LEN;
                   tr = tr @ [recv_event (ch_write_fd c) r] in
               (case recv_narrow r b of (n, b) \<Rightarrow>
                  if n > 0 then io_write_all os client_fd b n tr
                  else send_res_to_client os client_fd REQUEST_ERR tr)) })"

definition handle_notify :: "os \<Rightarrow> int \<Rightarrow> notify \<Rightarrow> trace \<Rightarrow> (bool \<times> trace) option" where
  "handle_notify os client_fd n tr =
     (if nt_type n = notify_code NOTIFY_GOT_MESSAGE then
        (if client_fd > 0 then io_write_all os client_fd [request_result_code REQUEST_OK] 1 tr else Some (True, tr))
      else if nt_type n = notify_code NOTIFY_FAIL then
        (if client_fd > 0 then io_write_all os client_fd [request_result_code REQUEST_ERR] 1 tr else Some (True, tr))
      else Some (True, tr))"

subsection \<open>Child processes\<close>

text \<open>A loop over the array that stops at the first child with a property: its index.\<close>

definition child_index :: "(child \<Rightarrow> bool) \<Rightarrow> child list \<Rightarrow> nat option" where
  "child_index P children = find (\<lambda>i. P (children ! i)) [0..<length children]"

definition kill_node :: "child list \<Rightarrow> u8 \<Rightarrow> trace \<Rightarrow> bool \<times> child list \<times> trace" where
  "kill_node children addr tr =
     (case child_index (\<lambda>c. ch_addr c = addr) children of
        None \<Rightarrow> (False, children, tr)
      | Some i \<Rightarrow> let c = children ! i in
          (True, children[i := c\<lparr>ch_write_fd := -1\<rparr>], tr @ [EvClose (ch_write_fd c), EvKill (ch_pid c)]))"

definition handle_kill :: "os \<Rightarrow> child list \<Rightarrow> u8 \<Rightarrow> int \<Rightarrow> trace \<Rightarrow> (bool \<times> child list \<times> trace) option" where
  "handle_kill os children addr client_fd tr =
     (case kill_node children addr tr of (killed, children, tr) \<Rightarrow> do {
        (res, tr) \<leftarrow> send_res_to_client os client_fd (if \<not> killed then REQUEST_ERR else REQUEST_OK) tr;
        Some (res, children, tr) })"

definition handle_update_child :: "os \<Rightarrow> node_update \<Rightarrow> child list \<Rightarrow> trace \<Rightarrow> child list \<times> trace" where
  "handle_update_child os u children tr =
     (case child_index (\<lambda>c. ch_pid c = sint (nu_pid u)) children of
        None \<Rightarrow> (children, tr)
      | Some i \<Rightarrow> (case connection_socket_to_send os (nu_port u) tr of (fd, tr) \<Rightarrow>
          (children[i := (children ! i)\<lparr>ch_port := nu_port u, ch_addr := nu_addr u, ch_write_fd := fd\<rparr>], tr)))"

text \<open>One turn of the loop of \<^verbatim>\<open>handle_reset\<close>, whose \<^verbatim>\<open>res\<close> is overwritten after it.\<close>

definition reset_child :: "os \<Rightarrow> u8 list \<Rightarrow> u8 \<Rightarrow> int \<Rightarrow> nat \<Rightarrow> child list \<times> trace \<Rightarrow> (child list \<times> trace) option" where
  "reset_child os b buf_len client_fd i = (\<lambda>(children, tr).
     if ch_write_fd (children ! i) \<noteq> -1 then do {
       (ok, tr) \<leftarrow> io_write_all os (ch_write_fd (children ! i)) b buf_len tr;
       (if \<not> ok then do { (_, tr) \<leftarrow> send_res_to_client os client_fd REQUEST_UNKNOWN tr; Some (children, tr) }
        else Some (children, tr)) }
     else case revivie_node os (children ! i) tr of (c, tr) \<Rightarrow> Some (children[i := c], tr))"

definition handle_reset :: "os \<Rightarrow> child list \<Rightarrow> int \<Rightarrow> trace \<Rightarrow> (bool \<times> child list \<times> trace) option" where
  "handle_reset os children client_fd tr = do {
     (b, buf_len, _) \<leftarrow> server_create os (sizeof_notify + MSG_BASE_LEN) REQUEST_RESET Null;
     (children, tr) \<leftarrow> mfold (reset_child os b buf_len client_fd) [0..<length children] (children, tr);
     (res, tr) \<leftarrow> send_res_to_client os client_fd REQUEST_OK tr;
     Some (res, children, tr) }"

text \<open>\<^verbatim>\<open>res\<close> is returned as it is: never set when no child has the address.\<close>

definition revive_child :: "os \<Rightarrow> u8 \<Rightarrow> int \<Rightarrow> nat \<Rightarrow> bool option \<times> child list \<times> trace
    \<Rightarrow> (bool option \<times> child list \<times> trace) option" where
  "revive_child os addr client_fd i = (\<lambda>(res, children, tr).
     if ch_addr (children ! i) = addr then
       (if ch_write_fd (children ! i) = -1 then
          (case revivie_node os (children ! i) tr of (c, tr) \<Rightarrow> do {
             (res, tr) \<leftarrow> send_res_to_client os client_fd REQUEST_OK tr;
             Some (Some res, children[i := c], tr) })
        else do {
          (res, tr) \<leftarrow> send_res_to_client os client_fd REQUEST_ERR tr;
          Some (Some res, children, tr) })
     else Some (res, children, tr))"

definition handle_revive :: "os \<Rightarrow> child list \<Rightarrow> u8 \<Rightarrow> int \<Rightarrow> trace \<Rightarrow> (bool \<times> child list \<times> trace) option" where
  "handle_revive os children addr client_fd tr = do {
     (res, children, tr) \<leftarrow> mfold (revive_child os addr client_fd) [0..<length children] (None, children, tr);
     res \<leftarrow> res;
     Some (res, children, tr) }"

subsection \<open>Messages for nodes\<close>

text \<open>The loop that writes a message to every child with an address, up to the first failure.\<close>

primrec write_to_sender :: "os \<Rightarrow> u8 \<Rightarrow> u8 list \<Rightarrow> u8 \<Rightarrow> child list \<Rightarrow> trace \<Rightarrow> (bool \<times> trace) option" where
  "write_to_sender os addr b buf_len [] tr = Some (True, tr)"
| "write_to_sender os addr b buf_len (c # cs) tr =
     (if ch_addr c = addr then do {
        (ok, tr) \<leftarrow> io_write_all os (ch_write_fd c) b buf_len tr;
        (if \<not> ok then Some (False, tr) else write_to_sender os addr b buf_len cs tr) }
      else write_to_sender os addr b buf_len cs tr)"

definition make_send_to_node :: "os \<Rightarrow> child list \<Rightarrow> node_packet \<Rightarrow> trace \<Rightarrow> (bool \<times> trace) option" where
  "make_send_to_node os children p tr = do {
     crc \<leftarrow> packet_crc p;
     let p = p\<lparr>np_crc := crc\<rparr>;
     (b, buf_len, _) \<leftarrow> server_create os MAX_MSG_LEN REQUEST_SEND (Packet p);
     write_to_sender os (np_sender_addr p) b buf_len children tr }"

definition handle_client_send :: "os \<Rightarrow> child list \<Rightarrow> node_packet \<Rightarrow> trace \<Rightarrow> (bool \<times> trace) option" where
  "handle_client_send os children p tr = make_send_to_node os children p tr"

definition handle_broadcast :: "os \<Rightarrow> child list \<Rightarrow> node_packet \<Rightarrow> request \<Rightarrow> trace \<Rightarrow> (bool \<times> trace) option" where
  "handle_broadcast os children p cmd tr = do {
     (b, buf_len, _) \<leftarrow> server_create os MAX_MSG_LEN cmd (Packet p);
     write_to_sender os (np_sender_addr p) b buf_len children tr }"

end
