(* ===== verification/Server.thy ===== *)
theory Server
  imports Server_Handler Serving
begin

text \<open>
  The server process: \<^verbatim>\<open>server/src/server_listener.c\<close> and \<^verbatim>\<open>server/src/server.c\<close>.  It starts a node
  per address, gives every client message an id and remembers, in a ring of four slots, which
  client to answer when a node reports on that id.
\<close>

definition MAX_CLIENT :: nat where "MAX_CLIENT = 4"

record client =
  cl_fd :: int
  cl_app_id :: u16

record server =
  sr_client_fd :: int
  sr_children :: "child list"
  sr_app_msg_id :: u16
  sr_clients :: "client list"
  sr_client_num :: nat
  sr_trace :: trace

subsection \<open>The ring of clients\<close>

definition init_clients :: "server \<Rightarrow> server" where
  "init_clients s = s\<lparr>sr_clients := map (\<lambda>c. c\<lparr>cl_fd := -1\<rparr>) (sr_clients s), sr_client_num := 0\<rparr>"

definition server_listener_init :: "server \<Rightarrow> server" where
  "server_listener_init s = init_clients s"

definition set_client :: "u16 \<Rightarrow> int \<Rightarrow> server \<Rightarrow> server" where
  "set_client mid fd s = (let k = (if sr_client_num s = MAX_CLIENT then 0 else sr_client_num s) in
     s\<lparr>sr_clients := (sr_clients s)[k := \<lparr>cl_fd = fd, cl_app_id = mid\<rparr>], sr_client_num := k + 1\<rparr>)"

definition get_client_fd_by_id :: "u16 \<Rightarrow> server \<Rightarrow> int \<times> server" where
  "get_client_fd_by_id mid s =
     (case find (\<lambda>i. cl_app_id (sr_clients s ! i) = mid) [0..<length (sr_clients s)] of
        None \<Rightarrow> (-1, s)
      | Some i \<Rightarrow> (cl_fd (sr_clients s ! i), s\<lparr>sr_clients := (sr_clients s)[i := (sr_clients s ! i)\<lparr>cl_fd := -1\<rparr>]\<rparr>))"

subsection \<open>Requests\<close>

text \<open>\<^verbatim>\<open>SIGTERM\<close> makes the server interrupt its children and leave the poll loop.\<close>

definition term_handler :: "server \<Rightarrow> server" where
  "term_handler s = s\<lparr>sr_trace := sr_trace s @ [EvSigterm]
     @ map (\<lambda>c. EvKill (ch_pid c)) (filter (\<lambda>c. ch_pid c > 0) (sr_children s))\<rparr>"

definition server_parse :: "os \<Rightarrow> u8 list \<Rightarrow> server \<Rightarrow> (request option \<times> payload \<times> server) option" where
  "server_parse os buf s = do {
     (cmd_type, pl, died) \<leftarrow> format_parse (os_junk os) buf;
     Some (cmd_type, pl, if died then term_handler s else s) }"

text \<open>A client's message gets the next id and the checksum of its application part.\<close>

definition accept_message :: "node_packet \<Rightarrow> server \<Rightarrow> (node_packet \<times> server) option" where
  "accept_message p s = (let a = (np_app p)\<lparr>ap_id := sr_app_msg_id s\<rparr>;
       s = s\<lparr>sr_app_msg_id := sr_app_msg_id s + 1\<rparr> in do {
     crc \<leftarrow> app_crc a;
     let a = a\<lparr>ap_crc := crc\<rparr>;
     Some (p\<lparr>np_app := a\<rparr>, set_client (ap_id a) (sr_client_fd s) s) })"

definition with_trace :: "server \<Rightarrow> (bool \<times> trace) option \<Rightarrow> (bool \<times> server) option" where
  "with_trace s r = map_option (\<lambda>(res, tr). (res, s\<lparr>sr_trace := tr\<rparr>)) r"

definition with_children :: "server \<Rightarrow> (bool \<times> child list \<times> trace) option \<Rightarrow> (bool \<times> server) option" where
  "with_children s r = map_option (\<lambda>(res, cs, tr). (res, s\<lparr>sr_children := cs, sr_trace := tr\<rparr>)) r"

definition handle_client_request :: "os \<Rightarrow> u8 list \<Rightarrow> server \<Rightarrow> (bool \<times> server) option" where
  "handle_client_request os buf s = do {
     (cmd_type, pl, s) \<leftarrow> server_parse os buf s;
     (case cmd_type of
        Some REQUEST_SEND \<Rightarrow> (case pl of Packet p \<Rightarrow> do {
            (p, s) \<leftarrow> accept_message p s;
            with_trace s (handle_client_send os (sr_children s) p (sr_trace s)) } | _ \<Rightarrow> None)
      | Some REQUEST_PING \<Rightarrow> (case pl of
            Addr a \<Rightarrow> with_trace s (handle_ping os (sr_children s) (sr_client_fd s) a (sr_trace s)) | _ \<Rightarrow> None)
      | Some REQUEST_KILL_NODE \<Rightarrow> (case pl of
            Addr a \<Rightarrow> with_children s (handle_kill os (sr_children s) a (sr_client_fd s) (sr_trace s)) | _ \<Rightarrow> None)
      | Some REQUEST_RESET \<Rightarrow>
          (let s = s\<lparr>sr_app_msg_id := 0\<rparr> in
           with_children s (handle_reset os (sr_children s) (sr_client_fd s) (sr_trace s)))
      | Some REQUEST_REVIVE_NODE \<Rightarrow> (case pl of
            Addr a \<Rightarrow> with_children s (handle_revive os (sr_children s) a (sr_client_fd s) (sr_trace s)) | _ \<Rightarrow> None)
      | Some cmd \<Rightarrow>
          if cmd = REQUEST_BROADCAST \<or> cmd = REQUEST_UNICAST then (case pl of Packet p \<Rightarrow> do {
            (p, s) \<leftarrow> accept_message p s;
            with_trace s (handle_broadcast os (sr_children s) p cmd (sr_trace s)) } | _ \<Rightarrow> None)
          else Some (False, s)
      | None \<Rightarrow> Some (False, s)) }"

definition handle_node_request :: "os \<Rightarrow> u8 list \<Rightarrow> server \<Rightarrow> (bool \<times> server) option" where
  "handle_node_request os buf s = do {
     (cmd_type, pl, s) \<leftarrow> server_parse os buf s;
     (case cmd_type of
        Some REQUEST_UPDATE \<Rightarrow> (case pl of
            Update u \<Rightarrow> (case handle_update_child os u (sr_children s) (sr_trace s) of (cs, tr) \<Rightarrow>
              Some (True, s\<lparr>sr_children := cs, sr_trace := tr\<rparr>)) | _ \<Rightarrow> None)
      | Some REQUEST_NOTIFY \<Rightarrow> (case pl of
            Notify n \<Rightarrow> (case get_client_fd_by_id (nt_app_msg_id n) s of (client_fd, s) \<Rightarrow>
              with_trace s (handle_notify os client_fd n (sr_trace s))) | _ \<Rightarrow> None)
      | _ \<Rightarrow> Some (False, s)) }"

definition server_listener_handle :: "os \<Rightarrow> u8 list \<Rightarrow> int \<Rightarrow> server \<Rightarrow> (bool \<times> server) option" where
  "server_listener_handle os buf fd s = do {
     sender \<leftarrow> format_define_sender buf;
     (if sender = sender_code REQUEST_SENDER_CLIENT
      then handle_client_request os buf (s\<lparr>sr_client_fd := fd\<rparr>)
      else if sender = sender_code REQUEST_SENDER_NODE then handle_node_request os buf s
      else Some (False, s)) }"

definition server_request :: "os \<Rightarrow> int \<Rightarrow> server \<Rightarrow> (bool \<times> server) option" where
  "server_request os fd s =
     (case read_frame os fd (sr_trace s) of (frame, tr) \<Rightarrow>
        let s = s\<lparr>sr_trace := tr\<rparr> in
        (case frame of None \<Rightarrow> Some (False, s) | Some buf \<Rightarrow> server_listener_handle os buf fd s))"

subsection \<open>The process\<close>

definition static_server :: "trace \<Rightarrow> server" where
  "static_server tr = \<lparr>sr_client_fd = 0,
     sr_children = replicate NODE_COUNT \<lparr>ch_pid = 0, ch_write_fd = 0, ch_addr = 0, ch_port = 0\<rparr>,
     sr_app_msg_id = 0, sr_clients = replicate MAX_CLIENT \<lparr>cl_fd = 0, cl_app_id = 0\<rparr>, sr_client_num = 0,
     sr_trace = tr\<rparr>"

text \<open>The entry of a child that could not be forked keeps its zeros.\<close>

definition start_child :: "os \<Rightarrow> nat \<Rightarrow> child list \<times> trace \<Rightarrow> child list \<times> trace" where
  "start_child os i = (\<lambda>(children, tr). let pid = fork_call os tr; c = (children ! i)\<lparr>ch_pid := pid\<rparr> in
     (children[i := (if pid < 0 then c else c\<lparr>ch_write_fd := -1, ch_port := UINT16_MAX, ch_addr := UINT8_MAX\<rparr>)],
      tr @ [EvFork pid]))"

definition server_init :: "os \<Rightarrow> trace \<Rightarrow> serving_data \<times> server" where
  "server_init os tr = (let s = static_server tr in
     case connection_socket_to_listen os SERVER_PORT tr of (server_fd, tr) \<Rightarrow>
       let s = s\<lparr>sr_trace := tr\<rparr>;
           s = (if server_fd < 0 then term_handler s else s);
           (children, tr) = fold (start_child os) [0..<NODE_COUNT] (sr_children s, sr_trace s);
           s = s\<lparr>sr_children := children, sr_trace := tr, sr_client_fd := -1\<rparr> in
         (serving_init os server_fd, server_listener_init s))"

definition server_log :: "os_event \<Rightarrow> server \<Rightarrow> server" where
  "server_log e s = s\<lparr>sr_trace := sr_trace s @ [e]\<rparr>"

definition server_poll :: "os \<Rightarrow> serving_data \<Rightarrow> server \<Rightarrow> (serving_data \<times> server) option" where
  "server_poll os sv s = serving_poll os sr_trace server_log (server_request os) sv s"

definition server_running :: "server \<Rightarrow> bool" where
  "server_running s \<longleftrightarrow> EvSigterm \<notin> set (sr_trace s) \<and> (\<forall>k. EvExit k \<notin> set (sr_trace s))"

inductive server_reachable :: "os \<Rightarrow> serving_data \<Rightarrow> server \<Rightarrow> bool" for os where
  start: "server_init os tr = (sv, s) \<Longrightarrow> server_reachable os sv s"
| round: "server_reachable os sv s \<Longrightarrow> server_running s \<Longrightarrow> server_poll os sv s = Some (sv', s') \<Longrightarrow>
    server_reachable os sv' s'"
| terminate: "server_reachable os sv s \<Longrightarrow> server_reachable os sv (term_handler s)"
| interrupt: "server_reachable os sv s \<Longrightarrow> server_reachable os sv (server_log EvSigterm s)"

inductive_cases server_reachableE: "server_reachable os sv s"

end
