(* ===== verification/Server_Spec.thy ===== *)
theory Server_Spec
  imports Server
begin

text \<open>
  What the server's handlers do, and the invariant \<open>server_ok\<close> that every request keeps.
  \<open>offer\<close> is the effect of writing one message to the nodes with an address; the ring of clients
  answers each report once.
\<close>

subsection \<open>Sending, in total form\<close>

primrec offer :: "os \<Rightarrow> u8 \<Rightarrow> u8 list \<Rightarrow> child list \<Rightarrow> trace \<Rightarrow> bool \<times> trace" where
  "offer os addr m [] tr = (True, tr)"
| "offer os addr m (c # cs) tr =
     (if ch_addr c = addr then
        (case io_write_loop os (ch_write_fd c) m (of_nat (length m)) tr of (ok, tr) \<Rightarrow>
           if \<not> ok then (False, tr) else offer os addr m cs tr)
      else offer os addr m cs tr)"

definition server_message :: "os \<Rightarrow> request \<Rightarrow> payload \<Rightarrow> u8 list" where
  "server_message os req pl = transmitted (os_junk os) (os_getpid os) req pl REQUEST_SENDER_SERVER"

lemma io_write_all_eq:
  assumes "unat len \<le> length buf" and "m = take (unat len) buf"
  shows "io_write_all os fd buf len tr = Some (io_write_loop os fd m (of_nat (length m)) tr)"
proof -
  have "of_nat (length m) = len" using assms by simp
  then show ?thesis
    using assms io_write_loop_take [of os fd len buf tr] by (simp add: io_write_all_def)
qed

lemma write_to_sender_eq:
  assumes "unat len \<le> length buf" and "m = take (unat len) buf"
  shows "write_to_sender os addr buf len cs tr = Some (offer os addr m cs tr)"
  by (induction cs arbitrary: tr) (auto simp: io_write_all_eq [OF assms] split: prod.split)

lemma server_create_eq:
  assumes "fits req pl" and "payload_ok pl" and "wire_len pl \<le> cap"
  shows "\<exists>b. server_create os cap req pl = Some (b, of_nat (wire_len pl), False)
     \<and> unat (of_nat (wire_len pl) :: u8) \<le> length b \<and> server_message os req pl = take (unat (of_nat (wire_len pl) :: u8)) b"
proof -
  let ?m = "wire_message req pl (os_getpid os) REQUEST_SENDER_SERVER"
  have len: "length ?m \<le> wire_len pl" by (rule length_wire_message(1) [OF assms(2)])
  then have "server_create os cap req pl = Some (?m @ map (os_junk os) [length ?m..<cap], of_nat (wire_len pl), False)"
    using assms by (simp add: server_create_def format_create_uninit Let_def)
  then show ?thesis
    using take_created [OF assms(2,3), of req "os_getpid os" REQUEST_SENDER_SERVER "os_junk os"] len assms(3)
    by (simp add: server_message_def unat_wire_len [OF assms(2)])
qed

lemma wire_len_bound: "packet_ok p \<Longrightarrow> wire_len (Packet p) \<le> MAX_MSG_LEN"
  using length_wire_message(2) [of "Packet p"] by (simp add: settings)

lemma handle_client_send_eq:
  assumes "packet_ok p"
  shows "handle_client_send os cs p tr
     = Some (offer os (np_sender_addr p) (server_message os REQUEST_SEND (Packet (seal p))) cs tr)"
proof -
  obtain c where c: "packet_crc p = Some c" "p\<lparr>np_crc := c\<rparr> = seal p"
    using packet_crc_Some [OF assms] packet_crc_seal by blast
  have ok: "packet_ok (seal p)" using assms by simp
  obtain b where "server_create os MAX_MSG_LEN REQUEST_SEND (Packet (seal p)) = Some (b, of_nat (wire_len (Packet (seal p))), False)"
    "unat (of_nat (wire_len (Packet (seal p))) :: u8) \<le> length b"
    "server_message os REQUEST_SEND (Packet (seal p)) = take (unat (of_nat (wire_len (Packet (seal p))) :: u8)) b"
    using server_create_eq [of REQUEST_SEND "Packet (seal p)" MAX_MSG_LEN os] wire_len_bound [OF ok] ok
    by (auto simp: fits_def is_route_request_def)
  then show ?thesis
    by (simp add: handle_client_send_def make_send_to_node_def c write_to_sender_eq)
qed

lemma server_broadcast_eq:
  assumes "packet_ok p" and "is_route_request cmd"
  shows "handle_broadcast os cs p cmd tr = Some (offer os (np_sender_addr p) (server_message os cmd (Packet p)) cs tr)"
proof -
  obtain b where "server_create os MAX_MSG_LEN cmd (Packet p) = Some (b, of_nat (wire_len (Packet p)), False)"
    "unat (of_nat (wire_len (Packet p)) :: u8) \<le> length b"
    "server_message os cmd (Packet p) = take (unat (of_nat (wire_len (Packet p)) :: u8)) b"
    using server_create_eq [of cmd "Packet p" MAX_MSG_LEN os] wire_len_bound [OF assms(1)] assms
    by (auto simp: fits_def)
  then show ?thesis by (simp add: handle_broadcast_def write_to_sender_eq)
qed

lemma accept_message_eq:
  assumes "packet_ok p"
  shows "\<exists>crc. accept_message p s = Some (p\<lparr>np_app := (np_app p)\<lparr>ap_id := sr_app_msg_id s, ap_crc := crc\<rparr>\<rparr>,
        set_client (sr_app_msg_id s) (sr_client_fd s) (s\<lparr>sr_app_msg_id := sr_app_msg_id s + 1\<rparr>))
     \<and> app_crc ((np_app p)\<lparr>ap_id := sr_app_msg_id s, ap_crc := crc\<rparr>) = Some crc"
proof -
  let ?a = "(np_app p)\<lparr>ap_id := sr_app_msg_id s\<rparr>"
  have ok: "app_ok ?a" "app_ok (?a\<lparr>ap_crc := c\<rparr>)" for c using assms by (simp_all add: packet_ok_def app_ok_def)
  then obtain crc where crc: "app_crc ?a = Some crc" by (auto simp: app_crc_head crc16_eq)
  moreover have "app_crc (?a\<lparr>ap_crc := crc\<rparr>) = app_crc ?a"
    using app_crc_head [OF ok(1)] app_crc_head [OF ok(2), of crc] by (simp add: app_head_def)
  ultimately show ?thesis
    by (intro exI [of _ crc]) (simp add: accept_message_def Let_def)
qed

subsection \<open>The other handlers are total\<close>

lemma send_res_total [simp]: "\<exists>ok tr'. send_res_to_client os fd res tr = Some (ok, tr')"
  using io_write_all_total [of 1 "[request_result_code res]" os fd tr] by (auto simp: send_res_to_client_def)

lemma send_res_Some: "\<exists>r. send_res_to_client os fd res tr = Some r"
  using send_res_total by blast

lemma handle_notify_total: "\<exists>r. handle_notify os fd n tr = Some r"
  using io_write_all_total [of 1 "[request_result_code REQUEST_OK]" os fd tr]
    io_write_all_total [of 1 "[request_result_code REQUEST_ERR]" os fd tr]
  by (auto simp: handle_notify_def)

text \<open>A message without payload is three bytes.\<close>

lemma server_create_null:
  assumes "3 \<le> cap" and "is_addr_request req"
  shows "server_create os cap req Null
     = Some ([3, request_code req, sender_code REQUEST_SENDER_SERVER] @ map (os_junk os) [3..<cap], 3, False)"
  using assms by (simp add: server_create_def format_create_uninit fits_def wire_message_def Let_def eval_nat_numeral)

lemma handle_ping_total: "\<exists>r. handle_ping os cs fd a tr = Some r"
proof (cases "find (\<lambda>c. ch_addr c = a) cs")
  case None
  then show ?thesis by (auto simp: handle_ping_def)
next
  case (Some c)
  define b where "b = [3, request_code REQUEST_PING, sender_code REQUEST_SENDER_SERVER] @ map (os_junk os) [3..<MAX_MSG_LEN]"
  have b: "server_create os MAX_MSG_LEN REQUEST_PING Null = Some (b, 3, False)"
    using server_create_null [of MAX_MSG_LEN REQUEST_PING os] by (simp add: settings is_addr_request_def b_def)
  have len: "length b = MAX_MSG_LEN" by (simp add: b_def settings)
  obtain ok tr1 where w: "io_write_all os (ch_write_fd c) b 3 tr = Some (ok, tr1)"
    using io_write_all_total [of 3 b os "ch_write_fd c" tr] by (auto simp: len settings)
  define r where "r = recv_call os tr1 (ch_write_fd c) MAX_MSG_LEN"
  have "MAX_MSG_LEN \<le> length (snd (recv_narrow r b))"
    by (auto simp: recv_narrow_def len split: recv_result.split)
  moreover have "unat n \<le> MAX_MSG_LEN" for n :: u8
    using unat_u8_bound [of n] unfolding MAX_MSG_LEN_def by linarith
  ultimately have "unat n \<le> length (snd (recv_narrow r b))" for n :: u8
    by (meson order.trans)
  then have reply: "\<exists>x. io_write_all os fd (snd (recv_narrow r b)) n t = Some x" for n :: u8 and t
    by (simp add: io_write_all_def)
  show ?thesis
  proof (cases "ch_write_fd c = -1")
    case True
    then show ?thesis using send_res_Some by (auto simp: handle_ping_def Some)
  next
    case False
    then show ?thesis
      using reply [of "fst (recv_narrow r b)" "tr1 @ [recv_event (ch_write_fd c) r]"] send_res_Some
      by (auto simp: handle_ping_def Some b w r_def [symmetric] Let_def case_prod_beta)
  qed
qed

lemma handle_kill_total:
  "\<exists>res cs' tr'. handle_kill os cs a fd tr = Some (res, cs', tr') \<and> length cs' = length cs"
proof -
  obtain k cs' tr1 where k: "kill_node cs a tr = (k, cs', tr1)" using prod_cases3 by blast
  then have "length cs' = length cs" by (auto simp: kill_node_def Let_def split: option.splits)
  moreover obtain r tr2 where "send_res_to_client os fd (if \<not> k then REQUEST_ERR else REQUEST_OK) tr1 = Some (r, tr2)"
    using send_res_total by blast
  ultimately show ?thesis by (simp add: handle_kill_def k)
qed

lemma handle_update_child_length: "length (fst (handle_update_child os u cs tr)) = length cs"
  by (simp add: handle_update_child_def split: option.split prod.split)

text \<open>A loop whose body is defined and keeps a property is defined and keeps it.\<close>

lemma mfold_keeps:
  assumes "\<And>x s. x \<in> set xs \<Longrightarrow> Q s \<Longrightarrow> \<exists>s'. f x s = Some s' \<and> Q s'" and "Q s"
  shows "\<exists>s'. mfold f xs s = Some s' \<and> Q s'"
  using assms
proof (induction xs arbitrary: s)
  case (Cons x xs)
  from Cons.prems(1) [of x s] Cons.prems(2) obtain s1 where "f x s = Some s1" "Q s1" by auto
  with Cons.IH [of s1] Cons.prems(1) show ?case by auto
qed simp

lemma handle_reset_total:
  "\<exists>res cs' tr'. handle_reset os cs fd tr = Some (res, cs', tr') \<and> length cs' = length cs"
proof -
  define b where "b = [3, request_code REQUEST_RESET, sender_code REQUEST_SENDER_SERVER] @ map (os_junk os) [3..<6]"
  have b: "server_create os (sizeof_notify + MSG_BASE_LEN) REQUEST_RESET Null = Some (b, 3, False)"
    using server_create_null [of 6 REQUEST_RESET os] by (simp add: sizeof_eqs is_addr_request_def b_def)
  have wr: "\<exists>ok t'. io_write_all os x b 3 t = Some (ok, t')" for x t
    by (rule io_write_all_total) (simp add: b_def)
  have turn: "\<exists>s'. reset_child os b 3 fd i (cs1, tr1) = Some s' \<and> length (fst s') = length cs"
    if len: "length cs1 = length cs" for i cs1 tr1
  proof -
    obtain ok t1 where w: "io_write_all os (ch_write_fd (cs1 ! i)) b 3 tr1 = Some (ok, t1)" using wr by blast
    obtain r t2 where "send_res_to_client os fd REQUEST_UNKNOWN t1 = Some (r, t2)" using send_res_total by blast
    with w len show ?thesis by (cases ok) (auto simp: reset_child_def split: prod.split)
  qed
  obtain cs' tr' where "mfold (reset_child os b 3 fd) [0..<length cs] (cs, tr) = Some (cs', tr')" "length cs' = length cs"
    using mfold_keeps [of "[0..<length cs]" "\<lambda>s. length (fst s) = length cs" "reset_child os b 3 fd" "(cs, tr)"] turn by auto
  moreover obtain r tr2 where "send_res_to_client os fd REQUEST_OK tr' = Some (r, tr2)" using send_res_total by blast
  ultimately show ?thesis by (simp add: handle_reset_def b)
qed


lemma handle_revive_loop:
  "\<exists>res cs' tr'. mfold (revive_child os a fd) xs (res0, cs, tr) = Some (res, cs', tr') \<and> length cs' = length cs
     \<and> map ch_addr cs' = map ch_addr cs \<and> (res = None \<longleftrightarrow> res0 = None \<and> (\<forall>i \<in> set xs. ch_addr (cs ! i) \<noteq> a))"
  if "\<forall>i \<in> set xs. i < length cs"
  using that
proof (induction xs arbitrary: res0 cs tr)
  case (Cons i xs)
  show ?case
  proof (cases "ch_addr (cs ! i) = a")
    case False
    then show ?thesis using Cons.IH [of cs res0 tr] Cons.prems by (simp add: revive_child_def)
  next
    case True
    obtain c t1 where c: "revivie_node os (cs ! i) tr = (c, t1)" by fastforce
    have addr: "ch_addr c = ch_addr (cs ! i)" using c by (auto simp: revivie_node_def Let_def)
    obtain r1 t2 where r1: "send_res_to_client os fd REQUEST_OK t1 = Some (r1, t2)" using send_res_total by blast
    obtain r2 t3 where r2: "send_res_to_client os fd REQUEST_ERR tr = Some (r2, t3)" using send_res_total by blast
    have same: "map ch_addr (cs[i := c]) = map ch_addr cs"
      using addr by (simp add: map_update list_update_same_conv Cons.prems)
    show ?thesis
    proof (cases "ch_write_fd (cs ! i) = -1")
      case w: True
      then have turn: "revive_child os a fd i (res0, cs, tr) = Some (Some r1, cs[i := c], t2)"
        using True c r1 by (simp add: revive_child_def)
      show ?thesis
        using Cons.IH [of "cs[i := c]" "Some r1" t2] Cons.prems same True by (simp add: turn)
    next
      case w: False
      then have turn: "revive_child os a fd i (res0, cs, tr) = Some (Some r2, cs, t3)"
        using True r2 by (simp add: revive_child_def)
      show ?thesis
        using Cons.IH [of cs "Some r2" t3] Cons.prems True by (simp add: turn)
    qed
  qed
qed simp

text \<open>\<^verbatim>\<open>handle_revive\<close> returns a variable it never set exactly when no child has the address.\<close>

lemma handle_revive_eq_None: "handle_revive os cs a fd tr = None \<longleftrightarrow> (\<forall>c \<in> set cs. ch_addr c \<noteq> a)"
proof -
  obtain res cs' tr' where "mfold (revive_child os a fd) [0..<length cs] (None, cs, tr) = Some (res, cs', tr')"
    "res = None \<longleftrightarrow> (\<forall>i \<in> set [0..<length cs]. ch_addr (cs ! i) \<noteq> a)"
    using handle_revive_loop [of "[0..<length cs]" cs os a fd None tr] by auto
  then show ?thesis by (cases res) (auto simp: handle_revive_def all_set_conv_all_nth)
qed

lemma handle_revive_length:
  "handle_revive os cs a fd tr = Some (res, cs', tr') \<Longrightarrow> length cs' = length cs"
  using handle_revive_loop [of "[0..<length cs]" cs os a fd None tr]
  by (auto simp: handle_revive_def bind_eq_Some_conv split: option.splits)


subsection \<open>The invariant of the server\<close>

definition server_ok :: "server \<Rightarrow> bool" where
  "server_ok s \<longleftrightarrow> length (sr_children s) = NODE_COUNT \<and> length (sr_clients s) = MAX_CLIENT
     \<and> sr_client_num s \<le> MAX_CLIENT"

text \<open>
  \<open>serves P s r\<close>: the result \<open>r\<close> keeps the invariant, and it is undefined only if \<open>P\<close>.
\<close>

definition serves :: "bool \<Rightarrow> server \<Rightarrow> (bool \<times> server) option \<Rightarrow> bool" where
  "serves P s r \<longleftrightarrow> (case r of None \<Rightarrow> P | Some (_, s') \<Rightarrow> server_ok s \<longrightarrow> server_ok s')"

lemma serves_simps [simp]: "serves P s None = P" "serves P s (Some (b, s')) \<longleftrightarrow> (server_ok s \<longrightarrow> server_ok s')"
  by (simp_all add: serves_def)

lemma server_ok_updates [simp]:
  "server_ok (s\<lparr>sr_trace := tr\<rparr>) = server_ok s"
  "server_ok (s\<lparr>sr_client_fd := fd\<rparr>) = server_ok s"
  "server_ok (s\<lparr>sr_app_msg_id := i\<rparr>) = server_ok s"
  "server_ok (term_handler s) = server_ok s"
  "length cs = length (sr_children s) \<Longrightarrow> server_ok (s\<lparr>sr_children := cs\<rparr>) = server_ok s"
  by (simp_all add: server_ok_def term_handler_def)

lemma server_ok_set_client: "server_ok s \<Longrightarrow> server_ok (set_client mid fd s)"
  by (simp add: server_ok_def set_client_def Let_def settings MAX_CLIENT_def)

lemma server_ok_get_client: "server_ok s \<Longrightarrow> server_ok (snd (get_client_fd_by_id mid s))"
  by (simp add: server_ok_def get_client_fd_by_id_def split: option.split)

lemma serves_with_trace: "r \<noteq> None \<Longrightarrow> (server_ok s0 \<Longrightarrow> server_ok s) \<Longrightarrow> serves P s0 (with_trace s r)"
  by (auto simp: with_trace_def)

lemma serves_with_children:
  assumes "r = None \<Longrightarrow> P" and "\<And>res cs tr. r = Some (res, cs, tr) \<Longrightarrow> length cs = length (sr_children s)"
    and "server_ok s0 \<Longrightarrow> server_ok s"
  shows "serves P s0 (with_children s r)"
  using assms by (cases r) (auto simp: with_children_def server_ok_def)

lemma serves_same: "server_ok s = server_ok s0 \<Longrightarrow> serves P s r = serves P s0 r"
  by (auto simp: serves_def split: option.split)

definition unknown_revive :: "u8 list \<Rightarrow> server \<Rightarrow> bool" where
  "unknown_revive buf s \<longleftrightarrow> buf ! 0 = request_code REQUEST_REVIVE_NODE
     \<and> (\<forall>c \<in> set (sr_children s). ch_addr c \<noteq> buf ! 2)"

lemma serves_accept:
  assumes "packet_ok p"
    and "\<And>q s. packet_ok q \<Longrightarrow> h q s \<noteq> None"
  shows "serves P s (do { (p, s) \<leftarrow> accept_message p s; with_trace s (h p s) })"
proof -
  obtain crc where acc: "accept_message p s = Some (p\<lparr>np_app := (np_app p)\<lparr>ap_id := sr_app_msg_id s, ap_crc := crc\<rparr>\<rparr>,
        set_client (sr_app_msg_id s) (sr_client_fd s) (s\<lparr>sr_app_msg_id := sr_app_msg_id s + 1\<rparr>))"
    using accept_message_eq [OF assms(1)] by blast
  have "packet_ok (p\<lparr>np_app := (np_app p)\<lparr>ap_id := sr_app_msg_id s, ap_crc := crc\<rparr>\<rparr>)"
    using assms(1) by (simp add: packet_ok_def app_ok_def)
  with assms(2) show ?thesis
    by (simp add: acc) (rule serves_with_trace, auto intro: server_ok_set_client)
qed

lemma server_parse_any:
  assumes "length buf = MAX_MSG_LEN" and "declared_len buf \<le> APP_MESSAGE_LEN"
  shows "\<exists>cmd pl s'. server_parse os buf s = Some (cmd, pl, s') \<and> parsed_as buf cmd pl (cmd = None)
     \<and> s' = (if cmd = None then term_handler s else s)"
  using format_parse_any [OF assms(1), of "os_junk os"] assms(2)
  by (auto simp: server_parse_def parsed_as_def)

lemma parsed_as_Addr:
  "parsed_as buf (Some r) pl d \<Longrightarrow> r \<in> {REQUEST_PING, REQUEST_KILL_NODE, REQUEST_REVIVE_NODE} \<Longrightarrow> pl = Addr (buf ! 2)"
  "parsed_as buf (Some REQUEST_UPDATE) pl d \<Longrightarrow> \<exists>u. pl = Update u"
  "parsed_as buf (Some REQUEST_NOTIFY) pl d \<Longrightarrow> \<exists>n. pl = Notify n"
  "parsed_as buf (Some r) pl d \<Longrightarrow> is_route_request r \<Longrightarrow> \<exists>p. pl = Packet p \<and> packet_ok p"
  "parsed_as buf (Some r) pl d \<Longrightarrow> request_of (buf ! 0) = Some r"
  by (auto simp: parsed_as_def)

lemma handle_client_request_serves:
  assumes "length buf = MAX_MSG_LEN" and "declared_len buf \<le> APP_MESSAGE_LEN"
  shows "serves (unknown_revive buf s) s (handle_client_request os buf s)"
proof -
  obtain cmd pl s1 where parse: "server_parse os buf s = Some (cmd, pl, s1)" "parsed_as buf cmd pl (cmd = None)"
    and s1: "s1 = (if cmd = None then term_handler s else s)"
    using server_parse_any [OF assms] by blast
  show ?thesis
  proof (cases cmd)
    case None
    then show ?thesis by (simp add: handle_client_request_def parse(1) s1)
  next
    case (Some r)
    note parsed = parse(2) [unfolded Some]
    have s1: "s1 = s" using s1 Some by simp
    consider "r = REQUEST_SEND" | "r \<in> {REQUEST_BROADCAST, REQUEST_UNICAST}" | "r = REQUEST_PING" | "r = REQUEST_KILL_NODE"
      | "r = REQUEST_RESET" | "r = REQUEST_REVIVE_NODE"
      | "r \<notin> {REQUEST_SEND, REQUEST_BROADCAST, REQUEST_UNICAST, REQUEST_PING, REQUEST_KILL_NODE, REQUEST_RESET, REQUEST_REVIVE_NODE}"
      by blast
    then show ?thesis
    proof cases
      case 1
      then obtain p where p: "pl = Packet p" "packet_ok p"
        using parsed_as_Addr(4) [OF parsed] by (auto simp: is_route_request_def)
      then have req: "handle_client_request os buf s
          = do { (p, s) \<leftarrow> accept_message p s; with_trace s (handle_client_send os (sr_children s) p (sr_trace s)) }"
        by (simp add: handle_client_request_def parse(1) Some 1 s1)
      show ?thesis
        unfolding req by (rule serves_accept [OF p(2)]) (simp add: handle_client_send_eq)
    next
      case 2
      then obtain p where p: "pl = Packet p" "packet_ok p"
        using parsed_as_Addr(4) [OF parsed] by (auto simp: is_route_request_def)
      then have req: "handle_client_request os buf s
          = do { (p, s) \<leftarrow> accept_message p s; with_trace s (handle_broadcast os (sr_children s) p r (sr_trace s)) }"
        using 2 by (auto simp: handle_client_request_def parse(1) Some s1)
      have "is_route_request r" using 2 by (auto simp: is_route_request_def)
      then show ?thesis
        unfolding req by (intro serves_accept [OF p(2)]) (simp add: server_broadcast_eq)
    next
      case 3
      then show ?thesis
        using parsed_as_Addr(1) [OF parsed] handle_ping_total [of os "sr_children s" "sr_client_fd s" "buf ! 2" "sr_trace s"]
        by (auto simp: handle_client_request_def parse(1) Some s1 intro!: serves_with_trace)
    next
      case 4
      then show ?thesis
        using parsed_as_Addr(1) [OF parsed] handle_kill_total [of os "sr_children s" "buf ! 2" "sr_client_fd s" "sr_trace s"]
        by (auto simp: handle_client_request_def parse(1) Some s1 intro!: serves_with_children)
    next
      case 5
      then show ?thesis
        using handle_reset_total [of os "sr_children s" "sr_client_fd s" "sr_trace s"]
        by (auto simp: handle_client_request_def parse(1) Some s1 Let_def intro!: serves_with_children)
    next
      case 6
      have "buf ! 0 = request_code r"
        using parsed_as_Addr(5) [OF parsed] by (auto simp: request_of_def find_Some_iff)
      then show ?thesis
        using 6 parsed_as_Addr(1) [OF parsed]
        by (auto simp: handle_client_request_def parse(1) Some s1 unknown_revive_def handle_revive_eq_None
            dest: handle_revive_length intro!: serves_with_children)
    next
      case 7
      then show ?thesis by (cases r) (auto simp: handle_client_request_def parse(1) Some s1)
    qed
  qed
qed

lemma handle_node_request_serves:
  assumes "length buf = MAX_MSG_LEN" and "declared_len buf \<le> APP_MESSAGE_LEN"
  shows "serves False s (handle_node_request os buf s)"
proof -
  obtain cmd pl s1 where parse: "server_parse os buf s = Some (cmd, pl, s1)" "parsed_as buf cmd pl (cmd = None)"
    and s1: "s1 = (if cmd = None then term_handler s else s)"
    using server_parse_any [OF assms] by blast
  consider "cmd = Some REQUEST_UPDATE" | "cmd = Some REQUEST_NOTIFY"
    | "cmd \<notin> {Some REQUEST_UPDATE, Some REQUEST_NOTIFY}" by blast
  then show ?thesis
  proof cases
    case 1
    then obtain u where "pl = Update u" using parsed_as_Addr(2) parse(2) by blast
    then show ?thesis
      using 1 handle_update_child_length [of os u "sr_children s" "sr_trace s"]
      by (auto simp: handle_node_request_def parse(1) s1 server_ok_def split: prod.split)
  next
    case 2
    then obtain n where "pl = Notify n" using parsed_as_Addr(3) parse(2) by blast
    then show ?thesis
      using 2 server_ok_get_client [of s "nt_app_msg_id n"] handle_notify_total
      by (auto simp: handle_node_request_def parse(1) s1 case_prod_beta intro!: serves_with_trace)
  next
    case 3
    then show ?thesis
      by (cases cmd; cases "the cmd") (auto simp: handle_node_request_def parse(1) s1)
  qed
qed

definition server_message_in :: "os \<Rightarrow> int \<Rightarrow> server \<Rightarrow> u8 list option" where
  "server_message_in os fd s = fst (read_frame os fd (sr_trace s))"

text \<open>What the server cannot cope with: an overlong message, or reviving an address no child has.\<close>

definition bad_request :: "u8 list \<Rightarrow> server \<Rightarrow> bool" where
  "bad_request buf s \<longleftrightarrow> declared_len buf > APP_MESSAGE_LEN \<or> unknown_revive buf s"

lemma server_request_serves:
  "serves (\<exists>buf. server_message_in os fd s = Some buf \<and> bad_request buf s) s (server_request os fd s)"
proof -
  obtain frame tr where frame: "read_frame os fd (sr_trace s) = (frame, tr)" by fastforce
  show ?thesis
  proof (cases frame)
    case None
    then show ?thesis by (simp add: server_request_def frame Let_def)
  next
    case (Some buf)
    let ?s = "s\<lparr>sr_trace := tr\<rparr>"
    have len: "length buf = MAX_MSG_LEN" using read_frame_length frame Some by metis
    then obtain a b q where buf: "buf = a # b # q"
      by (cases buf; cases "tl buf") (auto simp: settings)
    have req: "server_request os fd s =
       (if b = sender_code REQUEST_SENDER_CLIENT then handle_client_request os buf (?s\<lparr>sr_client_fd := fd\<rparr>)
        else if b = sender_code REQUEST_SENDER_NODE then handle_node_request os buf ?s
        else Some (False, ?s))"
      by (simp add: server_request_def frame Some Let_def server_listener_handle_def buf)
    have in_msg: "server_message_in os fd s = Some buf" by (simp add: server_message_in_def frame Some)
    have un: "unknown_revive buf (?s\<lparr>sr_client_fd := fd\<rparr>) = unknown_revive buf s"
      by (simp add: unknown_revive_def)
    show ?thesis
    proof (cases "declared_len buf \<le> APP_MESSAGE_LEN")
      case True
      have "serves (unknown_revive buf s) s (handle_client_request os buf (?s\<lparr>sr_client_fd := fd\<rparr>))"
        using handle_client_request_serves [OF len True, of "?s\<lparr>sr_client_fd := fd\<rparr>" os] serves_same [of "?s\<lparr>sr_client_fd := fd\<rparr>" s]
        by (simp add: un)
      moreover have "serves False s (handle_node_request os buf ?s)"
        using handle_node_request_serves [OF len True, of ?s os] serves_same [of ?s s] by simp
      ultimately show ?thesis
        by (auto simp: req in_msg bad_request_def serves_def split: option.splits)
    next
      case False
      then have "format_parse (os_junk os) buf = None" using format_parse_any [OF len, of "os_junk os"] by simp
      then show ?thesis
        using False by (simp add: req in_msg bad_request_def handle_client_request_def handle_node_request_def server_parse_def)
    qed
  qed
qed

interpretation server_loop: poll_loop sr_trace server_log "server_request os" server_ok for os
proof unfold_locales
  show "server_ok (server_log e s)" if "server_ok s" for s e
    using that by (simp add: server_log_def)
  show "server_ok s'" if "server_ok s" "server_request os fd s = Some (res, s')" for s fd res s'
    using server_request_serves [of os fd s] that by simp
qed

lemma start_children_length: "length (fst (fold (start_child os) xs (cs, tr))) = length cs"
  by (induction xs arbitrary: cs tr) (simp_all add: start_child_def Let_def)

lemma server_init_ok: "server_init os tr = (sv, s) \<Longrightarrow> serving_ok sv \<and> server_ok s"
  using start_children_length [of os "[0..<NODE_COUNT]" "replicate NODE_COUNT \<lparr>ch_pid = 0, ch_write_fd = 0, ch_addr = 0, ch_port = 0\<rparr>"]
  by (auto simp: server_init_def Let_def case_prod_beta serving_ok_init server_ok_def server_listener_init_def init_clients_def static_server_def
      term_handler_def split: if_splits)

lemma server_reachable_invariant: "server_reachable os sv s \<Longrightarrow> serving_ok sv \<and> server_ok s"
proof (induction rule: server_reachable.induct)
  case (start tr sv s)
  then show ?case by (rule server_init_ok)
next
  case (round sv s sv' s')
  then show ?case
    using server_loop.poll_round [of sv s os os] by (simp add: server_poll_def server_loop.round_ok_def)
qed (simp_all add: server_log_def)

subsection \<open>Answering clients\<close>

text \<open>
  A mailbox of pending answers: \<open>post\<close> enters the descriptor to answer for a message id,
  \<open>collect\<close> hands it out and forgets it.
\<close>

locale mailbox =
  fixes post :: "u16 \<Rightarrow> int \<Rightarrow> 's \<Rightarrow> 's" and collect :: "u16 \<Rightarrow> 's \<Rightarrow> int \<times> 's"
    and pending :: "'s \<Rightarrow> u16 \<Rightarrow> int" and unused :: "'s \<Rightarrow> u16 \<Rightarrow> bool" and invar :: "'s \<Rightarrow> bool"
  assumes collect_pending: "invar s \<Longrightarrow> fst (collect m s) = pending s m"
    and pending_collect: "invar s \<Longrightarrow> pending (snd (collect m s)) m' = (if m' = m then -1 else pending s m')"
    and pending_post: "invar s \<Longrightarrow> unused s m \<Longrightarrow> pending (post m fd s) m = fd"
    and invar_post: "invar s \<Longrightarrow> invar (post m fd s)"
    and invar_collect: "invar s \<Longrightarrow> invar (snd (collect m s))"
begin

lemma answered_once:
  assumes "invar s" and "unused s m"
  shows "fst (collect m (post m fd s)) = fd"
    and "fst (collect m (snd (collect m (post m fd s)))) = -1"
  using assms by (simp_all add: collect_pending pending_collect pending_post invar_post invar_collect)

lemma collect_other:
  assumes "invar s" and "m' \<noteq> m"
  shows "fst (collect m' (snd (collect m s))) = fst (collect m' s)"
  using assms by (simp add: collect_pending pending_collect invar_collect)

end

definition client_slot :: "u16 \<Rightarrow> server \<Rightarrow> nat option" where
  "client_slot mid s = find (\<lambda>i. cl_app_id (sr_clients s ! i) = mid) [0..<length (sr_clients s)]"

definition pending :: "server \<Rightarrow> u16 \<Rightarrow> int" where
  "pending s mid = (case client_slot mid s of None \<Rightarrow> -1 | Some i \<Rightarrow> cl_fd (sr_clients s ! i))"

text \<open>No slot is labelled with the id, as after fewer than 65536 messages since the last reset.\<close>

definition unused_id :: "server \<Rightarrow> u16 \<Rightarrow> bool" where
  "unused_id s mid \<longleftrightarrow> (\<forall>c \<in> set (sr_clients s). cl_app_id c \<noteq> mid)"

lemma get_client_eq:
  "get_client_fd_by_id mid s = (case client_slot mid s of None \<Rightarrow> (-1, s)
     | Some i \<Rightarrow> (cl_fd (sr_clients s ! i), s\<lparr>sr_clients := (sr_clients s)[i := (sr_clients s ! i)\<lparr>cl_fd := -1\<rparr>]\<rparr>))"
  by (simp add: get_client_fd_by_id_def client_slot_def)

lemma client_slot_relabel:
  assumes "i < length (sr_clients s)"
  shows "client_slot mid (s\<lparr>sr_clients := (sr_clients s)[i := (sr_clients s ! i)\<lparr>cl_fd := fd\<rparr>]\<rparr>) = client_slot mid s"
proof -
  have "cl_app_id ((sr_clients s)[i := (sr_clients s ! i)\<lparr>cl_fd := fd\<rparr>] ! k) = cl_app_id (sr_clients s ! k)" for k
    using assms by (cases "k = i") auto
  then show ?thesis by (simp add: client_slot_def)
qed

lemma client_slot_Some: "client_slot mid s = Some i \<Longrightarrow> i < length (sr_clients s) \<and> cl_app_id (sr_clients s ! i) = mid"
  by (auto simp: client_slot_def find_Some_iff)

interpretation replies: mailbox set_client get_client_fd_by_id pending unused_id server_ok
proof unfold_locales
  fix s mid mid' fd
  show "fst (get_client_fd_by_id mid s) = pending s mid"
    by (simp add: get_client_eq pending_def split: option.split)
  show "pending (snd (get_client_fd_by_id mid s)) mid' = (if mid' = mid then -1 else pending s mid')"
  proof (cases "client_slot mid s")
    case None
    then show ?thesis by (simp add: get_client_eq pending_def)
  next
    case (Some i)
    have "mid' = mid \<or> client_slot mid' s \<noteq> Some i"
      using client_slot_Some [OF Some] client_slot_Some [of mid' s i] by auto
    then show ?thesis
      using Some client_slot_Some [OF Some]
      by (auto simp: get_client_eq pending_def client_slot_relabel nth_list_update split: option.split)
  qed
  show "pending (set_client mid fd s) mid = fd" if "server_ok s" "unused_id s mid"
  proof -
    define k where "k = (if sr_client_num s = MAX_CLIENT then 0 else sr_client_num s)"
    have k: "k < length (sr_clients s)" using that(1) by (auto simp: server_ok_def k_def MAX_CLIENT_def)
    have "client_slot mid (set_client mid fd s) = Some k"
      using that(2) k unfolding client_slot_def find_Some_iff
      by (intro exI [of _ k]) (auto simp: set_client_def k_def [symmetric] Let_def unused_id_def)
    then show ?thesis using k by (simp add: pending_def set_client_def k_def [symmetric] Let_def)
  qed
qed (auto intro: server_ok_set_client server_ok_get_client)

subsection \<open>Starting nodes\<close>

lemma run_node_address:
  assumes "unat a < NODE_COUNT"
  shows "run_node a = ([''mesh_node'', decimal (unat a)], False)" and "strtol10 (decimal (unat a)) = Some (int (unat a))"
proof -
  show "run_node a = ([''mesh_node'', decimal (unat a)], False)"
    using assms length_decimal [of "unat a"] by (simp add: run_node_def snprintf_d_def settings)
  have "unat a < 2 ^ 63" by (rule order.strict_trans [OF unat_u8_bound]) simp
  then show "strtol10 (decimal (unat a)) = Some (int (unat a))"
    by (intro strtol10_decimal) (simp only: of_nat_less_numeral_power_cancel_iff)
qed

subsection \<open>Messages of nodes\<close>

text \<open>A node that has started announces its address and port; the server finds its child by process id.\<close>

lemma server_request_update:
  assumes "delivers os fd S"
    and "S = received fd (sr_trace s) @ transmitted junk pid REQUEST_UPDATE (Update u) REQUEST_SENDER_NODE @ rest"
  shows "\<exists>tr. server_request os fd s = (case handle_update_child os (u\<lparr>nu_pid := pid\<rparr>) (sr_children s) tr of
     (cs, tr) \<Rightarrow> Some (True, s\<lparr>sr_trace := tr, sr_children := cs\<rparr>))"
proof -
  obtain r tr where "read_frame os fd (sr_trace s)
      = (Some (request_code REQUEST_UPDATE # sender_code REQUEST_SENDER_NODE # wire_body pid (Update u) @ r), tr)"
    using read_transmitted [OF _ assms] by fastforce
  moreover have u: "\<lparr>nu_pid = pid, nu_port = nu_port u, nu_addr = nu_addr u\<rparr> = u\<lparr>nu_pid := pid\<rparr>" by (cases u) simp
  ultimately have "server_request os fd s = (case handle_update_child os (u\<lparr>nu_pid := pid\<rparr>) (sr_children s) tr of
     (cs, tr) \<Rightarrow> Some (True, s\<lparr>sr_trace := tr, sr_children := cs\<rparr>))"
    by (simp add: server_request_def Let_def server_listener_handle_def handle_node_request_def server_parse_def
        format_parse_def is_route_request_def update_wire_def parse_node_update_payload_def)
      (simp add: codes u split: prod.split)
  then show ?thesis by blast
qed

lemma server_request_notify:
  assumes "delivers os fd S"
    and "S = received fd (sr_trace s) @ transmitted junk pid REQUEST_NOTIFY (Notify n) REQUEST_SENDER_NODE @ rest"
  shows "\<exists>tr. server_request os fd s = (case get_client_fd_by_id (nt_app_msg_id n) (s\<lparr>sr_trace := tr\<rparr>) of
     (client_fd, s) \<Rightarrow> with_trace s (handle_notify os client_fd n (sr_trace s))) \<and> (\<forall>x. sent x tr = sent x (sr_trace s))"
proof -
  obtain r tr where frame: "read_frame os fd (sr_trace s)
      = (Some (request_code REQUEST_NOTIFY # sender_code REQUEST_SENDER_NODE # wire_body pid (Notify n) @ r), tr)"
    using read_transmitted [OF _ assms] by fastforce
  have n: "\<lparr>nt_type = nt_type n, nt_app_msg_id = nt_app_msg_id n\<rparr> = n" by (cases n) simp
  have "server_request os fd s = (case get_client_fd_by_id (nt_app_msg_id n) (s\<lparr>sr_trace := tr\<rparr>) of
     (client_fd, s) \<Rightarrow> with_trace s (handle_notify os client_fd n (sr_trace s)))"
    using frame by (simp add: server_request_def Let_def server_listener_handle_def handle_node_request_def server_parse_def
        format_parse_def is_route_request_def notify_wire_def parse_notify_payload_def)
      (simp add: codes n)
  then show ?thesis using read_frame_sent [OF frame] by blast
qed

subsection \<open>Stale entries\<close>

text \<open>A slot in front that is already labelled with the id keeps answering for it.\<close>

lemma set_client_shadowed:
  assumes "client_slot mid s = Some i" and "i < (if sr_client_num s = MAX_CLIENT then 0 else sr_client_num s)"
  shows "pending (set_client mid fd s) mid = cl_fd (sr_clients s ! i)"
proof -
  define k where "k = (if sr_client_num s = MAX_CLIENT then 0 else sr_client_num s)"
  have i: "i < length (sr_clients s)" "cl_app_id (sr_clients s ! i) = mid" "\<forall>j < i. cl_app_id (sr_clients s ! j) \<noteq> mid"
    using assms(1) by (auto simp: client_slot_def find_Some_iff)
  have neq: "i \<noteq> k" "\<forall>j < i. j \<noteq> k" using assms(2) by (auto simp: k_def)
  have "client_slot mid (set_client mid fd s) = Some i"
    using i neq unfolding client_slot_def find_Some_iff
    by (intro exI [of _ i]) (auto simp: set_client_def k_def [symmetric] Let_def)
  then show ?thesis using neq by (simp add: pending_def set_client_def k_def [symmetric] Let_def)
qed

text \<open>A reset starts the ids again at 0 but leaves the ring as it is.\<close>

lemma reset_keeps_ring:
  assumes "length buf = MAX_MSG_LEN" and "buf ! 0 = request_code REQUEST_RESET"
    and "handle_client_request os buf s = Some (ok, s')"
  shows "sr_clients s' = sr_clients s \<and> sr_client_num s' = sr_client_num s \<and> sr_app_msg_id s' = 0"
proof -
  have "declared_len buf = 0" by (simp add: declared_len_def assms(2) is_route_request_def is_unicast_request_def)
  then obtain cmd pl s1 where parse: "server_parse os buf s = Some (cmd, pl, s1)" "parsed_as buf cmd pl (cmd = None)"
    "s1 = (if cmd = None then term_handler s else s)"
    using server_parse_any [OF assms(1)] by (metis le0)
  have "cmd = Some REQUEST_RESET" using parse(2) assms(2) by (simp add: parsed_as_def)
  then show ?thesis
    using assms(3) parse(1,3) by (auto simp: handle_client_request_def with_children_def Let_def)
qed

subsection \<open>A ping that fails\<close>

text \<open>An error of \<^verbatim>\<open>recv\<close> becomes 255: the server sends its own buffer to the client.\<close>

lemma handle_ping_error:
  assumes "find (\<lambda>c. ch_addr c = a) cs = Some c" and "ch_write_fd c \<noteq> -1"
    and "io_write_all os (ch_write_fd c) ([3, request_code REQUEST_PING, sender_code REQUEST_SENDER_SERVER]
           @ map (os_junk os) [3..<MAX_MSG_LEN]) 3 tr = Some (True, tr1)"
    and "recv_call os tr1 (ch_write_fd c) MAX_MSG_LEN = RecvError"
  shows "handle_ping os cs fd a tr = io_write_all os fd ([3, request_code REQUEST_PING, sender_code REQUEST_SENDER_SERVER]
           @ map (os_junk os) [3..<MAX_MSG_LEN]) 255 (tr1 @ [EvRecvError (ch_write_fd c)])"
proof -
  have minus_one: "(- 1 :: u8) = 255" by simp
  have "3 \<le> MAX_MSG_LEN" by (simp add: settings)
  from server_create_null [OF this, of REQUEST_PING os] show ?thesis
    using assms by (simp add: handle_ping_def recv_narrow_def recv_event_def is_addr_request_def minus_one Let_def)
qed

text \<open>A report answers the client that is waiting for it, and the server forgets the client.\<close>

lemma server_answers:
  assumes "server_ok s" and "pending s mid = client_fd" and "client_fd > 0" and "ty \<in> {NOTIFY_GOT_MESSAGE, NOTIFY_FAIL}"
    and "delivers os fd S"
    and "S = received fd (sr_trace s) @ transmitted junk pid REQUEST_NOTIFY
           (Notify \<lparr>nt_type = notify_code ty, nt_app_msg_id = mid\<rparr>) REQUEST_SENDER_NODE @ rest"
  shows "\<exists>ok s'. server_request os fd s = Some (ok, s') \<and> pending s' mid = -1
     \<and> (ok \<longrightarrow> sent client_fd (sr_trace s') = sent client_fd (sr_trace s)
           @ [request_result_code (if ty = NOTIFY_GOT_MESSAGE then REQUEST_OK else REQUEST_ERR)])"
proof -
  let ?n = "\<lparr>nt_type = notify_code ty, nt_app_msg_id = mid\<rparr>"
    and ?r = "request_result_code (if ty = NOTIFY_GOT_MESSAGE then REQUEST_OK else REQUEST_ERR)"
  obtain tr where req: "server_request os fd s = (case get_client_fd_by_id mid (s\<lparr>sr_trace := tr\<rparr>) of
     (client_fd, s) \<Rightarrow> with_trace s (handle_notify os client_fd ?n (sr_trace s)))" "\<And>x. sent x tr = sent x (sr_trace s)"
    using server_request_notify [OF assms(5,6)] by auto
  let ?s = "s\<lparr>sr_trace := tr\<rparr>"
  define s1 where "s1 = snd (get_client_fd_by_id mid ?s)"
  have ok: "server_ok ?s" using assms(1) by simp
  have "pending ?s m = pending s m" for m by (simp add: pending_def client_slot_def split: option.split)
  then have get: "get_client_fd_by_id mid ?s = (client_fd, s1)" "pending s1 mid = -1" "sr_trace s1 = tr"
    using replies.collect_pending [OF ok, of mid] replies.pending_collect [OF ok, of mid mid] assms(2)
    by (auto simp: s1_def prod_eq_iff get_client_eq split: option.split)
  obtain ok2 tr2 where w: "io_write_all os client_fd [?r] 1 tr = Some (ok2, tr2)"
    using io_write_all_total [of 1 "[?r]" os client_fd tr] by auto
  have "handle_notify os client_fd ?n tr = Some (ok2, tr2)"
    using w assms(3,4) by (auto simp: handle_notify_def codes split: if_splits)
  then have "server_request os fd s = Some (ok2, s1\<lparr>sr_trace := tr2\<rparr>)"
    using req(1) get by (simp add: with_trace_def)
  moreover have "pending (s1\<lparr>sr_trace := tr2\<rparr>) mid = -1"
    using get(2) by (simp add: pending_def client_slot_def split: option.splits)
  ultimately show ?thesis
    using io_write_all_sent(2) [OF w] req(2) by auto
qed

end
