(* ===== verification/Server_Scenarios.thy ===== *)
theory Server_Scenarios
  imports Server_Spec Scenarios
begin

text \<open>Servers, children and messages in which the properties of the server are instantiated.\<close>

definition demo_server :: server where
  "demo_server = (static_server [])\<lparr>sr_children := map (\<lambda>i. \<lparr>ch_pid = 1000 + int i, ch_write_fd = -1, ch_addr = 255, ch_port = 65535\<rparr>)
     [0..<NODE_COUNT]\<rparr>"

lemma demo_server_ok: "server_ok demo_server"
  by (simp add: server_ok_def demo_server_def static_server_def)

lemma demo_server_children [simp]: "length (sr_children demo_server) = 100"
  using demo_server_ok by (simp add: server_ok_def settings)

lemma demo_server_unused: "unused_id demo_server 7"
  by (simp add: unused_id_def demo_server_def static_server_def)

lemma demo_server_child: "child_index (\<lambda>c. ch_pid c = sint (1022 :: u32)) (sr_children demo_server) = Some 22"
proof -
  have "sint (1022 :: u32) = 1022" by simp
  then show ?thesis
    unfolding child_index_def find_Some_iff
    by (intro exI [of _ 22]) (auto simp: demo_server_def settings)
qed

text \<open>The announcement of node 22 and its report on message 7.\<close>

definition demo_update :: node_update where
  "demo_update = \<lparr>nu_pid = 1022, nu_port = node_port 22, nu_addr = 22\<rparr>"

definition demo_report :: "u8 list" where
  "demo_report = transmitted (\<lambda>_. 0) 1000 REQUEST_NOTIFY
     (Notify \<lparr>nt_type = notify_code NOTIFY_GOT_MESSAGE, nt_app_msg_id = 7\<rparr>) REQUEST_SENDER_NODE"

text \<open>A kernel that sends everything but receives nothing.\<close>

definition deaf_os :: os where
  "deaf_os = (demo_os [] 0)\<lparr>os_recv := \<lambda>_ _ _. RecvError\<rparr>"

definition demo_child :: child where
  "demo_child = \<lparr>ch_pid = 1022, ch_write_fd = 5, ch_addr = 22, ch_port = node_port 22\<rparr>"

lemma deaf_writes:
  assumes "unat n \<le> length b" and "0 < n" shows "\<exists>tr'. io_write_all deaf_os fd b n tr = Some (True, tr')"
proof -
  have "send_call deaf_os tr fd (take (unat n) b) = int (unat n)"
    using assms(1) by (simp add: send_call_def deaf_os_def demo_os_def min_def)
  moreover have "\<not> int (unat n) \<le> 0" using assms(2) by (simp only: word_less_nat_alt of_nat_0_less_iff unat_0 not_le)
  moreover have "n - word_of_int (int (unat n)) = 0" by simp
  ultimately have "io_write_loop deaf_os fd b n tr = (True, tr @ [EvSend fd (take (unat n) b) (int (unat n))])"
    using assms(2) by (simp only: io_write_loop.simps [of deaf_os fd b n] io_write_loop.simps [of _ _ _ 0] Let_def if_True if_False simp_thms less_irrefl)
  then show ?thesis using assms(1) by (simp add: io_write_all_def)
qed

text \<open>A reset message, and a server that has answered its first client, on message 0.\<close>

definition demo_reset :: "u8 list" where
  "demo_reset = request_code REQUEST_RESET # replicate 255 0"

lemma demo_reset: "length demo_reset = MAX_MSG_LEN" "demo_reset ! 0 = request_code REQUEST_RESET"
  by (simp_all add: demo_reset_def settings)

definition demo_served_server :: server where
  "demo_served_server = demo_server\<lparr>sr_clients := replicate MAX_CLIENT \<lparr>cl_fd = -1, cl_app_id = 0\<rparr>, sr_client_num := 1\<rparr>"

lemma demo_served_server: "length (sr_clients demo_served_server) = MAX_CLIENT"
  "sr_clients demo_served_server ! 0 = \<lparr>cl_fd = -1, cl_app_id = 0\<rparr>" "sr_client_num demo_served_server = 1"
  "(1 :: nat) < MAX_CLIENT"
  by (simp_all add: demo_served_server_def MAX_CLIENT_def)

lemma demo_reset_handled: "\<exists>ok s'. handle_client_request os demo_reset s = Some (ok, s')"
proof -
  have "request_of (demo_reset ! 0) = Some REQUEST_RESET" by (simp only: demo_reset request_of_code)
  then have "declared_len demo_reset = 0" "\<not> unknown_revive demo_reset s"
    by (simp add: declared_len_def is_route_request_def is_unicast_request_def) (simp add: unknown_revive_def demo_reset codes)
  then show ?thesis
    using handle_client_request_serves [OF demo_reset(1), of s os] by (cases "handle_client_request os demo_reset s") auto
qed

end
