(* ===== verification/Server_Properties.thy ===== *)
theory Server_Properties
  imports Server_Scenarios
begin

text \<open>
  The properties of the server process and of the poll loop it shares with the nodes, with
  instances in the environment of \<open>Scenarios\<close>.
\<close>

section \<open>The process\<close>

text \<open>
  C12: Every state the server reaches is well-formed: a hundred children, four client slots, the
  next slot inside the ring, and the listening socket still watched.
\<close>

theorem server_invariant:
  assumes "server_reachable os sv s"
  shows "server_ok s \<and> serving_ok sv"
  using server_reachable_invariant [OF assms] by blast

theorem server_invariant_witness:
  "\<exists>sv s. server_reachable (demo_os [] 0) sv s \<and> length (sr_children s) = 100"
proof -
  obtain sv s where "server_init (demo_os [] 0) [] = (sv, s)" by fastforce
  then have "server_reachable (demo_os [] 0) sv s" by (rule server_reachable.start)
  with server_invariant [OF this] show ?thesis by (auto simp: server_ok_def settings)
qed

text \<open>
  C13: A request to the server is handled without undefined behaviour and keeps the invariant, unless
  its application message is declared longer than 150 bytes or it asks to revive an address that
  no child has.
\<close>

theorem server_request_safe:
  assumes "\<And>buf. server_message_in os fd s = Some buf \<Longrightarrow> \<not> bad_request buf s"
  shows "\<exists>ok s'. server_request os fd s = Some (ok, s') \<and> (server_ok s \<longrightarrow> server_ok s')"
  using server_request_serves [of os fd s] assms by (cases "server_request os fd s") auto

theorem server_request_safe_witness:
  "\<exists>ok s'. server_request (demo_os [] 0) 9 demo_server = Some (ok, s') \<and> server_ok s'"
proof -
  have "server_message_in (demo_os [] 0) 9 demo_server = None"
    by (simp add: server_message_in_def read_frame_def io_read_all_def io_read_loop.simps recv_call_def demo_os_def
        demo_server_def static_server_def)
  then show ?thesis using server_request_safe [of "demo_os [] 0" 9 demo_server] demo_server_ok by auto
qed

text \<open>
  The poll loop adds an accepted connection to the watched descriptors and takes out exactly the
  one that was closed, growing its array as needed; the listening socket stays entry 0.
\<close>

theorem watched_descriptors:
  assumes "serving_ok sv" and "0 < i" and "i < sv_count sv"
  shows "watched (add_to_pfds os newfd sv) = watched sv @ [newfd]
     \<and> mset (watched (del_from_pfds i sv)) = mset (watched sv) - {#pf_fd (pf_at sv i)#}
     \<and> serving_ok (add_to_pfds os newfd sv) \<and> serving_ok (del_from_pfds i sv)"
  using assms by (simp add: watched_add mset_watched_del serving_ok_add serving_ok_del)

theorem watched_descriptors_witness:
  "watched (del_from_pfds 1 (add_to_pfds (demo_os [] 0) 8 (add_to_pfds (demo_os [] 0) 7 (serving_init (demo_os [] 0) 3)))) = [3, 8]"
proof -
  let ?sv = "add_to_pfds (demo_os [] 0) 8 (add_to_pfds (demo_os [] 0) 7 (serving_init (demo_os [] 0) 3))"
  have ok: "serving_ok ?sv" by (intro serving_ok_add serving_ok_init)
  have w: "watched ?sv = [3, 7, 8]" by (simp add: watched_add serving_ok_add serving_ok_init)
  have "sv_count ?sv = 3" by (simp add: serving_init_def)
  moreover from this have "pf_fd (pf_at ?sv 1) = 7"
    using arg_cong [OF w, of "\<lambda>xs. xs ! 1"] ok by (simp add: watched_def pf_at_def serving_ok_def)
  ultimately have "mset (watched (del_from_pfds 1 ?sv)) = {#3, 8#}"
    using watched_descriptors [OF ok, of 1 "demo_os [] 0" 0] w by (simp add: add_mset_commute)
  moreover have "hd (watched (del_from_pfds 1 ?sv)) = 3"
    using w by (simp add: watched_def del_from_pfds_def add_to_pfds_def serving_init_def numeral_eq_Suc Let_def)
  ultimately show ?thesis by (cases "watched (del_from_pfds 1 ?sv)") auto
qed

section \<open>Nodes\<close>

text \<open>
  A node that announces itself is entered with its address and port in the slot of the child
  with its process id, together with the result of connecting to it; no other child changes.
\<close>

theorem node_registered:
  assumes "delivers os fd S"
    and "S = received fd (sr_trace s) @ transmitted junk pid REQUEST_UPDATE (Update u) REQUEST_SENDER_NODE @ rest"
    and "child_index (\<lambda>c. ch_pid c = sint pid) (sr_children s) = Some i"
  shows "\<exists>tr wfd tr'. connection_socket_to_send os (nu_port u) tr = (wfd, tr')
     \<and> server_request os fd s = Some (True, s\<lparr>sr_trace := tr', sr_children := (sr_children s)
         [i := (sr_children s ! i)\<lparr>ch_port := nu_port u, ch_addr := nu_addr u, ch_write_fd := wfd\<rparr>]\<rparr>)"
proof -
  obtain tr where req: "server_request os fd s = (case handle_update_child os (u\<lparr>nu_pid := pid\<rparr>) (sr_children s) tr of
     (cs, tr) \<Rightarrow> Some (True, s\<lparr>sr_trace := tr, sr_children := cs\<rparr>))"
    using server_request_update [OF assms(1,2)] by blast
  obtain wfd tr' where conn: "connection_socket_to_send os (nu_port u) tr = (wfd, tr')" by fastforce
  show ?thesis
    using assms(3) by (intro exI [of _ tr] exI [of _ wfd] exI [of _ tr'])
      (simp add: req conn handle_update_child_def)
qed

theorem node_registered_witness:
  "\<exists>s'. server_request (demo_os (transmitted (\<lambda>_. 0) 1022 REQUEST_UPDATE (Update demo_update) REQUEST_SENDER_NODE) 0) 9 demo_server
     = Some (True, s') \<and> ch_addr (sr_children s' ! 22) = 22 \<and> ch_port (sr_children s' ! 22) = node_port 22"
proof -
  let ?S = "transmitted (\<lambda>_. 0) 1022 REQUEST_UPDATE (Update demo_update) REQUEST_SENDER_NODE"
  have S: "?S = received 9 (sr_trace demo_server) @ ?S @ []" by (simp add: demo_server_def static_server_def)
  show ?thesis
    using node_registered [OF demo_delivers S, of 22 0] demo_server_child
    by (auto simp: demo_update_def)
qed

text \<open>
  Reviving returns an undefined result exactly when no child has the address: the variable
  \<^verbatim>\<open>res\<close> is then never assigned.
\<close>

theorem revive_undefined_iff:
  "handle_revive os cs a fd tr = None \<longleftrightarrow> (\<forall>c \<in> set cs. ch_addr c \<noteq> a)"
  by (rule handle_revive_eq_None)

theorem revive_undefined_iff_witness:
  "handle_revive (demo_os [] 0) (sr_children demo_server) 200 9 [] = None"
  using revive_undefined_iff [of "demo_os [] 0" "sr_children demo_server" 200 9 "[]"]
  by (auto simp: demo_server_def static_server_def in_set_conv_nth)

text \<open>
  C39: When the node does not answer a ping, the result of \<^verbatim>\<open>recv\<close>, narrowed to a byte, is taken
  for 255 received bytes: instead of an error the client is sent the front of the server's own
  buffer, the ping message and 252 bytes that were never written.
\<close>

theorem ping_error_leaks:
  assumes "find (\<lambda>c. ch_addr c = a) cs = Some c" and "ch_write_fd c \<noteq> -1" and "client_fd \<noteq> ch_write_fd c"
    and "io_write_all os (ch_write_fd c) ([3, request_code REQUEST_PING, sender_code REQUEST_SENDER_SERVER]
           @ map (os_junk os) [3..<MAX_MSG_LEN]) 3 tr = Some (True, tr1)"
    and "recv_call os tr1 (ch_write_fd c) MAX_MSG_LEN = RecvError"
    and "Server_Handler.handle_ping os cs client_fd a tr = Some (ok, tr')" and "ok"
  shows "sent client_fd tr' = sent client_fd tr1 @ [3, request_code REQUEST_PING, sender_code REQUEST_SENDER_SERVER]
           @ map (os_junk os) [3..<255]"
proof -
  let ?b = "[3, request_code REQUEST_PING, sender_code REQUEST_SENDER_SERVER] @ map (os_junk os) [3..<MAX_MSG_LEN]"
  have "io_write_all os client_fd ?b 255 (tr1 @ [EvRecvError (ch_write_fd c)]) = Some (True, tr')"
    using handle_ping_error [OF assms(1,2,4,5)] assms(6,7) by simp
  from io_write_all_sent(2) [OF this] have "sent client_fd tr' = sent client_fd tr1 @ take 255 ?b" by simp
  moreover have "take 255 ?b = [3, request_code REQUEST_PING, sender_code REQUEST_SENDER_SERVER] @ map (os_junk os) [3..<255]"
    by (simp add: settings take_map)
  ultimately show ?thesis by simp
qed

theorem ping_error_leaks_witness:
  "\<exists>tr1 tr'. Server_Handler.handle_ping deaf_os [demo_child] 9 22 [] = Some (True, tr')
     \<and> sent 9 tr' = sent 9 tr1 @ [3, request_code REQUEST_PING, sender_code REQUEST_SENDER_SERVER] @ map (os_junk deaf_os) [3..<255]"
proof -
  let ?b = "[3, request_code REQUEST_PING, sender_code REQUEST_SENDER_SERVER] @ map (os_junk deaf_os) [3..<MAX_MSG_LEN]"
  have len: "length ?b = 256" by (simp add: settings)
  obtain tr1 where w: "io_write_all deaf_os 5 ?b 3 [] = Some (True, tr1)"
    using deaf_writes [of 3 ?b 5 "[]"] len by auto
  have r: "recv_call deaf_os tr1 5 MAX_MSG_LEN = RecvError" by (simp add: recv_call_def deaf_os_def)
  have c: "find (\<lambda>c. ch_addr c = 22) [demo_child] = Some demo_child" "ch_write_fd demo_child = 5"
    by (simp_all add: demo_child_def)
  obtain tr' where p: "Server_Handler.handle_ping deaf_os [demo_child] 9 22 [] = Some (True, tr')"
    using handle_ping_error [of 22 "[demo_child]" demo_child deaf_os "[]" tr1 9] c w r
      deaf_writes [of 255 ?b 9 "tr1 @ [EvRecvError 5]"] len by auto
  then show ?thesis
    using ping_error_leaks [OF c(1) _ _ _ _ p] c(2) w r by auto
qed

section \<open>Clients\<close>

text \<open>
  C23: A node's report on a message reaches the client that sent it: the server writes the status
  byte to the descriptor it remembered for the id, and forgets the descriptor, so that a second
  report is answered to nobody.
\<close>

theorem client_answered:
  assumes "server_ok s" and "pending s mid = client_fd" and "client_fd > 0" and "ty \<in> {NOTIFY_GOT_MESSAGE, NOTIFY_FAIL}"
    and "delivers os fd S"
    and "S = received fd (sr_trace s) @ transmitted junk pid REQUEST_NOTIFY
           (Notify \<lparr>nt_type = notify_code ty, nt_app_msg_id = mid\<rparr>) REQUEST_SENDER_NODE @ rest"
  shows "\<exists>ok s'. server_request os fd s = Some (ok, s') \<and> pending s' mid = -1
     \<and> (ok \<longrightarrow> sent client_fd (sr_trace s') = sent client_fd (sr_trace s)
           @ [request_result_code (if ty = NOTIFY_GOT_MESSAGE then REQUEST_OK else REQUEST_ERR)])"
  by (rule server_answers [OF assms])

theorem client_answered_witness:
  "\<exists>ok s'. server_request (demo_os demo_report 0) 9 (set_client 7 6 demo_server) = Some (ok, s') \<and> pending s' 7 = -1"
proof -
  let ?s = "set_client 7 6 demo_server"
  have ok: "server_ok ?s" and p: "pending ?s 7 = 6"
    using replies.pending_post [OF demo_server_ok, of 7 6] demo_server_unused demo_server_ok server_ok_set_client by auto
  have S: "demo_report = received 9 (sr_trace ?s) @ transmitted (\<lambda>_. 0) 1000 REQUEST_NOTIFY
      (Notify \<lparr>nt_type = notify_code NOTIFY_GOT_MESSAGE, nt_app_msg_id = 7\<rparr>) REQUEST_SENDER_NODE @ []"
    by (simp add: demo_report_def set_client_def demo_server_def static_server_def Let_def)
  show ?thesis
    using client_answered [OF ok p _ _ demo_delivers S] by simp blast
qed

text \<open>
  A client is answered once: with an id that no slot carries, the descriptor posted for it is
  handed out to the first report and to no later one, and reports on other messages do not take it.
\<close>

theorem answered_exactly_once:
  assumes "server_ok s" and "unused_id s mid" and "other \<noteq> mid"
  shows "fst (get_client_fd_by_id mid (set_client mid fd s)) = fd
     \<and> fst (get_client_fd_by_id mid (snd (get_client_fd_by_id other (set_client mid fd s)))) = fd
     \<and> fst (get_client_fd_by_id mid (snd (get_client_fd_by_id mid (set_client mid fd s)))) = -1"
  using replies.answered_once [OF assms(1,2), of fd]
    replies.collect_other [OF replies.invar_post [OF assms(1)], of mid other mid fd] assms(3) by simp

theorem answered_exactly_once_witness:
  "fst (get_client_fd_by_id 7 (set_client 7 6 demo_server)) = 6"
  using answered_exactly_once [OF demo_server_ok demo_server_unused, of 8 6] by simp

text \<open>
  C38: The first client after a reset is not answered.  The ids start again at 0 but the ring keeps
  its entries, so that a slot answered long ago, still labelled 0, hides the new one.
\<close>

theorem stale_client_after_reset:
  assumes "length buf = MAX_MSG_LEN" and "buf ! 0 = request_code REQUEST_RESET"
    and "length (sr_clients s) = MAX_CLIENT" and "sr_clients s ! 0 = \<lparr>cl_fd = -1, cl_app_id = 0\<rparr>"
    and "0 < sr_client_num s" and "sr_client_num s < MAX_CLIENT"
    and "handle_client_request os buf s = Some (ok, s1)" and "packet_ok p" and "accept_message p s1 = Some (q, s2)"
  shows "ap_id (np_app q) = 0 \<and> pending s2 0 = -1"
proof -
  have s1: "sr_clients s1 = sr_clients s" "sr_client_num s1 = sr_client_num s" "sr_app_msg_id s1 = 0"
    using reset_keeps_ring [OF assms(1,2,7)] by blast+
  let ?s = "s1\<lparr>sr_app_msg_id := sr_app_msg_id s1 + 1\<rparr>"
  have "client_slot 0 ?s = Some 0"
    using assms(3,4) unfolding client_slot_def find_Some_iff
    by (intro exI [of _ 0]) (simp add: s1 MAX_CLIENT_def)
  then have "pending (set_client 0 (sr_client_fd s1) ?s) 0 = -1"
    using set_client_shadowed [of 0 ?s 0 "sr_client_fd s1"] assms(4-6) by (simp add: s1)
  then show ?thesis
    using accept_message_eq [OF assms(8), of s1] assms(9) by (auto simp: s1)
qed

theorem stale_client_after_reset_witness:
  "\<exists>ok s1 q s2. handle_client_request (demo_os [] 0) demo_reset demo_served_server = Some (ok, s1)
     \<and> accept_message (demo_packet 0) s1 = Some (q, s2) \<and> pending s2 0 = -1"
proof -
  obtain ok s1 where r: "handle_client_request (demo_os [] 0) demo_reset demo_served_server = Some (ok, s1)"
    using demo_reset_handled by blast
  obtain q s2 where a: "accept_message (demo_packet 0) s1 = Some (q, s2)"
    using accept_message_eq [OF demo_packet_ok(1), of 0 s1] by blast
  show ?thesis
    using stale_client_after_reset [OF demo_reset _ _ _ _ r demo_packet_ok(1) a] demo_served_server r a by auto
qed

end
