(* ===== verification/Mesh.thy ===== *)
theory Mesh
  imports Node_Behaviour "HOL-Library.Multiset"
begin

text \<open>
  The mesh during the search for a route: all nodes, and the packets on their way between them.
  \<open>Node_Norm\<close> shows that a message one node transmits is handled by another as the value that was
  sent; here a packet in the air is just a value with its destination.  A step lets one node handle one
  packet, in any order, with any result of the system calls, and any of the copies it floods may
  be lost.
\<close>

subsection \<open>Steps\<close>

text \<open>Whether a node floods a packet on, and the copies it then sends to its neighbours.\<close>

definition relays :: "node \<Rightarrow> node_packet \<Rightarrow> bool" where
  "relays nd p \<longleftrightarrow> sint (np_time_to_live p) > 0 \<and> valid_crc p \<and> \<not> handled nd (ap_id (np_app p))
     \<and> np_receiver_addr p \<noteq> nd_addr nd"

definition flood_copy :: "u8 \<Rightarrow> node_packet \<Rightarrow> node_packet" where
  "flood_copy a p = one_hop_less (p\<lparr>np_local_sender_addr := a\<rparr>)"

definition copies :: "u8 \<Rightarrow> node_packet \<Rightarrow> (u8 \<times> node_packet) multiset" where
  "copies a p = image_mset (\<lambda>b. (b, flood_copy a p)) (mset (neighbor_addrs a))"

lemma flood_copy_simps [simp]: "packet_ok (flood_copy a p) = packet_ok p"
  "np_sender_addr (flood_copy a p) = np_sender_addr p" "np_receiver_addr (flood_copy a p) = np_receiver_addr p"
  "np_local_sender_addr (flood_copy a p) = a" "np_time_to_live (flood_copy a p) = np_time_to_live p - 1"
  "np_app (flood_copy a p) = np_app p"
  by (simp_all add: flood_copy_def one_hop_less_def)

lemma flood_copy_valid: "packet_ok p \<Longrightarrow> valid_crc (flood_copy a p)"
  by (simp add: flood_copy_def one_hop_less_def seal_valid)

text \<open>This is what the handler does: it floods the copy exactly when \<open>relays\<close> holds.\<close>

lemma relays_floods:
  assumes "node_ok nd" and "relays nd p" and addr: "unat (nd_addr nd) < NODE_COUNT"
  shows "nd_net (snd (route_direct os p nd)) = flood os (map node_port (neighbor_addrs (nd_addr nd)))
     (os_transmitted os REQUEST_ROUTE_DIRECT (Packet (flood_copy (nd_addr nd) p))) (nd_net nd)"
proof -
  have "fst (was_message.once (nd_messages nd) (ap_id (np_app p)))"
    using assms by (simp add: was_message.once_eq node_ok_def relays_def handled_def)
  moreover have "neighbor_ports (nd_neighbors nd) = map node_port (neighbor_addrs (nd_addr nd))"
    using fill_neighbors [OF addr] assms(1) by (auto simp: node_ok_def)
  ultimately show ?thesis
    using assms(2) by (simp add: route_direct_def relays_def relay_def flood_copy_def Let_def case_prod_beta)
qed

type_synonym mesh = "(u8 \<Rightarrow> node) \<times> (u8 \<times> node_packet) multiset"

inductive mesh_step :: "mesh \<Rightarrow> mesh \<Rightarrow> bool" where
  receive: "(a, p) \<in># air \<Longrightarrow> handle_node_route_direct os p (nodes a) = Some (ok, nd') \<Longrightarrow>
    new \<subseteq># (if relays (nodes a) p then copies a p else {#}) \<Longrightarrow>
    mesh_step (nodes, air) (nodes(a := nd'), air - {#(a, p)#} + new)"
| lose: "(a, p) \<in># air \<Longrightarrow> mesh_step (nodes, air) (nodes, air - {#(a, p)#})"

inductive_cases mesh_stepE: "mesh_step (nodes, air) (nodes', air')"

subsection \<open>Flooding ends\<close>

definition hops_left :: "u8 \<times> node_packet \<Rightarrow> nat" where
  "hops_left x = nat (sint (np_time_to_live (snd x)))"

lemma sint_minus_1: "sint (t :: i8) > 0 \<Longrightarrow> sint (t - 1) = sint t - 1"
proof -
  assume pos: "sint t > 0"
  have bounds: "sint t < 128" using sint_lt [of t] by simp
  have wrap: "sint (word_of_int x :: i8) = x" if "-128 \<le> x" "x < 128" for x
    using that signed_take_bit_int_eq_self [of 7 x] by (simp add: signed_of_int)
  have "t - 1 = word_of_int (sint t - 1)" by simp
  then show ?thesis using wrap [of "sint t - 1"] pos bounds by (simp only:)
qed

lemma copies_hops: "relays nd p \<Longrightarrow> x \<in># copies a p \<Longrightarrow> hops_left x < hops_left (b, p)"
  by (auto simp: copies_def hops_left_def relays_def sint_minus_1)

text \<open>A step that replaces one element by lighter ones makes a multiset of weights smaller.\<close>

lemma replace_lighter:
  assumes "x \<in># air" and "\<And>y. y \<in># new \<Longrightarrow> f y < f x"
  shows "(image_mset f (air - {#x#} + new), image_mset f air) \<in> mult less_than"
proof -
  obtain rest where air: "air = rest + {#x#}" using assms(1) by (metis insert_DiffM2)
  have "\<forall>k \<in># image_mset f new. \<exists>j \<in># image_mset f {#x#}. (k, j) \<in> less_than" using assms(2) by auto
  from one_step_implies_mult [OF _ this, of "image_mset f rest"] show ?thesis by (simp add: air)
qed

lemmas remove_lighter = replace_lighter [where new = "{#}", simplified]

lemma mesh_step_decreases:
  assumes "mesh_step s t"
  shows "(image_mset hops_left (snd t), image_mset hops_left (snd s)) \<in> mult less_than"
  using assms
proof cases
  case (receive a p air os nodes ok nd' new)
  have "hops_left y < hops_left (a, p)" if "y \<in># new" for y
    using receive(5) that copies_hops [of "nodes a" p y a a] by (auto split: if_splits dest: mset_subset_eqD)
  from replace_lighter [where f = hops_left, OF receive(3) this] show ?thesis by (simp add: receive(1,2))
qed (simp add: remove_lighter)

lemma flooding_wf: "wf {(t, s). mesh_step s t}"
proof (rule wf_subset)
  show "wf (inv_image (mult less_than) (\<lambda>s :: mesh. image_mset hops_left (snd s)))"
    by (intro wf_inv_image wf_mult) simp
qed (auto simp: inv_image_def dest: mesh_step_decreases)

subsection \<open>The states of one search\<close>

text \<open>
  A search for \<open>r\<close> from \<open>s\<close> starts when \<open>s\<close> floods its packet.  In a mesh where no node has a route
  to \<open>s\<close> yet, this is where all routes to \<open>s\<close> come from.
\<close>

definition first_packet :: "node_packet \<Rightarrow> node_packet" where
  "first_packet p = p\<lparr>np_time_to_live := word_of_int TTL\<rparr>"

inductive search_reachable :: "u8 \<Rightarrow> node_packet \<Rightarrow> mesh \<Rightarrow> bool" for s p where
  start: "\<forall>a. node_ok (nodes a) \<and> nd_addr (nodes a) = a \<and> routing_map (nd_routing (nodes a)) s = None \<Longrightarrow>
    air \<subseteq># copies s (first_packet p) \<Longrightarrow> search_reachable s p (nodes, air)"
| step: "search_reachable s p x \<Longrightarrow> mesh_step x y \<Longrightarrow> search_reachable s p y"

text \<open>The node \<open>h\<close> can hand on what is meant for \<open>s\<close>, at a distance of at most \<open>d\<close>.\<close>

definition serves_route :: "(u8 \<Rightarrow> node) \<Rightarrow> u8 \<Rightarrow> u8 \<Rightarrow> u8 \<Rightarrow> int \<Rightarrow> bool" where
  "serves_route nodes s r h d \<longleftrightarrow> h = s \<or> (h \<noteq> r \<and>
     (\<exists>h' k'. routing_map (nd_routing (nodes h)) s = Some (h', k') \<and> sint k' \<le> d))"

definition packet_in_search :: "(u8 \<Rightarrow> node) \<Rightarrow> u8 \<Rightarrow> u8 \<Rightarrow> u8 \<times> node_packet \<Rightarrow> bool" where
  "packet_in_search nodes s r x = (case x of (b, p) \<Rightarrow> packet_ok p \<and> valid_crc p \<and> np_sender_addr p = s
     \<and> np_receiver_addr p = r \<and> near (np_local_sender_addr p) b
     \<and> 0 \<le> sint (np_time_to_live p) \<and> sint (np_time_to_live p) < TTL
     \<and> serves_route nodes s r (np_local_sender_addr p) (TTL - sint (np_time_to_live p)))"

definition route_in_search :: "(u8 \<Rightarrow> node) \<Rightarrow> u8 \<Rightarrow> u8 \<Rightarrow> u8 \<Rightarrow> bool" where
  "route_in_search nodes s r a \<longleftrightarrow> (\<forall>h k. routing_map (nd_routing (nodes a)) s = Some (h, k) \<longrightarrow>
     near a h \<and> 2 \<le> sint k \<and> serves_route nodes s r h (sint k - 1))"

definition search_ok :: "u8 \<Rightarrow> u8 \<Rightarrow> mesh \<Rightarrow> bool" where
  "search_ok s r x \<longleftrightarrow> (\<forall>a. node_ok (fst x a) \<and> nd_addr (fst x a) = a)
     \<and> (\<forall>y \<in># snd x. packet_in_search (fst x) s r y) \<and> (\<forall>a. route_in_search (fst x) s r a)"

lemma near_hop: "near h a \<Longrightarrow> h \<noteq> UINT8_MAX \<and> h \<noteq> a \<and> near a h"
  using near_irrefl [of a] near_sym [of h a] by (auto simp: near_def settings)

lemma copies_near: "unat a < NODE_COUNT \<Longrightarrow> (b, q) \<in># copies a p \<Longrightarrow> near a b \<and> q = flood_copy a p"
  using neighbor_addrs(1) [of a] by (auto simp: copies_def)

text \<open>What one node's table does to the route to \<open>s\<close> when it handles a packet of the search.\<close>

lemma delivered_routes:
  "routing_ok (nd_routing nd) \<Longrightarrow> routing_map (nd_routing (snd (delivered os p nd))) d
     \<in> {routing_map (nd_routing nd) d, None}"
  by (auto simp: delivered_def Let_def case_prod_beta routes.route_del report_def split: option.split)

lemma handle_search_packet:
  assumes "node_ok nd" and "packet_ok p" and "np_local_sender_addr p \<noteq> UINT8_MAX"
    and "handle_node_route_direct os p nd = Some (ok, nd')"
  shows "routing_map (nd_routing nd') (np_sender_addr p) \<in> {routing_map (nd_routing nd) (np_sender_addr p),
       Some (np_local_sender_addr p, packet_metric p), None}"
    and "np_receiver_addr p \<noteq> nd_addr nd \<Longrightarrow> routing_map (nd_routing nd) (np_sender_addr p) = Some (h, k) \<Longrightarrow>
       \<exists>h' k'. routing_map (nd_routing nd') (np_sender_addr p) = Some (h', k') \<and> sint k' \<le> sint k"
    and "relays nd p \<Longrightarrow> sint (np_time_to_live p) \<le> TTL \<Longrightarrow> unat (np_sender_addr p) < NODE_COUNT \<Longrightarrow>
       \<exists>h' k'. routing_map (nd_routing nd') (np_sender_addr p) = Some (h', k')
         \<and> sint k' \<le> TTL - sint (np_time_to_live p) + 1"
proof -
  define t where "t = routes.relax (nd_routing nd) (np_sender_addr p) (np_local_sender_addr p) (packet_metric p)"
  define u where "u = (if sint (packet_metric p) > 0 then t else nd_routing nd)"
  have ok: "routing_ok (nd_routing nd)" using assms(1) by (simp add: node_ok_def)
  then have oku: "routing_ok u" by (simp add: u_def t_def routes.relax_invar)
  have nd': "nd' = snd (route_direct os p nd)"
    using assms(4) by (simp add: handle_node_route_direct_eq [OF assms(2)])
  define ms where "ms = snd (was_message.once (nd_messages nd) (ap_id (np_app p)))"
  define x where "x = nd\<lparr>nd_messages := ms, nd_routing := u\<rparr>"
  have "nd' \<in> {nd, nd\<lparr>nd_messages := ms\<rparr>, if np_receiver_addr p = nd_addr nd then snd (delivered os p x)
      else relay os (p\<lparr>np_local_sender_addr := nd_addr nd\<rparr>) x}"
    by (simp add: nd' route_direct_def x_def u_def t_def ms_def Let_def case_prod_beta)
  moreover have "nd_routing x = u" by (simp add: x_def)
  ultimately have cases: "nd_routing nd' = nd_routing nd \<or> nd_routing nd' = u
     \<or> np_receiver_addr p = nd_addr nd \<and> (\<exists>x. nd_routing x = u \<and> nd' = snd (delivered os p x))"
    by (auto simp: relay_def split: if_splits)
  have map_u: "routing_map u (np_sender_addr p) \<in> {routing_map (nd_routing nd) (np_sender_addr p),
       Some (np_local_sender_addr p, packet_metric p)}"
    using routes.relax_origin [OF ok assms(3), of "np_sender_addr p" "packet_metric p"] by (auto simp: u_def t_def)
  show "routing_map (nd_routing nd') (np_sender_addr p) \<in> {routing_map (nd_routing nd) (np_sender_addr p),
       Some (np_local_sender_addr p, packet_metric p), None}"
    using cases map_u delivered_routes [of _ os p "np_sender_addr p"] oku by fastforce
  show "\<exists>h' k'. routing_map (nd_routing nd') (np_sender_addr p) = Some (h', k') \<and> sint k' \<le> sint k"
    if "np_receiver_addr p \<noteq> nd_addr nd" "routing_map (nd_routing nd) (np_sender_addr p) = Some (h, k)"
    using cases that routes.relax_monotone [OF ok assms(3) that(2), of "np_sender_addr p" "packet_metric p"]
    by (auto simp: u_def t_def)
  show "\<exists>h' k'. routing_map (nd_routing nd') (np_sender_addr p) = Some (h', k')
         \<and> sint k' \<le> TTL - sint (np_time_to_live p) + 1"
    if r: "relays nd p" "sint (np_time_to_live p) \<le> TTL" "unat (np_sender_addr p) < NODE_COUNT"
  proof -
    have metric: "sint (packet_metric p) = TTL - sint (np_time_to_live p) + 1"
      using r by (intro packet_metric_exact) (simp_all add: relays_def)
    have first: "fst (was_message.once (nd_messages nd) (ap_id (np_app p)))"
      using assms(1) r(1) by (simp add: was_message.once_eq node_ok_def relays_def handled_def)
    have "sint (packet_metric p) > 0" using metric r(2) by linarith
    then have "nd_routing nd' = t"
      using r(1) first by (simp add: nd' route_direct_def relays_def t_def Let_def case_prod_beta relay_def)
    then show ?thesis using routes.relax_known [OF ok r(3) assms(3)] metric by (metis t_def)
  qed
qed

subsection \<open>Routes lead back to the origin\<close>

lemma first_packet_ttl: "sint (np_time_to_live (flood_copy s (first_packet p))) = TTL - 1"
  by (simp add: first_packet_def TTL_eq)

lemma search_ok_start:
  assumes "\<forall>a. node_ok (nodes a) \<and> nd_addr (nodes a) = a \<and> routing_map (nd_routing (nodes a)) s = None"
    and "air \<subseteq># copies s (first_packet p)" and "unat s < NODE_COUNT" and "packet_ok p" and "np_sender_addr p = s"
  shows "search_ok s (np_receiver_addr p) (nodes, air)"
proof -
  have "packet_in_search nodes s (np_receiver_addr p) y" if "y \<in># air" for y
  proof -
    obtain b q where y: "y = (b, q)" by (cases y)
    have q: "near s b" "q = flood_copy s (first_packet p)"
      using copies_near [OF assms(3)] mset_subset_eqD [OF assms(2) that] by (auto simp: y)
    have ok: "packet_ok (first_packet p)" using assms(4) by (simp add: first_packet_def)
    show ?thesis
      using q(1) ok flood_copy_valid [OF ok, of s] first_packet_ttl [of s p] assms(5)
      by (simp add: packet_in_search_def y q(2) serves_route_def) (simp add: first_packet_def TTL_eq)
  qed
  then show ?thesis using assms(1) by (simp add: search_ok_def route_in_search_def)
qed

lemma serves_route_mono: "serves_route nodes s r h d \<Longrightarrow> d \<le> e \<Longrightarrow> serves_route nodes s r h e"
  unfolding serves_route_def by (meson order.trans)

text \<open>A node other than the receiver that handles a packet keeps serving its route.\<close>

lemma serves_route_update:
  assumes "serves_route nodes s r h d"
    and "\<And>h k. a \<noteq> r \<Longrightarrow> routing_map (nd_routing (nodes a)) s = Some (h, k) \<Longrightarrow>
       \<exists>h' k'. routing_map (nd_routing nd') s = Some (h', k') \<and> sint k' \<le> sint k"
  shows "serves_route (nodes(a := nd')) s r h d"
proof (cases "h = s \<or> h \<noteq> a")
  case True
  then show ?thesis using assms(1) by (auto simp: serves_route_def)
next
  case False
  then obtain h' k' where "a \<noteq> r" "routing_map (nd_routing (nodes a)) s = Some (h', k')" "sint k' \<le> d"
    using assms(1) by (auto simp: serves_route_def)
  with assms(2) obtain h2 k2 where "routing_map (nd_routing nd') s = Some (h2, k2)" "sint k2 \<le> sint k'" by blast
  then show ?thesis
    using False \<open>a \<noteq> r\<close> \<open>sint k' \<le> d\<close> by (auto simp: serves_route_def)
qed

lemma search_ok_receive:
  assumes inv: "search_ok s r (nodes, air)" and s: "unat s < NODE_COUNT"
    and p: "(a, p) \<in># air" and run: "handle_node_route_direct os p (nodes a) = Some (ok, nd')"
    and new: "new \<subseteq># (if relays (nodes a) p then copies a p else {#})"
  shows "search_ok s r (nodes(a := nd'), air - {#(a, p)#} + new)"
proof -
  let ?nodes = "nodes(a := nd')" and ?h = "np_local_sender_addr p" and ?t = "sint (np_time_to_live p)"
  have pk: "packet_ok p" "np_sender_addr p = s" "np_receiver_addr p = r" "near ?h a" "0 \<le> ?t" "?t < TTL"
    "serves_route nodes s r ?h (TTL - ?t)"
    using inv p by (auto simp: search_ok_def packet_in_search_def)
  have a: "node_ok (nodes a)" "nd_addr (nodes a) = a" "route_in_search nodes s r a" using inv by (simp_all add: search_ok_def)
  have h: "?h \<noteq> UINT8_MAX" "near a ?h" using near_hop [OF pk(4)] by blast+
  have addr: "unat a < NODE_COUNT" using pk(4) by (simp add: near_def)
  note table = handle_search_packet [OF a(1) pk(1) h(1) run]
  have keep: "\<And>h k. a \<noteq> r \<Longrightarrow> routing_map (nd_routing (nodes a)) s = Some (h, k) \<Longrightarrow>
       \<exists>h' k'. routing_map (nd_routing nd') s = Some (h', k') \<and> sint k' \<le> sint k"
    using table(2) pk(2,3) a(2) by simp
  have stay: "serves_route nodes s r h d \<Longrightarrow> serves_route ?nodes s r h d" for h d
    using serves_route_update [of nodes s r h d a nd'] keep by blast
  have kept: "keeps (nodes a) nd'" using handlers_keep(5) [OF pk(1), of os "nodes a"] run by simp
  have metric: "0 < ?t \<Longrightarrow> sint (packet_metric p) = TTL - ?t + 1" using pk(6) by (intro packet_metric_exact) simp_all
  have old: "packet_in_search nodes s r y \<Longrightarrow> packet_in_search ?nodes s r y" for y
    using stay by (auto simp: packet_in_search_def split: prod.splits)
  have copy: "packet_in_search ?nodes s r y" if y: "y \<in># new" for y
  proof -
    have rel: "relays (nodes a) p" "y \<in># copies a p" using y new by (auto split: if_splits dest: mset_subset_eqD)
    obtain b where b: "y = (b, flood_copy a p)" "near a b" using copies_near [OF addr] rel(2) by (cases y) auto
    have t: "0 < ?t" using rel(1) by (simp add: relays_def)
    obtain h' k' where k': "routing_map (nd_routing nd') s = Some (h', k')" "sint k' \<le> TTL - ?t + 1"
      using table(3) [OF rel(1)] pk(2,6) s by auto
    have "a \<noteq> r" using rel(1) pk(3) a(2) by (auto simp: relays_def)
    then have "serves_route ?nodes s r a (TTL - (?t - 1))" using k' by (simp add: serves_route_def)
    then show ?thesis
      using pk t b flood_copy_valid [OF pk(1)] sint_minus_1 [OF t] by (simp add: packet_in_search_def)
  qed
  have "route_in_search ?nodes s r c" for c
  proof (cases "c = a")
    case False
    then show ?thesis
      using inv stay by (simp add: search_ok_def route_in_search_def)
  next
    case True
    have "near a h \<and> 2 \<le> sint k \<and> serves_route ?nodes s r h (sint k - 1)"
      if m: "routing_map (nd_routing nd') s = Some (h, k)" for h k
    proof (cases "routing_map (nd_routing nd') s = routing_map (nd_routing (nodes a)) s")
      case True
      then have "routing_map (nd_routing (nodes a)) s = Some (h, k)" using m by simp
      then show ?thesis using a(3) stay unfolding route_in_search_def by blast
    next
      case False
      then have hk: "h = ?h" "k = packet_metric p" using table(1) m pk(2) by auto
      have t: "0 < ?t"
      proof (rule ccontr)
        assume "\<not> 0 < ?t"
        then have "nd' = nodes a" using run by (simp add: handle_node_route_direct_eq [OF pk(1)] route_direct_def)
        then show False using False by simp
      qed
      show ?thesis
        using stay [OF pk(7)] h(2) metric [OF t] pk(6) by (simp add: hk)
    qed
    then show ?thesis using True by (simp add: route_in_search_def)
  qed
  moreover have "\<forall>y \<in># air - {#(a, p)#} + new. packet_in_search ?nodes s r y"
    using inv old copy by (auto simp: search_ok_def dest: in_diffD)
  moreover have "\<forall>c. node_ok (?nodes c) \<and> nd_addr (?nodes c) = c"
    using inv kept a by (simp add: search_ok_def keeps_def)
  ultimately show ?thesis by (simp add: search_ok_def)
qed

lemma search_ok_step:
  assumes "mesh_step x y" and "search_ok s r x" and "unat s < NODE_COUNT"
  shows "search_ok s r y"
  using assms(1)
proof cases
  case (receive a p air os nodes ok nd' new)
  then show ?thesis using search_ok_receive assms(2,3) by blast
next
  case (lose a p air nodes)
  then show ?thesis using assms(2) by (auto simp: search_ok_def dest: in_diffD)
qed

lemma search_reachable_ok:
  assumes "search_reachable s p x" and "unat s < NODE_COUNT" and "packet_ok p" and "np_sender_addr p = s"
  shows "search_ok s (np_receiver_addr p) x"
  using assms(1)
proof (induction rule: search_reachable.induct)
  case (start nodes air)
  then show ?case using search_ok_start assms(2-4) by blast
next
  case (step x y)
  then show ?case using search_ok_step assms(2) by blast
qed

text \<open>Following next hops: \<open>leads_to nodes s a n\<close> says that \<open>s\<close> is reached from \<open>a\<close> in \<open>n\<close> hops between neighbours.\<close>

inductive leads_to :: "(u8 \<Rightarrow> node) \<Rightarrow> u8 \<Rightarrow> u8 \<Rightarrow> nat \<Rightarrow> bool" for nodes s where
  here: "leads_to nodes s s 0"
| hop: "routing_map (nd_routing (nodes a)) s = Some (h, k) \<Longrightarrow> near a h \<Longrightarrow> leads_to nodes s h n \<Longrightarrow>
    leads_to nodes s a (Suc n)"

lemma search_ok_leads:
  assumes "search_ok s r (nodes, air)" and "routing_map (nd_routing (nodes a)) s = Some (h, k)"
  shows "\<exists>n. leads_to nodes s a n \<and> int n < sint k"
  using assms(2)
proof (induction "nat (sint k)" arbitrary: a h k rule: less_induct)
  case less
  have r: "near a h" "2 \<le> sint k" "serves_route nodes s r h (sint k - 1)"
    using assms(1) less.prems by (simp_all add: search_ok_def route_in_search_def)
  show ?case
  proof (cases "h = s")
    case True
    then have "leads_to nodes s a (Suc 0)"
      using leads_to.hop [of nodes a s h k 0] less.prems r(1) leads_to.here [of nodes s] by simp
    then show ?thesis using r(2) by (intro exI [of _ "Suc 0"]) simp
  next
    case False
    then obtain h' k' where k': "routing_map (nd_routing (nodes h)) s = Some (h', k')" "sint k' \<le> sint k - 1"
      using r(3) by (auto simp: serves_route_def)
    then have "nat (sint k') < nat (sint k)" using r(2) by linarith
    from less.hyps [OF this k'(1)] obtain n where n: "leads_to nodes s h n" "int n < sint k'" by blast
    have "leads_to nodes s a (Suc n)" by (rule leads_to.hop [OF less.prems r(1) n(1)])
    then show ?thesis using n(2) k'(2) by (intro exI [of _ "Suc n"]) simp
  qed
qed

subsection \<open>A search from the middle of a route\<close>

text \<open>
  A node on the way that has no route to the receiver starts a search of its own, with a full time
  to live but the sender of the packet it holds.
\<close>

lemma relays_routing:
  assumes "node_ok nd" and "relays nd p" and "sint (packet_metric p) > 0"
  shows "nd_routing (snd (route_direct os p nd))
     = routes.relax (nd_routing nd) (np_sender_addr p) (np_local_sender_addr p) (packet_metric p)"
proof -
  have "fst (was_message.once (nd_messages nd) (ap_id (np_app p)))"
    using assms(1,2) by (simp add: was_message.once_eq node_ok_def relays_def handled_def)
  then show ?thesis
    using assms(2,3) by (simp add: route_direct_def relays_def Let_def case_prod_beta relay_def)
qed

lemma restart_search:
  assumes "packet_ok p" and "valid_crc p" and "np_receiver_addr p \<noteq> nd_addr nd"
    and "routing_map (nd_routing nd) (np_receiver_addr p) = None"
  shows "handle_node_send os p nd = Some (False, nd\<lparr>nd_net := flood os (neighbor_ports (nd_neighbors nd))
     (os_transmitted os REQUEST_ROUTE_DIRECT (Packet (flood_copy (nd_addr nd) (first_packet p)))) (nd_net nd)\<rparr>)"
proof -
  have swap: "p\<lparr>np_local_sender_addr := nd_addr nd, np_time_to_live := word_of_int TTL\<rparr>
      = p\<lparr>np_time_to_live := word_of_int TTL, np_local_sender_addr := nd_addr nd\<rparr>" by simp
  show ?thesis
    using assms by (simp add: handle_node_send_eq forward_def relay_def flood_copy_def first_packet_def) (simp only: swap)
qed

lemma restarted_metrics: "packet_metric (flood_copy c (first_packet p)) = 2"
  "packet_metric (flood_copy b (flood_copy c (first_packet p))) = 3"
  "sint (np_time_to_live (flood_copy c (first_packet p))) = 19"
  "sint (np_time_to_live (flood_copy b (flood_copy c (first_packet p)))) = 18"
  by (simp_all add: packet_metric_def first_packet_def TTL_eq)

lemma route_loop:
  assumes "node_ok nb" and "node_ok nc" and "packet_ok p" and "valid_crc p" and "unat (np_sender_addr p) < NODE_COUNT"
    and "nd_addr nb \<noteq> UINT8_MAX" and "nd_addr nc \<noteq> UINT8_MAX"
    and "np_receiver_addr p \<notin> {nd_addr nb, nd_addr nc}"
    and "\<not> handled nb (ap_id (np_app p))" and "\<not> handled nc (ap_id (np_app p))"
    and "routing_map (nd_routing nc) (np_receiver_addr p) = None" and "routing_map (nd_routing nc) (np_sender_addr p) = None"
    and "\<forall>h k. routing_map (nd_routing nb) (np_sender_addr p) = Some (h, k) \<longrightarrow> 2 < sint k"
  defines "q \<equiv> flood_copy (nd_addr nc) (first_packet p)"
  shows "\<exists>x nc1 y nb1 z nc2. handle_node_send oc p nc = Some (x, nc1)
     \<and> handle_node_route_direct ob q nb = Some (y, nb1) \<and> relays nb q
     \<and> handle_node_route_direct oc' (flood_copy (nd_addr nb) q) nc1 = Some (z, nc2)
     \<and> routing_map (nd_routing nb1) (np_sender_addr p) = Some (nd_addr nc, 2)
     \<and> routing_map (nd_routing nc2) (np_sender_addr p) = Some (nd_addr nb, 3)"
proof -
  obtain x nc1 where c1: "handle_node_send oc p nc = Some (x, nc1)" "nd_routing nc1 = nd_routing nc"
    "nd_messages nc1 = nd_messages nc" "nd_addr nc1 = nd_addr nc" "keeps nc nc1"
  proof -
    have "np_receiver_addr p \<noteq> nd_addr nc" using assms(8) by simp
    note send = restart_search [OF assms(3,4) this assms(11), of oc]
    show thesis
      using handlers_keep(4) [OF assms(3), of oc nc] by (intro that [OF send]) (auto simp: send)
  qed
  have fp: "packet_ok (first_packet p)" using assms(3) by (simp add: first_packet_def)
  then have q: "packet_ok q" "valid_crc q" "packet_ok (flood_copy (nd_addr nb) q)" "valid_crc (flood_copy (nd_addr nb) q)"
    using flood_copy_valid by (simp_all add: q_def)
  have fields: "np_receiver_addr q = np_receiver_addr p" "np_app q = np_app p" "np_sender_addr q = np_sender_addr p"
    "np_local_sender_addr q = nd_addr nc"
    by (simp_all add: q_def first_packet_def)
  note metrics = restarted_metrics [where c = "nd_addr nc" and p = p, folded q_def]
  have okc1: "node_ok nc1" using c1(5) assms(2) by (simp add: keeps_def)
  have rel: "relays nb q" "relays nc1 (flood_copy (nd_addr nb) q)"
    using assms(8-10) q metrics fields c1(3,4) by (auto simp: relays_def handled_def)
  have ok: "routing_ok (nd_routing nb)" "routing_ok (nd_routing nc)" using assms(1,2) by (simp_all add: node_ok_def)
  have "nd_routing (snd (route_direct ob q nb)) = routes.relax (nd_routing nb) (np_sender_addr p) (nd_addr nc) 2"
    using relays_routing [OF assms(1) rel(1)] metrics by (simp add: fields)
  moreover have "routing_map (routes.relax (nd_routing nb) (np_sender_addr p) (nd_addr nc) 2) (np_sender_addr p) = Some (nd_addr nc, 2)"
    using routes.route_set [OF ok(1) assms(5,7)] assms(13) by (auto simp: routes.relax_def split: option.split)
  moreover have "nd_routing (snd (route_direct oc' (flood_copy (nd_addr nb) q) nc1))
      = routes.relax (nd_routing nc) (np_sender_addr p) (nd_addr nb) 3"
    using relays_routing [OF okc1 rel(2)] metrics by (simp add: fields c1(2))
  moreover have "routing_map (routes.relax (nd_routing nc) (np_sender_addr p) (nd_addr nb) 3) (np_sender_addr p) = Some (nd_addr nb, 3)"
    using routes.route_set [OF ok(2) assms(5,6)] assms(12) by (simp add: routes.relax_def)
  ultimately show ?thesis
    using c1(1) rel(1) handle_node_route_direct_eq [OF q(1), of ob nb] handle_node_route_direct_eq [OF q(3), of oc' nc1]
    by (metis prod.collapse)
qed

end
