(* ===== verification/Mesh_Talk.thy ===== *)
theory Mesh_Talk
  imports Mesh
begin

text \<open>
  Searches and their answers together.  The receiver of a search answers it with a packet that goes
  back along the routes to the origin, and every node on its way learns the route to the receiver
  from it.  In the air are now both kinds of packets, handled in any order.
\<close>

subsection \<open>What a node does with either kind\<close>

datatype flight = Search node_packet | Reply node_packet

definition handle_flight :: "os \<Rightarrow> flight \<Rightarrow> node \<Rightarrow> (bool \<times> node) option" where
  "handle_flight os fl nd = (case fl of
      Search p \<Rightarrow> handle_node_route_direct os p nd
    | Reply p \<Rightarrow> handle_node_route_inverse os p nd)"

text \<open>A packet of a search that is acted upon.\<close>

definition accepts :: "node \<Rightarrow> node_packet \<Rightarrow> bool" where
  "accepts nd p \<longleftrightarrow> sint (np_time_to_live p) > 0 \<and> valid_crc p \<and> \<not> handled nd (ap_id (np_app p))"

lemma relays_accepts: "relays nd p \<longleftrightarrow> accepts nd p \<and> np_receiver_addr p \<noteq> nd_addr nd"
  by (auto simp: relays_def accepts_def)

text \<open>
  What it sends: copies to all neighbours, one answer to the next hop towards the origin, or the
  answer of another node one hop further.
\<close>

definition unanswered :: "u16 \<Rightarrow> node \<Rightarrow> bool" where
  "unanswered mid nd \<longleftrightarrow> fst (inverse.once (snd (was_message.once (nd_messages nd) mid)) mid)"

fun outgoing :: "flight \<Rightarrow> node \<Rightarrow> (u8 \<times> flight) multiset" where
  "outgoing (Search p) nd =
     (if relays nd p then image_mset (\<lambda>(b, q). (b, Search q)) (copies (nd_addr nd) p)
      else if accepts nd p \<and> unanswered (ap_id (np_app p)) nd then
        (case routing_map (learn_direct p (nd_routing nd)) (np_sender_addr p) of
           None \<Rightarrow> {#} | Some (h, _) \<Rightarrow> {#(h, Reply (answer (nd_addr nd) p))#})
      else {#})"
| "outgoing (Reply p) nd =
     (if valid_crc p \<and> np_sender_addr p \<noteq> nd_addr nd then
        (case routing_map (learn_inverse p (nd_routing nd)) (np_sender_addr p) of
           None \<Rightarrow> {#} | Some (h, _) \<Rightarrow> {#(h, Reply (hop_back (nd_addr nd) p))#})
      else {#})"

text \<open>An answer fails when the connection to the next hop does; the handler then gives the route up.\<close>

definition reply_message :: "os \<Rightarrow> node_packet \<Rightarrow> u8 list" where
  "reply_message os q = os_transmitted os REQUEST_ROUTE_INVERSE (Packet q)"

definition reply_fails :: "os \<Rightarrow> flight \<Rightarrow> node \<Rightarrow> bool" where
  "reply_fails os fl nd \<longleftrightarrow> (\<exists>(h, g) \<in># outgoing fl nd. case g of
      Search _ \<Rightarrow> False
    | Reply q \<Rightarrow> \<not> fst (send_message os (node_port h) (reply_message os q) (nd_net nd)))"

text \<open>The handlers do send it: first the answer, then a receiver reports to the server.\<close>

lemma transmit_eq: "transmit os port REQUEST_ROUTE_INVERSE (Packet q) nd
    = (fst (send_message os port (reply_message os q) (nd_net nd)), nd\<lparr>nd_net := snd (send_message os port (reply_message os q) (nd_net nd))\<rparr>)"
  by (simp add: transmit_def reply_message_def split: prod.split)

lemma direct_first:
  "node_ok nd \<Longrightarrow> accepts nd p \<Longrightarrow> fst (was_message.once (nd_messages nd) (ap_id (np_app p)))"
  by (simp add: was_message.once_eq node_ok_def accepts_def handled_def)

definition met :: "node_packet \<Rightarrow> node \<Rightarrow> node" where
  "met p nd = nd\<lparr>nd_messages := snd (was_message.once (nd_messages nd) (ap_id (np_app p))),
     nd_routing := learn_direct p (nd_routing nd)\<rparr>"

lemma met_simps [simp]: "nd_addr (met p nd) = nd_addr nd" "nd_net (met p nd) = nd_net nd"
  "nd_routing (met p nd) = learn_direct p (nd_routing nd)"
  "nd_messages (met p nd) = snd (was_message.once (nd_messages nd) (ap_id (np_app p)))"
  by (simp_all add: met_def)

lemma route_direct_accepts:
  assumes "node_ok nd" and "accepts nd p"
  shows "snd (route_direct os p nd) = (if np_receiver_addr p = nd_addr nd then snd (delivered os p (met p nd))
     else relay os (p\<lparr>np_local_sender_addr := nd_addr nd\<rparr>) (met p nd))"
  using assms direct_first [OF assms]
  by (simp add: route_direct_def accepts_def met_def learn_direct_relax Let_def case_prod_beta)

lemma route_direct_ignores:
  assumes "node_ok nd" and "\<not> accepts nd p"
  shows "snd (route_direct os p nd) = nd"
proof (cases "sint (np_time_to_live p) > 0 \<and> valid_crc p")
  case True
  then have "handled nd (ap_id (np_app p))" using assms(2) by (simp add: accepts_def)
  then show ?thesis using True assms(1) route_direct_drops_handled [of nd p os] by (simp add: node_ok_def)
qed (auto simp: route_direct_def)

lemma delivered_met:
  fixes os :: os
  assumes "np_receiver_addr p = nd_addr nd" and "accepts nd p" and "unanswered (ap_id (np_app p)) nd"
    and "routing_map (learn_direct p (nd_routing nd)) (np_sender_addr p) = Some (h, k)"
  defines "n \<equiv> send_message os (node_port h) (reply_message os (answer (nd_addr nd) p)) (nd_net nd)"
  shows "nd_routing (snd (delivered os p (met p nd)))
      = (if fst n then learn_direct p (nd_routing nd) else routing_del (learn_direct p (nd_routing nd)) (np_sender_addr p))"
    and "nd_net (snd (delivered os p (met p nd))) = (if fst n
      then (\<lambda>m. snd (send_message os SERVER_PORT m (snd n)))
         (os_transmitted os REQUEST_NOTIFY (Notify \<lparr>nt_type = notify_code (if app_handles os (nd_apps nd) (np_app p)
            then NOTIFY_GOT_MESSAGE else NOTIFY_FAIL), nt_app_msg_id = ap_id (np_app p)\<rparr>))
      else snd n)"
  using assms(3,4) by (simp_all add: delivered_def unanswered_def Let_def case_prod_beta n_def report_def transmit_def
      reply_message_def met_def)

lemma route_inverse_eq:
  fixes os :: os
  assumes "valid_crc p" and "np_sender_addr p \<noteq> nd_addr nd"
    and "routing_map (learn_inverse p (nd_routing nd)) (np_sender_addr p) = Some (h, k)"
  defines "n \<equiv> send_message os (node_port h) (reply_message os (hop_back (nd_addr nd) p)) (nd_net nd)"
  shows "snd (route_inverse os p nd) = nd\<lparr>nd_net := snd n, nd_routing := (if fst n then learn_inverse p (nd_routing nd)
      else routing_del (learn_inverse p (nd_routing nd)) (np_sender_addr p))\<rparr>"
  using assms(1-3) by (simp add: route_inverse_def transmit_eq Let_def case_prod_beta n_def)

text \<open>What it means for the routes, as long as answers can be sent.\<close>

lemma search_handled:
  assumes "node_ok nd" and "packet_ok p" and "handle_flight os (Search p) nd = Some (ok, nd')"
    and "\<not> reply_fails os (Search p) nd"
  shows "\<not> accepts nd p \<Longrightarrow> nd' = nd"
    and "accepts nd p \<Longrightarrow> handled nd' (ap_id (np_app p))"
    and "accepts nd p \<Longrightarrow> nd_routing nd' = learn_direct p (nd_routing nd)"
proof -
  have nd': "nd' = snd (route_direct os p nd)"
    using assms(3) by (simp add: handle_flight_def handle_node_route_direct_eq [OF assms(2)])
  show "\<not> accepts nd p \<Longrightarrow> nd' = nd" using nd' route_direct_ignores [OF assms(1)] by simp
  show "accepts nd p \<Longrightarrow> handled nd' (ap_id (np_app p))"
    using nd' route_direct_handled [of nd p os] assms(1) by (simp add: accepts_def node_ok_def)
  show "nd_routing nd' = learn_direct p (nd_routing nd)" if acc: "accepts nd p"
  proof (cases "np_receiver_addr p = nd_addr nd")
    case False
    then show ?thesis using nd' route_direct_accepts [OF assms(1) acc] by (simp add: relay_def)
  next
    case True
    then have d: "nd' = snd (delivered os p (met p nd))" using nd' route_direct_accepts [OF assms(1) acc] by simp
    show ?thesis
    proof (cases "unanswered (ap_id (np_app p)) nd")
      case False
      then show ?thesis by (simp add: d delivered_def unanswered_def Let_def case_prod_beta)
    next
      case ans: True
      show ?thesis
      proof (cases "routing_map (learn_direct p (nd_routing nd)) (np_sender_addr p)")
        case None
        then show ?thesis using ans by (simp add: d delivered_def unanswered_def Let_def case_prod_beta)
      next
        case (Some route)
        obtain h k where hk: "route = (h, k)" by (cases route)
        have "fst (send_message os (node_port h) (reply_message os (answer (nd_addr nd) p)) (nd_net nd))"
          using assms(4) Some hk True acc ans by (auto simp: reply_fails_def relays_accepts)
        then show ?thesis using delivered_met(1) [OF True acc ans Some [unfolded hk]] by (simp add: d)
      qed
    qed
  qed
qed

lemma reply_handled:
  assumes "packet_ok p" and "handle_flight os (Reply p) nd = Some (ok, nd')" and "\<not> reply_fails os (Reply p) nd"
  shows "nd_routing nd' = (if valid_crc p then learn_inverse p (nd_routing nd) else nd_routing nd)"
    and "nd_messages nd' = nd_messages nd"
proof -
  have nd': "nd' = snd (route_inverse os p nd)"
    using assms(2) by (simp add: handle_flight_def handle_node_route_inverse_eq [OF assms(1)] split: if_splits)
  show "nd_messages nd' = nd_messages nd"
    by (simp add: nd' route_inverse_def Let_def case_prod_beta split: option.split)
  show "nd_routing nd' = (if valid_crc p then learn_inverse p (nd_routing nd) else nd_routing nd)"
  proof (cases "valid_crc p \<and> np_sender_addr p \<noteq> nd_addr nd")
    case False
    then show ?thesis by (auto simp: nd' route_inverse_def Let_def)
  next
    case True
    show ?thesis
    proof (cases "routing_map (learn_inverse p (nd_routing nd)) (np_sender_addr p)")
      case None
      then show ?thesis using True by (simp add: nd' route_inverse_def Let_def)
    next
      case (Some route)
      obtain h k where hk: "route = (h, k)" by (cases route)
      have "fst (send_message os (node_port h) (reply_message os (hop_back (nd_addr nd) p)) (nd_net nd))"
        using assms(3) Some True hk by (auto simp: reply_fails_def)
      then show ?thesis using True Some hk by (simp add: nd' route_inverse_eq)
    qed
  qed
qed

subsection \<open>Steps\<close>

text \<open>
  One node handles one packet, with any result of the system calls except that an answer can be
  sent.  In a \<open>lossy\<close> mesh any packet may be lost.
\<close>

type_synonym talk = "(u8 \<Rightarrow> node) \<times> (u8 \<times> flight) multiset"

inductive talk_step :: "bool \<Rightarrow> talk \<Rightarrow> talk \<Rightarrow> bool" for lossy where
  handle: "(a, fl) \<in># air \<Longrightarrow> handle_flight os fl (nodes a) = Some (ok, nd') \<Longrightarrow> \<not> reply_fails os fl (nodes a) \<Longrightarrow>
    new \<subseteq># outgoing fl (nodes a) \<Longrightarrow> lossy \<or> new = outgoing fl (nodes a) \<Longrightarrow>
    talk_step lossy (nodes, air) (nodes(a := nd'), air - {#(a, fl)#} + new)"
| lose: "lossy \<Longrightarrow> (a, fl) \<in># air \<Longrightarrow> talk_step lossy (nodes, air) (nodes, air - {#(a, fl)#})"

inductive_cases talk_stepE: "talk_step lossy (nodes, air) x"

abbreviation route :: "(u8 \<Rightarrow> node) \<Rightarrow> u8 \<Rightarrow> u8 \<Rightarrow> (u8 \<times> i8) option" where
  "route nodes a d \<equiv> routing_map (nd_routing (nodes a)) d"

text \<open>
  The start: no node knows a way to either end or has met the message, and \<open>s\<close> floods its packet.
\<close>

definition untouched :: "u8 \<Rightarrow> u8 \<Rightarrow> u16 \<Rightarrow> (u8 \<Rightarrow> node) \<Rightarrow> bool" where
  "untouched s r mid nodes \<longleftrightarrow> (\<forall>a. node_ok (nodes a) \<and> nd_addr (nodes a) = a \<and> route nodes a s = None
     \<and> route nodes a r = None \<and> \<not> handled (nodes a) mid \<and> unanswered mid (nodes a))"

definition launched :: "u8 \<Rightarrow> node_packet \<Rightarrow> (u8 \<times> flight) multiset" where
  "launched s p = image_mset (\<lambda>(b, q). (b, Search q)) (copies s (first_packet p))"

inductive talk_reachable :: "bool \<Rightarrow> node_packet \<Rightarrow> talk \<Rightarrow> bool" for lossy p where
  start: "untouched (np_sender_addr p) (np_receiver_addr p) (ap_id (np_app p)) nodes \<Longrightarrow>
    air \<subseteq># launched (np_sender_addr p) p \<Longrightarrow> lossy \<or> air = launched (np_sender_addr p) p \<Longrightarrow>
    talk_reachable lossy p (nodes, air)"
| step: "talk_reachable lossy p x \<Longrightarrow> talk_step lossy x y \<Longrightarrow> talk_reachable lossy p y"

subsection \<open>What one packet teaches\<close>

lemma learn_direct_new:
  assumes "routing_ok t" and "unat (np_sender_addr p) < NODE_COUNT" and "np_local_sender_addr p \<noteq> UINT8_MAX"
    and "sint (packet_metric p) > 0" and "routing_map t (np_sender_addr p) = None"
  shows "routing_map (learn_direct p t) = (routing_map t)(np_sender_addr p \<mapsto> (np_local_sender_addr p, packet_metric p))"
  using assms by (simp add: learn_direct_relax routes.relax_def routes.route_set)

lemma learn_inverse_new:
  assumes "routing_ok t" and "unat (np_receiver_addr p) < NODE_COUNT" and "np_local_sender_addr p \<noteq> UINT8_MAX"
    and "sint (packet_metric p) > 0" and "routing_map t (np_receiver_addr p) = None"
  shows "routing_map (learn_inverse p t) = (routing_map t)(np_receiver_addr p \<mapsto> (np_local_sender_addr p, packet_metric p))"
  using assms by (simp add: learn_inverse_def Let_def handler_eqs routes.route_set)

lemma learn_inverse_other:
  assumes "routing_ok t" and "np_local_sender_addr q \<noteq> UINT8_MAX" and "d \<noteq> np_receiver_addr q"
  shows "routing_map (learn_inverse q t) d = routing_map t d"
  using assms by (cases "unat (np_receiver_addr q) < NODE_COUNT")
    (auto simp: learn_inverse_def Let_def routes.route_set routes.set_out)

subsection \<open>The invariant\<close>

definition searches :: "(u8 \<times> flight) multiset \<Rightarrow> (u8 \<times> node_packet) multiset" where
  "searches air = mset_set {(b, p). (b, Search p) \<in># air}"

definition is_reply :: "u8 \<times> flight \<Rightarrow> bool" where
  "is_reply x \<longleftrightarrow> (case snd x of Search _ \<Rightarrow> False | Reply _ \<Rightarrow> True)"

lemma set_searches [simp]: "set_mset (searches air) = {(b, p). (b, Search p) \<in># air}"
proof -
  have "{(b, p). (b, Search p) \<in># air} \<subseteq> (\<lambda>(b, fl). (b, case fl of Search p \<Rightarrow> p | Reply p \<Rightarrow> p)) ` set_mset air"
    by force
  then have "finite {(b, p). (b, Search p) \<in># air}" by (rule finite_subset) simp
  then show ?thesis by (simp add: searches_def)
qed

text \<open>How far a node that has a route is from the origin.\<close>

definition level :: "(u8 \<Rightarrow> node) \<Rightarrow> u8 \<Rightarrow> u8 \<Rightarrow> int" where
  "level nodes s a = (if a = s then 0 else case route nodes a s of None \<Rightarrow> 0 | Some (_, k) \<Rightarrow> sint k)"

text \<open>
  An answer in the air goes to a node closer to the origin than all that have seen it, and comes
  from one that knows the way to the receiver.
\<close>

definition reply_in_talk :: "(u8 \<Rightarrow> node) \<Rightarrow> u8 \<Rightarrow> u8 \<Rightarrow> app_payload \<Rightarrow> u8 \<Rightarrow> node_packet \<Rightarrow> bool" where
  "reply_in_talk nodes s r a b q \<longleftrightarrow> packet_ok q \<and> valid_crc q \<and> np_sender_addr q = s \<and> np_receiver_addr q = r
     \<and> np_app q = a \<and> near (np_local_sender_addr q) b \<and> b \<noteq> r \<and> (b = s \<or> route nodes b s \<noteq> None)
     \<and> route nodes b r = None \<and> level nodes s b \<le> sint (np_time_to_live q) \<and> sint (np_time_to_live q) \<le> TTL
     \<and> (np_local_sender_addr q = r \<or> (\<exists>h k. route nodes (np_local_sender_addr q) r = Some (h, k)
           \<and> sint k \<le> TTL - sint (np_time_to_live q)))
     \<and> (\<forall>v. route nodes v r \<noteq> None \<longrightarrow> level nodes s b < level nodes s v)"

text \<open>A route to the receiver leads one step closer to it.\<close>

definition route_back :: "(u8 \<Rightarrow> node) \<Rightarrow> u8 \<Rightarrow> u8 \<Rightarrow> u8 \<Rightarrow> bool" where
  "route_back nodes s r a \<longleftrightarrow> (\<forall>h k. route nodes a r = Some (h, k) \<longrightarrow> (a = s \<or> route nodes a s \<noteq> None)
     \<and> near a h \<and> 1 \<le> sint k \<and> (h = r \<or> (\<exists>h' k'. route nodes h r = Some (h', k') \<and> sint k' < sint k)))"

definition seeker_ok :: "u8 \<Rightarrow> u16 \<Rightarrow> node \<Rightarrow> bool" where
  "seeker_ok s mid nd \<longleftrightarrow> (\<not> handled nd mid \<longrightarrow> routing_map (nd_routing nd) s = None \<and> unanswered mid nd)
     \<and> (\<forall>h k. routing_map (nd_routing nd) s = Some (h, k) \<longrightarrow> sint k \<le> TTL)"

definition talk_ok :: "bool \<Rightarrow> u8 \<Rightarrow> u8 \<Rightarrow> app_payload \<Rightarrow> talk \<Rightarrow> bool" where
  "talk_ok lossy s r a x \<longleftrightarrow> (case x of (nodes, air) \<Rightarrow>
     search_ok s r (nodes, searches air) \<and> (\<forall>b p. (b, Search p) \<in># air \<longrightarrow> np_app p = a)
     \<and> (\<forall>b. seeker_ok s (ap_id a) (nodes b)) \<and> (\<forall>b. route_back nodes s r b)
     \<and> (\<forall>b q. (b, Reply q) \<in># air \<longrightarrow> reply_in_talk nodes s r a b q)
     \<and> size (filter_mset is_reply air) \<le> 1
     \<and> (if handled (nodes r) (ap_id a)
        then lossy \<or> filter_mset is_reply air \<noteq> {#} \<or> route nodes s r \<noteq> None
        else filter_mset is_reply air = {#} \<and> (\<forall>b. route nodes b r = None)))"

lemma search_ok_subset:
  "search_ok s r (nodes, air) \<Longrightarrow> set_mset air' \<subseteq> set_mset air \<Longrightarrow> search_ok s r (nodes, air')"
  by (auto simp: search_ok_def)

lemma search_ok_accept:
  assumes "search_ok s r (nodes, searches air)" and "unat s < NODE_COUNT" and "(a, Search p) \<in># air"
    and "handle_node_route_direct os p (nodes a) = Some (ok, nd')" and "new \<subseteq># outgoing (Search p) (nodes a)"
  shows "search_ok s r (nodes(a := nd'), searches (air - {#(a, Search p)#} + new))"
proof -
  let ?c = "if relays (nodes a) p then copies a p else {#}"
  have addr: "nd_addr (nodes a) = a" using assms(1) by (simp add: search_ok_def)
  have "search_ok s r (nodes, searches air + {#(a, p)#})"
    by (rule search_ok_subset [OF assms(1)]) (use assms(3) in auto)
  from search_ok_receive [OF this assms(2) _ assms(4), of ?c]
  have ok: "search_ok s r (nodes(a := nd'), searches air + ?c)" by simp
  have "(b, q) \<in># ?c" if "(b, Search q) \<in># new" for b q
    using mset_subset_eqD [OF assms(5) that] addr by (auto split: if_splits option.splits)
  then have "set_mset (searches (air - {#(a, Search p)#} + new)) \<subseteq> set_mset (searches air + ?c)"
    unfolding set_mset_union set_searches by (blast dest: in_diffD)
  with ok show ?thesis by (rule search_ok_subset)
qed

text \<open>What the invariant says about one packet of a search.\<close>

lemma talk_okD:
  assumes "talk_ok lossy s r a (nodes, air)"
  shows "node_ok (nodes b)" and "nd_addr (nodes b) = b" and "seeker_ok s (ap_id a) (nodes b)" and "route_back nodes s r b"
    and "route_in_search nodes s r b" and "(b, Reply q) \<in># air \<Longrightarrow> reply_in_talk nodes s r a b q"
    and "(b, Search p) \<in># air \<Longrightarrow> packet_in_search nodes s r (b, p) \<and> np_app p = a"
  using assms by (auto simp: talk_ok_def search_ok_def)

lemma level_nonneg: "talk_ok lossy s r a x \<Longrightarrow> 0 \<le> level (fst x) s b"
  using talk_okD(5) [of lossy s r a "fst x" "snd x" b]
  by (fastforce simp: level_def route_in_search_def split: option.split)

lemma search_teaches:
  assumes inv: "talk_ok lossy s r x (nodes, air)" and s: "unat s < NODE_COUNT"
    and p: "(a, Search p) \<in># air" and run: "handle_flight os (Search p) (nodes a) = Some (ok, nd')"
    and sent: "\<not> reply_fails os (Search p) (nodes a)" and acc: "accepts (nodes a) p"
  shows "route nodes a s = None" and "unanswered (ap_id x) (nodes a)"
    and "routing_map (nd_routing nd') = (routing_map (nd_routing (nodes a)))(s \<mapsto> (np_local_sender_addr p, packet_metric p))"
    and "sint (packet_metric p) = TTL - sint (np_time_to_live p) + 1" and "2 \<le> sint (packet_metric p)"
    and "sint (packet_metric p) \<le> TTL" and "handled nd' (ap_id x)"
proof -
  have pk: "packet_in_search nodes s r (a, p)" "np_app p = x" using talk_okD(7) [OF inv p] by blast+
  have seek: "\<not> handled (nodes a) (ap_id x)" using acc pk(2) by (simp add: accepts_def)
  then show none: "route nodes a s = None" "unanswered (ap_id x) (nodes a)"
    using talk_okD(3) [OF inv] by (simp_all add: seeker_ok_def)
  have ttl: "0 < sint (np_time_to_live p)" "sint (np_time_to_live p) < TTL"
    using acc pk by (simp_all add: accepts_def packet_in_search_def)
  then show m: "sint (packet_metric p) = TTL - sint (np_time_to_live p) + 1" by (intro packet_metric_exact) simp_all
  then show "2 \<le> sint (packet_metric p)" "sint (packet_metric p) \<le> TTL" using ttl by linarith+
  have ok: "packet_ok p" using pk by (simp add: packet_in_search_def)
  note h = search_handled [OF talk_okD(1) [OF inv] ok run sent]
  show "handled nd' (ap_id x)" using h(2) acc pk(2) by simp
  have "routing_ok (nd_routing (nodes a))" using talk_okD(1) [OF inv] by (simp add: node_ok_def)
  then show "routing_map (nd_routing nd') = (routing_map (nd_routing (nodes a)))(s \<mapsto> (np_local_sender_addr p, packet_metric p))"
    using h(3) acc learn_direct_new [of "nd_routing (nodes a)" p] none(1) pk s m ttl near_hop [of "np_local_sender_addr p" a]
    by (simp add: packet_in_search_def)
qed

lemma is_reply_simps [simp]: "\<not> is_reply (b, Search p)" "is_reply (b, Reply p)"
  by (simp_all add: is_reply_def)

lemma filter_replies [simp]:
  "filter_mset is_reply (air - {#(a, Search p)#}) = filter_mset is_reply air"
  "filter_mset is_reply (image_mset (\<lambda>(b, q). (b, Search q)) m) = {#}"
  by (simp_all add: is_reply_def filter_mset_eq_conv case_prod_beta)

lemma new_replies:
  assumes "new \<subseteq># outgoing (Search p) nd" and "relays nd p \<or> \<not> accepts nd p"
  shows "filter_mset is_reply new = {#}" and "(b, Reply q) \<notin># new" and "(b, Search q) \<in># new \<Longrightarrow> (b, q) \<in># copies (nd_addr nd) p"
proof -
  have "new \<subseteq># image_mset (\<lambda>(b, q). (b, Search q)) (copies (nd_addr nd) p) \<or> new = {#}"
    using assms by (auto split: if_splits)
  then show "filter_mset is_reply new = {#}" "(b, Reply q) \<notin># new" "(b, Search q) \<in># new \<Longrightarrow> (b, q) \<in># copies (nd_addr nd) p"
    by (auto simp: filter_mset_eq_conv is_reply_def dest!: mset_subset_eqD)
qed

subsection \<open>Every step keeps it\<close>

text \<open>A node that learns its first route to the origin changes nothing for the answer.\<close>

lemma first_route_keeps:
  assumes "\<And>b. route nodes' b r = route nodes b r" and "\<And>b. b \<noteq> a \<Longrightarrow> route nodes' b s = route nodes b s"
    and "route nodes a s = None" and "\<And>b. route_back nodes s r b"
  shows "reply_in_talk nodes s r x b q \<Longrightarrow> reply_in_talk nodes' s r x b q" and "route_back nodes' s r b"
proof -
  have lev: "level nodes' s b = level nodes s b" "b = s \<or> route nodes' b s \<noteq> None"
    if "b = s \<or> route nodes b s \<noteq> None" for b
    using that assms(2) [of b] assms(3) by (cases "b = a"; simp add: level_def)+
  have seen: "v = s \<or> route nodes v s \<noteq> None" if "route nodes v r \<noteq> None" for v
    using assms(4) [of v] that by (auto simp: route_back_def)
  show "reply_in_talk nodes' s r x b q" if "reply_in_talk nodes s r x b q"
  proof -
    have "b = s \<or> route nodes b s \<noteq> None" using that by (simp add: reply_in_talk_def)
    note b = lev [OF this]
    have "\<forall>v. route nodes v r \<noteq> None \<longrightarrow> level nodes' s v = level nodes s v" using lev(1) seen by blast
    then show ?thesis using that b unfolding reply_in_talk_def assms(1) by simp
  qed
  show "route_back nodes' s r b"
    using assms(4) [of b] lev(2) [of b] unfolding route_back_def assms(1) by blast
qed

lemma talk_ok_search_on:
  assumes inv: "talk_ok lossy s r x (nodes, air)" and s: "unat s < NODE_COUNT" "s \<noteq> r"
    and p: "(a, Search p) \<in># air" and run: "handle_flight os (Search p) (nodes a) = Some (ok, nd')"
    and sent: "\<not> reply_fails os (Search p) (nodes a)" and new: "new \<subseteq># outgoing (Search p) (nodes a)"
    and on: "relays (nodes a) p \<or> \<not> accepts (nodes a) p"
  shows "talk_ok lossy s r x (nodes(a := nd'), air - {#(a, Search p)#} + new)"
proof -
  let ?nodes = "nodes(a := nd')"
  have pk: "packet_in_search nodes s r (a, p)" "np_app p = x" using talk_okD(7) [OF inv p] by blast+
  then have pok: "packet_ok p" "np_receiver_addr p = r" by (simp_all add: packet_in_search_def)
  note r = new_replies [OF new on]
  have apps: "(b, Search q) \<in># new \<Longrightarrow> np_app q = x" for b q
    using r(3) [of b q] pk(2) by (auto simp: copies_def)
  have search: "search_ok s r (?nodes, searches (air - {#(a, Search p)#} + new))"
    using search_ok_accept [where nodes = nodes, OF _ s(1) p _ new] inv run by (simp add: talk_ok_def handle_flight_def)
  have routes: "\<And>b. route ?nodes b r = route nodes b r" "\<And>b. b \<noteq> a \<Longrightarrow> route ?nodes b s = route nodes b s"
    and seek: "\<And>b. seeker_ok s (ap_id x) (?nodes b)"
    and home: "\<And>b. route_back ?nodes s r b" "\<And>b q. reply_in_talk nodes s r x b q \<Longrightarrow> reply_in_talk ?nodes s r x b q"
    and marked: "handled (?nodes r) (ap_id x) = handled (nodes r) (ap_id x)"
  proof -
    have "(\<forall>b. route ?nodes b r = route nodes b r) \<and> (\<forall>b. b \<noteq> a \<longrightarrow> route ?nodes b s = route nodes b s)
       \<and> (\<forall>b. seeker_ok s (ap_id x) (?nodes b)) \<and> (\<forall>b. route_back ?nodes s r b)
       \<and> (\<forall>b q. reply_in_talk nodes s r x b q \<longrightarrow> reply_in_talk ?nodes s r x b q)
       \<and> handled (?nodes r) (ap_id x) = handled (nodes r) (ap_id x)"
    proof (cases "accepts (nodes a) p")
      case False
      then have "nd' = nodes a" using search_handled(1) [OF talk_okD(1) [OF inv] pok(1) run sent] by blast
      then show ?thesis using talk_okD(3,4) [OF inv] by simp
    next
      case True
      note t = search_teaches [OF inv s(1) p run sent True]
      have a: "a \<noteq> r" using on True pok(2) talk_okD(2) [OF inv, of a] by (auto simp: relays_def)
      have map: "route ?nodes b r = route nodes b r" "b \<noteq> a \<Longrightarrow> route ?nodes b s = route nodes b s" for b
        using t(3) s(2) by simp_all
      note keep = first_route_keeps [where nodes' = ?nodes, OF map t(1) talk_okD(4) [OF inv]]
      have "seeker_ok s (ap_id x) (?nodes b)" for b
        using talk_okD(3) [OF inv, of b] t(3,6,7) by (auto simp: seeker_ok_def)
      then show ?thesis using map keep a by simp
    qed
    then show "\<And>b. route ?nodes b r = route nodes b r" "\<And>b. b \<noteq> a \<Longrightarrow> route ?nodes b s = route nodes b s"
      "\<And>b. seeker_ok s (ap_id x) (?nodes b)" "\<And>b. route_back ?nodes s r b"
      "\<And>b q. reply_in_talk nodes s r x b q \<Longrightarrow> reply_in_talk ?nodes s r x b q"
      "handled (?nodes r) (ap_id x) = handled (nodes r) (ap_id x)" by blast+
  qed
  have replies: "filter_mset is_reply (air - {#(a, Search p)#} + new) = filter_mset is_reply air" by (simp add: r(1))
  show ?thesis
    unfolding talk_ok_def prod.case replies marked routes(1)
    using search apps seek home r(2) inv by (auto simp: talk_ok_def dest: in_diffD)
qed

lemma answer_fields:
  assumes "packet_ok p"
  shows "packet_ok (answer a p)" "valid_crc (answer a p)" "np_sender_addr (answer a p) = np_sender_addr p"
    "np_receiver_addr (answer a p) = np_receiver_addr p" "np_app (answer a p) = np_app p"
    "np_local_sender_addr (answer a p) = a" "sint (np_time_to_live (answer a p)) = TTL"
  using assms by (simp_all add: answer_def seal_valid TTL_eq)

lemma size_filter_single: "new \<subseteq># {#y#} \<Longrightarrow> size (filter_mset P new) \<le> 1"
proof -
  assume "new \<subseteq># {#y#}"
  then have "size new \<le> 1" using size_mset_mono [of new "{#y#}"] by simp
  with size_filter_mset_lesseq show ?thesis by (rule order.trans)
qed

text \<open>The receiver meets the message and answers it.\<close>

lemma talk_ok_search_met:
  assumes inv: "talk_ok lossy s r x (nodes, air)" and s: "unat s < NODE_COUNT" "s \<noteq> r"
    and p: "(r, Search p) \<in># air" and run: "handle_flight os (Search p) (nodes r) = Some (ok, nd')"
    and sent: "\<not> reply_fails os (Search p) (nodes r)" and new: "new \<subseteq># outgoing (Search p) (nodes r)"
    and all: "lossy \<or> new = outgoing (Search p) (nodes r)" and acc: "accepts (nodes r) p"
  shows "talk_ok lossy s r x (nodes(r := nd'), air - {#(r, Search p)#} + new)"
proof -
  define ns where "ns = nodes(r := nd')"
  let ?h = "np_local_sender_addr p" and ?q = "answer r p"
  have pk: "packet_in_search nodes s r (r, p)" "np_app p = x" using talk_okD(7) [OF inv p] by blast+
  then have pok: "packet_ok p" "np_sender_addr p = s" "np_receiver_addr p = r" "near ?h r"
    "serves_route nodes s r ?h (TTL - sint (np_time_to_live p))" by (simp_all add: packet_in_search_def)
  note t = search_teaches [OF inv s(1) p run sent acc]
  have "nd_routing nd' = learn_direct p (nd_routing (nodes r))"
    using search_handled(3) [OF talk_okD(1) [OF inv] pok(1) run sent acc] .
  then have out: "outgoing (Search p) (nodes r) = {#(?h, Reply ?q)#}"
    using t(2,3) acc pok(2,3) pk(2) talk_okD(2) [OF inv] by (simp add: relays_accepts)
  have fresh: "\<not> handled (nodes r) (ap_id x)" using acc pk(2) by (simp add: accepts_def)
  then have none: "filter_mset is_reply air = {#}" "\<And>b. route nodes b r = None" using inv by (simp_all add: talk_ok_def)
  have no_reply: "(b, Reply q) \<notin># air" for b q
  proof
    assume "(b, Reply q) \<in># air"
    then have "(b, Reply q) \<in># filter_mset is_reply air" by simp
    with none(1) show False by (metis empty_not_add_mset multi_member_split)
  qed
  have map: "route ns b r = route nodes b r" "b \<noteq> r \<Longrightarrow> route ns b s = route nodes b s" for b
    using t(3) s(2) by (simp_all add: ns_def)
  note keep = first_route_keeps(2) [where nodes' = ns, OF map t(1) talk_okD(4) [OF inv]]
  have seek: "seeker_ok s (ap_id x) (ns b)" for b
    using talk_okD(3) [OF inv, of b] t(3,6,7) by (auto simp: seeker_ok_def ns_def)
  have "?h \<noteq> r" using pok(4) near_irrefl by auto
  then have h: "level ns s ?h \<le> TTL" "?h = s \<or> route ns ?h s \<noteq> None" "near r ?h"
    using pok(5) map(2) [of ?h] t(4,6) near_sym [of ?h r] pok(4) by (auto simp: serves_route_def level_def TTL_eq)
  have reply: "reply_in_talk ns s r x ?h ?q"
    using h \<open>?h \<noteq> r\<close> none(2) answer_fields [OF pok(1)] pok(2,3) pk(2) by (simp add: reply_in_talk_def map(1))
  have search: "search_ok s r (ns, searches (air - {#(r, Search p)#} + new))"
    using search_ok_accept [where nodes = nodes, OF _ s(1) p _ new] inv run by (simp add: talk_ok_def handle_flight_def ns_def)
  have replies: "filter_mset is_reply (air - {#(r, Search p)#} + new) = filter_mset is_reply new"
    by (simp only: filter_union_mset filter_replies none(1)) simp
  have size: "size (filter_mset is_reply new) \<le> 1" by (rule size_filter_single [OF new [unfolded out]])
  have nonempty: "lossy \<or> filter_mset is_reply new \<noteq> {#}" using all out by auto
  have in_new: "y \<in># new \<Longrightarrow> y = (?h, Reply ?q)" for y using new out by (auto dest: mset_subset_eqD)
  have apps: "(b, Search q) \<in># air - {#(r, Search p)#} + new \<Longrightarrow> np_app q = x" for b q
    using in_new [of "(b, Search q)"] talk_okD(7) [OF inv, of b q] by (auto dest: in_diffD)
  have in_air: "(b, Reply q) \<in># air - {#(r, Search p)#} + new \<Longrightarrow> reply_in_talk ns s r x b q" for b q
    using in_new [of "(b, Reply q)"] no_reply [of b q] reply by (auto dest: in_diffD)
  have marked: "handled (ns r) (ap_id x)" using t(7) by (simp add: ns_def)
  show ?thesis
    unfolding ns_def [symmetric] talk_ok_def prod.case replies
    using search apps seek keep in_air size marked nonempty by auto
qed

lemma hop_back_valid: "packet_ok p \<Longrightarrow> valid_crc (hop_back a p)"
  by (simp add: hop_back_def one_hop_less_def seal_valid)

text \<open>A node passes an answer on, or the origin receives it.\<close>

lemma talk_ok_reply:
  assumes inv: "talk_ok lossy s r x (nodes, air)" and s: "s \<noteq> r" "unat r < NODE_COUNT"
    and q: "(a, Reply q) \<in># air" and run: "handle_flight os (Reply q) (nodes a) = Some (ok, nd')"
    and sent: "\<not> reply_fails os (Reply q) (nodes a)" and new: "new \<subseteq># outgoing (Reply q) (nodes a)"
    and all: "lossy \<or> new = outgoing (Reply q) (nodes a)"
  shows "talk_ok lossy s r x (nodes(a := nd'), air - {#(a, Reply q)#} + new)"
proof -
  define ns where "ns = nodes(a := nd')"
  let ?h = "np_local_sender_addr q" and ?t = "sint (np_time_to_live q)"
  have qk: "packet_ok q" "valid_crc q" "np_sender_addr q = s" "np_receiver_addr q = r" "np_app q = x" "near ?h a" "a \<noteq> r"
    "a = s \<or> route nodes a s \<noteq> None" "route nodes a r = None" "level nodes s a \<le> ?t" "?t \<le> TTL"
    using talk_okD(6) [OF inv q] by (simp_all add: reply_in_talk_def)
  have visited: "?h = r \<or> (\<exists>h k. route nodes ?h r = Some (h, k) \<and> sint k \<le> TTL - ?t)"
    "\<And>v. route nodes v r \<noteq> None \<Longrightarrow> level nodes s a < level nodes s v"
    using talk_okD(6) [OF inv q] by (auto simp: reply_in_talk_def)
  have rt: "routing_ok (nd_routing (nodes a))" "nd_addr (nodes a) = a" using talk_okD(1,2) [OF inv] by (simp_all add: node_ok_def)
  have lev0: "0 \<le> level nodes s b" for b using level_nonneg [OF inv] by simp
  have metric: "sint (packet_metric q) = TTL - ?t + 1"
    using lev0 [of a] qk(10,11) by (intro packet_metric_exact) simp_all
  note h = reply_handled [OF qk(1) run sent]
  have map: "routing_map (nd_routing nd') = (routing_map (nd_routing (nodes a)))(r \<mapsto> (?h, packet_metric q))"
    using learn_inverse_new [of "nd_routing (nodes a)" q] rt s(2) qk near_hop [OF qk(6)] metric by (simp add: h)
  have route_r: "route ns b r = (if b = a then Some (?h, packet_metric q) else route nodes b r)"
    and route_s: "route ns b s = route nodes b s" for b
    using map s(1) by (simp_all add: ns_def)
  have lev: "level ns s b = level nodes s b" for b by (simp only: level_def route_s)
  have seek: "seeker_ok s (ap_id x) (ns b)" for b
  proof (cases "b = a")
    case True
    have "handled nd' (ap_id x) = handled (nodes a) (ap_id x)" "unanswered (ap_id x) nd' = unanswered (ap_id x) (nodes a)"
      using h(2) by (simp_all add: handled_def unanswered_def)
    then show ?thesis using talk_okD(3) [OF inv, of a] map s(1) True by (simp add: seeker_ok_def ns_def)
  qed (use talk_okD(3) [OF inv] in \<open>simp add: ns_def\<close>)
  have home: "route_back ns s r b" for b
  proof (cases "b = a")
    case True
    have "near a ?h" using near_sym qk(6) by blast
    then show ?thesis using True visited(1) metric qk(8,9,11) by (auto simp: route_back_def route_r route_s)
  next
    case False
    have "h \<noteq> a" if "route nodes b r = Some (h, k)" "h \<noteq> r" for h k
      using talk_okD(4) [OF inv, of b] that qk(9) by (auto simp: route_back_def)
    then show ?thesis
      using talk_okD(4) [OF inv, of b] False unfolding route_back_def route_r route_s by (metis option.inject prod.inject)
  qed
  have only: "filter_mset is_reply air = {#(a, Reply q)#}"
  proof -
    have "(a, Reply q) \<in># filter_mset is_reply air" "size (filter_mset is_reply air) \<le> 1" using q inv by (simp_all add: talk_ok_def)
    then show ?thesis by (cases "filter_mset is_reply air") auto
  qed
  have marked: "handled (ns r) (ap_id x)" using qk(7) only inv by (auto simp: talk_ok_def ns_def split: if_splits)
  have learn_s: "routing_map (learn_inverse q (nd_routing (nodes a))) s = route nodes a s"
    using map h(1) qk(2) s(1) by simp
  have in_new: "y \<in># new \<Longrightarrow> \<exists>h k. a \<noteq> s \<and> route nodes a s = Some (h, k) \<and> y = (h, Reply (hop_back a q))" for y
    using mset_subset_eqD [OF new, of y] qk(2,3) rt(2) learn_s by (auto split: if_splits option.splits)
  have reply: "reply_in_talk ns s r x h (hop_back a q)" if hk: "a \<noteq> s" "route nodes a s = Some (h, k)" for h k
  proof -
    have next_hop: "near a h" "2 \<le> sint k" "serves_route nodes s r h (sint k - 1)"
      using talk_okD(5) [OF inv, of a] hk(2) by (simp_all add: route_in_search_def)
    have lvl: "level nodes s a = sint k" using hk by (simp add: level_def)
    then have t: "0 < ?t" using next_hop(2) qk(10) by linarith
    have down: "level nodes s h < level nodes s a" "h = s \<or> h \<noteq> r \<and> route nodes h s \<noteq> None"
      using next_hop(2,3) lvl by (auto simp: serves_route_def level_def)
    then have "h \<noteq> r" using s(1) by blast
    have "route nodes h r = None" by (rule ccontr) (use visited(2) [of h] down(1) in simp)
    then have "h \<noteq> a" "route ns h r = None" using down(1) by (auto simp: route_r)
    moreover have "level nodes s h < level nodes s v" if "route ns v r \<noteq> None" for v
      using that visited(2) [of v] down(1) by (cases "v = a") (simp_all add: route_r)
    moreover have "level nodes s h \<le> ?t - 1" using down(1) qk(10) by linarith
    moreover have "sint (packet_metric q) \<le> TTL - (?t - 1)" using metric by simp
    ultimately show ?thesis
      using qk(1,3,4,5,11) hop_back_valid [OF qk(1)] next_hop(1) down(2) \<open>h \<noteq> r\<close> sint_minus_1 [OF t]
      by (simp add: reply_in_talk_def lev route_s route_r)
  qed
  have search: "search_ok s r (ns, searches (air - {#(a, Reply q)#} + new))"
  proof -
    have serve: "serves_route nodes s r b d \<Longrightarrow> serves_route ns s r b d" for b d by (simp only: serves_route_def route_s)
    have "nd' = snd (route_inverse os q (nodes a))"
      using run by (simp add: handle_flight_def handle_node_route_inverse_eq [OF qk(1)] split: if_splits)
    then have "keeps (nodes a) nd'" using keeps_route_inverse [of "nodes a" os q] by simp
    then have ok: "node_ok (ns b) \<and> nd_addr (ns b) = b" for b
      using talk_okD(1,2) [OF inv] by (simp add: ns_def keeps_def)
    have "set_mset (searches (air - {#(a, Reply q)#} + new)) \<subseteq> set_mset (searches air)"
      using in_new unfolding set_searches by (fastforce dest: in_diffD)
    moreover have "search_ok s r (ns, searches air)"
      using inv ok serve unfolding talk_ok_def search_ok_def prod.case fst_conv snd_conv packet_in_search_def route_in_search_def route_s
      by (auto split: prod.splits)
    ultimately show ?thesis using search_ok_subset by blast
  qed
  have apps: "(b, Search p) \<in># air - {#(a, Reply q)#} + new \<Longrightarrow> np_app p = x" for b p
    using in_new [of "(b, Search p)"] talk_okD(7) [OF inv, of b p] by (auto dest: in_diffD)
  have replies: "filter_mset is_reply (air - {#(a, Reply q)#} + new) = filter_mset is_reply new" by (simp add: only)
  have in_air: "reply_in_talk ns s r x b p" if "(b, Reply p) \<in># air - {#(a, Reply q)#} + new" for b p
  proof -
    have "(b, Reply p) \<in># filter_mset is_reply (air - {#(a, Reply q)#} + new)"
      using that by (simp only: set_mset_filter mem_Collect_eq is_reply_simps simp_thms)
    then have "(b, Reply p) \<in># new" unfolding replies by simp
    then show ?thesis using in_new [of "(b, Reply p)"] reply by auto
  qed
  have size: "size (filter_mset is_reply new) \<le> 1"
    using size_filter_single [of new] new by (auto split: if_splits option.splits)
  have arrive: "lossy \<or> filter_mset is_reply new \<noteq> {#} \<or> route ns s r \<noteq> None"
    using all qk(2,3,8) rt(2) learn_s by (cases "a = s") (auto simp: route_r)
  show ?thesis
    unfolding ns_def [symmetric] talk_ok_def prod.case replies
    using search apps seek home in_air size marked arrive by auto
qed

subsection \<open>All reachable states\<close>

lemma launched_searches: "searches (launched s p) = mset_set (set_mset (copies s (first_packet p)))"
proof -
  have "{(b, q). (b, Search q) \<in># launched s p} = set_mset (copies s (first_packet p))"
    by (auto simp: launched_def)
  then show ?thesis by (simp add: searches_def)
qed

lemma talk_ok_start:
  assumes "untouched s r (ap_id (np_app p)) nodes" and "air \<subseteq># launched s p" and "unat s < NODE_COUNT" and "packet_ok p"
    and "np_sender_addr p = s" and "np_receiver_addr p = r"
  shows "talk_ok lossy s r (np_app p) (nodes, air)"
proof -
  have none: "\<forall>a. node_ok (nodes a) \<and> nd_addr (nodes a) = a \<and> route nodes a s = None"
    and far: "\<And>a. route nodes a r = None" "\<And>a. \<not> handled (nodes a) (ap_id (np_app p))" "\<And>a. unanswered (ap_id (np_app p)) (nodes a)"
    using assms(1) by (simp_all add: untouched_def)
  have "search_ok s r (nodes, copies s (first_packet p))"
    using search_ok_start [OF none _ assms(3,4,5), of "copies s (first_packet p)"] assms(6) by simp
  moreover have in_air: "y \<in># air \<Longrightarrow> \<exists>b q. y = (b, Search q) \<and> (b, q) \<in># copies s (first_packet p)" for y
    using mset_subset_eqD [OF assms(2), of y] by (auto simp: launched_def)
  then have "set_mset (searches air) \<subseteq> set_mset (copies s (first_packet p))" by fastforce
  ultimately have "search_ok s r (nodes, searches air)" by (rule search_ok_subset)
  moreover have "(b, Reply q) \<notin># air" for b q using in_air by blast
  moreover have rep: "size (filter_mset is_reply air) \<le> 1" "\<And>b fl. (b, fl) \<in># air \<Longrightarrow> \<not> is_reply (b, fl)"
  proof -
    show all: "\<not> is_reply (b, fl)" if "(b, fl) \<in># air" for b fl using in_air [OF that] by auto
    then have "filter_mset is_reply air = {#}" by (auto simp: filter_mset_eq_conv)
    then show "size (filter_mset is_reply air) \<le> 1" by (simp only: size_empty)
  qed
  moreover have "(b, Search q) \<in># air \<Longrightarrow> np_app q = np_app p" for b q
    using in_air [of "(b, Search q)"] by (auto simp: copies_def first_packet_def)
  ultimately show ?thesis
    using none far by (simp add: talk_ok_def seeker_ok_def route_back_def rep)
qed

lemma talk_ok_less:
  assumes inv: "talk_ok True s r x (nodes, air)" and "air' \<subseteq># air"
  shows "talk_ok True s r x (nodes, air')"
proof -
  have sub: "y \<in># air' \<Longrightarrow> y \<in># air" for y using assms(2) by (rule mset_subset_eqD)
  have rep: "filter_mset is_reply air' \<subseteq># filter_mset is_reply air" using assms(2) by (rule multiset_filter_mono)
  have "search_ok s r (nodes, searches air')"
    by (rule search_ok_subset [of s r nodes "searches air"]) (use inv sub in \<open>auto simp: talk_ok_def\<close>)
  moreover have "size (filter_mset is_reply air') \<le> 1" using size_mset_mono [OF rep] inv by (simp add: talk_ok_def)
  ultimately show ?thesis
    using inv sub rep by (auto simp: talk_ok_def split: if_splits)
qed

lemma talk_ok_step:
  assumes "talk_step lossy x y" and "talk_ok lossy s r app x" and "unat s < NODE_COUNT" and "unat r < NODE_COUNT" and "s \<noteq> r"
  shows "talk_ok lossy s r app y"
  using assms(1)
proof cases
  case (handle a fl air os nodes ok nd' new)
  note inv = assms(2) [unfolded handle(1)]
  show ?thesis
  proof (cases fl)
    case (Reply q)
    show ?thesis unfolding handle(2) Reply
      by (rule talk_ok_reply [OF inv assms(5,4)]) (use handle in \<open>simp_all add: Reply\<close>)
  next
    case (Search p)
    note h = handle(3-7) [unfolded Search]
    show ?thesis
    proof (cases "a = r \<and> accepts (nodes a) p")
      case True
      then show ?thesis
        unfolding handle(2) Search using talk_ok_search_met [OF inv assms(3,5), of p] h by auto
    next
      case False
      have "packet_in_search nodes s r (a, p)" "nd_addr (nodes a) = a" using talk_okD(2,7) [OF inv] h(1) by blast+
      then have "relays (nodes a) p \<or> \<not> accepts (nodes a) p"
        using False by (auto simp: relays_accepts packet_in_search_def)
      then show ?thesis unfolding handle(2) Search by (rule talk_ok_search_on [OF inv assms(3,5) h(1-4)])
    qed
  qed
next
  case (lose a fl air nodes)
  then show ?thesis using assms(2) talk_ok_less [of s r app nodes air] by simp
qed

text \<open>The ends of a search for which there is anything to find.\<close>

definition proper :: "node_packet \<Rightarrow> bool" where
  "proper p \<longleftrightarrow> packet_ok p \<and> unat (np_sender_addr p) < NODE_COUNT \<and> unat (np_receiver_addr p) < NODE_COUNT
     \<and> np_sender_addr p \<noteq> np_receiver_addr p"

lemma talk_reachable_ok:
  assumes "talk_reachable lossy p x" and "proper p"
  shows "talk_ok lossy (np_sender_addr p) (np_receiver_addr p) (np_app p) x"
  using assms(1)
proof (induction rule: talk_reachable.induct)
  case (start nodes air)
  then show ?case using talk_ok_start assms(2) by (simp add: proper_def)
next
  case (step x y)
  then show ?case using talk_ok_step assms(2) by (simp add: proper_def)
qed

subsection \<open>What it gives\<close>

lemma routes_home:
  "talk_ok lossy s r x (nodes, air) \<Longrightarrow> route nodes a s = Some (h, k) \<Longrightarrow> \<exists>n. leads_to nodes s a n \<and> int n < sint k"
  using search_ok_leads [of s r nodes "searches air"] by (simp add: talk_ok_def)

lemma routes_there:
  assumes "talk_ok lossy s r x (nodes, air)" and "route nodes a r = Some (h, k)"
  shows "\<exists>n. leads_to nodes r a n \<and> int n \<le> sint k"
  using assms(2)
proof (induction "nat (sint k)" arbitrary: a h k rule: less_induct)
  case less
  have b: "near a h" "1 \<le> sint k" "h = r \<or> (\<exists>h' k'. route nodes h r = Some (h', k') \<and> sint k' < sint k)"
    using talk_okD(4) [OF assms(1), of a] less.prems by (simp_all add: route_back_def)
  show ?case
  proof (cases "h = r")
    case True
    then have "leads_to nodes r a (Suc 0)"
      using leads_to.hop [of nodes a r h k 0] less.prems b(1) leads_to.here [of nodes r] by simp
    then show ?thesis using b(2) by (intro exI [of _ "Suc 0"]) simp
  next
    case False
    then obtain h' k' where k': "route nodes h r = Some (h', k')" "sint k' < sint k" using b(3) by blast
    then have "nat (sint k') < nat (sint k)" using b(2) by linarith
    from less.hyps [OF this k'(1)] obtain n where n: "leads_to nodes r h n" "int n \<le> sint k'" by blast
    have "leads_to nodes r a (Suc n)" by (rule leads_to.hop [OF less.prems b(1) n(1)])
    then show ?thesis using n(2) k'(2) by (intro exI [of _ "Suc n"]) simp
  qed
qed

lemma answer_arrives:
  assumes "talk_ok False s r x (nodes, air)" and "handled (nodes r) (ap_id x)" and "\<forall>b q. (b, Reply q) \<notin># air"
  shows "\<exists>h k n. route nodes s r = Some (h, k) \<and> leads_to nodes r s n \<and> int n \<le> sint k"
proof -
  have "filter_mset is_reply air = {#}"
    using assms(3) by (auto simp: filter_mset_eq_conv is_reply_def split: flight.split)
  then have "route nodes s r \<noteq> None" using assms(1,2) by (auto simp: talk_ok_def)
  then show ?thesis using routes_there [OF assms(1)] by fastforce
qed

subsection \<open>Searches and answers end\<close>

definition weight :: "u8 \<times> flight \<Rightarrow> nat" where
  "weight x = (case snd x of Search p \<Rightarrow> 100 + nat (sint (np_time_to_live p)) | Reply q \<Rightarrow> nat (sint (np_time_to_live q)))"

lemma outgoing_lighter:
  assumes inv: "talk_ok lossy s r x (nodes, air)" and fl: "(a, fl) \<in># air" and y: "y \<in># outgoing fl (nodes a)"
  shows "weight y < weight (a, fl)"
proof (cases fl)
  case (Search p)
  have p: "packet_ok p" using talk_okD(7) [OF inv] fl by (auto simp: Search packet_in_search_def)
  consider "relays (nodes a) p" "y \<in># image_mset (\<lambda>(b, q). (b, Search q)) (copies (nd_addr (nodes a)) p)"
    | h where "y = (h, Reply (answer (nd_addr (nodes a)) p))"
    using y by (auto simp: Search split: if_splits option.splits)
  then show ?thesis
  proof cases
    case 1
    then obtain b q where "y = (b, Search q)" "(b, q) \<in># copies (nd_addr (nodes a)) p" by auto
    then show ?thesis using copies_hops [OF 1(1), of "(b, q)"] by (simp add: weight_def Search hops_left_def)
  next
    case 2
    then show ?thesis using answer_fields(7) [OF p] by (simp add: weight_def Search TTL_eq)
  qed
next
  case (Reply q)
  have q: "np_sender_addr q = s" "a = s \<or> route nodes a s \<noteq> None" "level nodes s a \<le> sint (np_time_to_live q)"
    using talk_okD(6) [OF inv] fl by (auto simp: Reply reply_in_talk_def)
  obtain h where hop: "a \<noteq> s" "y = (h, Reply (hop_back (nd_addr (nodes a)) q))"
    using y q(1) talk_okD(2) [OF inv, of a] by (auto simp: Reply split: if_splits option.splits)
  then obtain h' k where "route nodes a s = Some (h', k)" using q(2) by auto
  then have "0 < sint (np_time_to_live q)"
    using talk_okD(5) [OF inv, of a] q(3) hop(1) by (auto simp: route_in_search_def level_def)
  then show ?thesis using sint_minus_1 [of "np_time_to_live q"] by (simp add: weight_def Reply hop(2))
qed

lemma talk_step_decreases:
  assumes "talk_step lossy x y" and "talk_ok lossy s r app x"
  shows "(image_mset weight (snd y), image_mset weight (snd x)) \<in> mult less_than"
  using assms(1)
proof cases
  case (handle a fl air os nodes ok nd' new)
  have "weight y < weight (a, fl)" if "y \<in># new" for y
    using outgoing_lighter [OF assms(2) [unfolded handle(1)] handle(3)] mset_subset_eqD [OF handle(6) that] .
  from replace_lighter [where f = weight, OF handle(3) this] show ?thesis by (simp add: handle(1,2))
qed (simp add: remove_lighter)

lemma talk_wf:
  assumes "proper p"
  shows "wf {(y, x). talk_reachable lossy p x \<and> talk_step lossy x y}"
proof (rule wf_subset)
  show "wf (inv_image (mult less_than) (\<lambda>x :: talk. image_mset weight (snd x)))"
    by (intro wf_inv_image wf_mult) simp
  show "{(y, x). talk_reachable lossy p x \<and> talk_step lossy x y}
      \<subseteq> inv_image (mult less_than) (\<lambda>x. image_mset weight (snd x))"
    using talk_step_decreases [OF _ talk_reachable_ok [OF _ assms]] by (fastforce simp: inv_image_def)
qed

end
