(* ===== verification/Pool.thy ===== *)
theory Pool
  imports Mesh_Talk
begin

text \<open>
  The 29 slots of the connection table are enough for a node: it has at most 28 neighbours and the
  server.  While the kernel hands out sockets, connects and accepts bytes, no message a node sends
  to one of them is lost for want of a slot.
\<close>

subsection \<open>A table with room\<close>

text \<open>The kernel as its manual pages describe it when nothing fails (descriptor 0 is the standard input).\<close>

definition healthy :: "os \<Rightarrow> bool" where
  "healthy os \<longleftrightarrow> (\<forall>tr. 0 < os_socket os tr) \<and> (\<forall>tr fd p. os_connect os tr fd p = 0)
     \<and> (\<forall>tr fd bs. bs \<noteq> [] \<longrightarrow> 0 < os_send os tr fd bs)"

text \<open>There is a healthy kernel.\<close>

lemma healthy_exists: "\<exists>os. healthy os"
proof -
  have "healthy (undefined\<lparr>os_socket := \<lambda>_. 1, os_connect := \<lambda>_ _ _. 0, os_send := \<lambda>_ _ bs. int (length bs)\<rparr>)"
    by (simp add: healthy_def)
  then show ?thesis by blast
qed

text \<open>All connections are to different ports in \<open>P\<close>.\<close>

abbreviation slot :: "net \<Rightarrow> nat \<Rightarrow> conn" where
  "slot n i \<equiv> net_conns (init_conns n) ! i"

definition pool_fits :: "u16 set \<Rightarrow> net \<Rightarrow> bool" where
  "pool_fits P n \<longleftrightarrow> net_ok n
     \<and> (\<forall>i < CONNECTIONS. conn_fd (slot n i) = -1 \<or> 0 < conn_fd (slot n i) \<and> conn_port (slot n i) \<in> P)
     \<and> (\<forall>i < CONNECTIONS. \<forall>j < CONNECTIONS. 0 < conn_fd (slot n i) \<longrightarrow> 0 < conn_fd (slot n j) \<longrightarrow>
          conn_port (slot n i) = conn_port (slot n j) \<longrightarrow> i = j)"

lemma pool_fitsD:
  assumes "pool_fits P n"
  shows "length (net_conns n) = CONNECTIONS" and "net_ok n"
    and "i < CONNECTIONS \<Longrightarrow> conn_fd (slot n i) \<noteq> -1 \<Longrightarrow> 0 < conn_fd (slot n i) \<and> conn_port (slot n i) \<in> P"
    and "i < CONNECTIONS \<Longrightarrow> j < CONNECTIONS \<Longrightarrow> 0 < conn_fd (slot n i) \<Longrightarrow> 0 < conn_fd (slot n j) \<Longrightarrow>
       conn_port (slot n i) = conn_port (slot n j) \<Longrightarrow> i = j"
    and "open_on n p = None \<Longrightarrow> i < CONNECTIONS \<Longrightarrow> 0 < conn_fd (slot n i) \<Longrightarrow> conn_port (slot n i) \<noteq> p"
  using assms by (auto simp: pool_fits_def net_ok_def open_on_conv find_slot_None)

lemma healthy_connects:
  assumes "healthy os"
  shows "0 < fst (connection_socket_to_send os p tr)"
  using assms by (simp add: healthy_def connection_socket_to_send_def Let_def not_less less_imp_le)

lemma pool_never_full:
  assumes "pool_fits P n" and "p \<in> P" and "finite P" and "card P \<le> CONNECTIONS" and "open_on n p = None"
  shows "find_slot (\<lambda>c. conn_fd c = -1) (init_conns n) \<noteq> None"
proof
  note fits = pool_fitsD [OF assms(1)]
  assume "find_slot (\<lambda>c. conn_fd c = -1) (init_conns n) = None"
  then have used: "0 < conn_fd (slot n i)" "conn_port (slot n i) \<in> P" if "i < CONNECTIONS" for i
    using that fits(1) fits(3) [of i] by (simp_all add: find_slot_None)
  then have "(\<lambda>i. conn_port (slot n i)) ` {..<CONNECTIONS} \<subseteq> P - {p}" using fits(5) [OF assms(5)] by auto
  moreover have "inj_on (\<lambda>i. conn_port (slot n i)) {..<CONNECTIONS}"
    using fits(4) used(1) by (auto simp: inj_on_def)
  ultimately have "CONNECTIONS \<le> card (P - {p})"
    using card_inj_on_le [of "\<lambda>i. conn_port (slot n i)" "{..<CONNECTIONS}" "P - {p}"] assms(3) by simp
  moreover have "card (P - {p}) < card P" using assms(2,3) by (intro card_Diff1_less)
  ultimately show False using assms(4) by simp
qed

lemma pool_fits_update:
  assumes "pool_fits P n" and "i < CONNECTIONS" and "0 < fd" and "p \<in> P" and "open_on n p = None"
    and "n' = (init_conns n)\<lparr>net_conns := (net_conns (init_conns n))[i := \<lparr>conn_fd = fd, conn_port = p\<rparr>], net_trace := tr\<rparr>"
  shows "pool_fits P n'"
proof -
  note fits = pool_fitsD [OF assms(1)]
  have slot: "slot n' j = (if j = i then \<lparr>conn_fd = fd, conn_port = p\<rparr> else slot n j)" if "j < CONNECTIONS" for j
    using that assms(2) fits(1) by (simp add: assms(6) nth_list_update)
  have "j = k" if "j < CONNECTIONS" "k < CONNECTIONS" "0 < conn_fd (slot n' j)" "0 < conn_fd (slot n' k)"
    "conn_port (slot n' j) = conn_port (slot n' k)" for j k
    using that fits(4) [of j k] fits(5) [OF assms(5), of j] fits(5) [OF assms(5), of k] by (auto simp: slot split: if_splits)
  moreover have "conn_fd (slot n' j) = -1 \<or> 0 < conn_fd (slot n' j) \<and> conn_port (slot n' j) \<in> P" if "j < CONNECTIONS" for j
    using that assms(3,4) fits(3) [of j] by (auto simp: slot)
  moreover have "net_ok n'" using fits(1) by (simp add: assms(6) net_ok_def)
  ultimately show ?thesis by (simp add: pool_fits_def)
qed

lemma pool_connects:
  assumes "healthy os" and "pool_fits P n" and "p \<in> P" and "finite P" and "card P \<le> CONNECTIONS"
  shows "0 < fst (get_conn os p n)" and "pool_fits P (snd (get_conn os p n))"
proof -
  obtain fd n' where conn: "get_conn os p n = (fd, n')" by fastforce
  have "0 < fd \<and> pool_fits P n'"
    using conn
  proof (cases rule: get_conn_cases)
    case reused
    have "net_ok n" using assms(2) by (simp add: pool_fits_def)
    moreover have "pool_fits P (init_conns n)" using assms(2) by (simp add: pool_fits_def net_ok_def)
    ultimately show ?thesis using pool.open_pos reused by blast
  next
    case full
    then show ?thesis using pool_never_full [OF assms(2-5)] by simp
  next
    case (failed i k tr)
    then show ?thesis using healthy_connects [OF assms(1), of p "net_trace n"] by simp
  next
    case (opened i tr)
    then have "0 < fd" using healthy_connects [OF assms(1), of p "net_trace n"] by simp
    then show ?thesis
      using pool_fits_update [OF assms(2) _ _ assms(3) opened(1,6)] opened(3) pool_fitsD(1) [OF assms(2)] by simp
  qed
  then show "0 < fst (get_conn os p n)" "pool_fits P (snd (get_conn os p n))" by (simp_all add: conn)
qed

text \<open>Every message is then sent in full.\<close>

lemma healthy_writes:
  assumes "healthy os" and "length m < 256"
  shows "fst (io_write_loop os fd m (of_nat (length m)) tr)"
  using assms(2)
proof (induction "length m" arbitrary: m tr rule: less_induct)
  case less
  let ?n = "of_nat (length m) :: u8"
  show ?case
  proof (cases "m = []")
    case True
    then show ?thesis by (simp add: io_write_loop.simps)
  next
    case False
    have n: "unat ?n = length m" using less.prems by (simp add: unat_of_nat)
    define rv where "rv = send_call os tr fd m"
    have rv: "0 < rv" "rv \<le> int (length m)"
      using assms(1) False by (auto simp: rv_def send_call_def healthy_def)
    have "word_of_int rv = (of_nat (nat rv) :: u8)" using rv(1) by (simp add: of_nat_nat)
    then have rest: "?n - word_of_int rv = of_nat (length (drop (nat rv) m))"
      using rv by (simp add: of_nat_diff nat_le_iff)
    have "0 < ?n" using n False by (simp add: word_less_nat_alt)
    moreover have "fst (io_write_loop os fd (drop (nat rv) m) (of_nat (length (drop (nat rv) m))) tr')" for tr'
      by (rule less.hyps) (use rv False less.prems in auto)
    ultimately show ?thesis
      using rv(1) by (simp add: io_write_loop.simps [of os fd m] n Let_def rv_def [symmetric] rest)
  qed
qed

lemma pool_sends:
  assumes "healthy os" and "pool_fits P n" and "p \<in> P" and "finite P" and "card P \<le> CONNECTIONS" and "length m < 256"
  shows "fst (send_message os p m n)" and "pool_fits P (snd (send_message os p m n))"
proof -
  note conn = pool_connects [OF assms(1-5)]
  have "pool_fits P (x\<lparr>net_trace := tr\<rparr>) = pool_fits P x" for x tr
    by (simp add: pool_fits_def net_ok_def init_conns_def)
  then show "fst (send_message os p m n)" "pool_fits P (snd (send_message os p m n))"
    using conn healthy_writes [OF assms(1,6)] by (simp_all add: send_message_def case_prod_beta)
qed

text \<open>The bytes go to the connection the pool then holds for the port, the one it held before if there was one.\<close>

lemma pool_sends_on:
  assumes "healthy os" and "pool_fits P n" and "p \<in> P" and "finite P" and "card P \<le> CONNECTIONS" and "length m < 256"
  shows "\<exists>fd > 0. open_on (snd (send_message os p m n)) p = Some fd \<and> (\<forall>fd'. open_on n p = Some fd' \<longrightarrow> fd' = fd)
     \<and> sent fd (net_trace (snd (send_message os p m n))) = sent fd (net_trace n) @ m"
proof -
  obtain fd n1 where conn: "get_conn os p n = (fd, n1)" by fastforce
  have ok: "net_ok n" and fd: "0 < fd" using pool_connects(1) [OF assms(1-5)] assms(2) by (simp_all add: conn pool_fits_def)
  obtain tr where loop: "io_write_loop os fd m (of_nat (length m)) (net_trace n1) = (True, tr)"
    using healthy_writes [OF assms(1,6), of fd "net_trace n1"] by (metis prod.collapse)
  have "unat (of_nat (length m) :: u8) = length m" using assms(6) by (simp add: unat_of_nat)
  then have "sent fd tr = sent fd (net_trace n) @ m"
    using io_write_loop_spec [OF loop] get_conn_sent [OF conn, of fd] by auto
  moreover have "snd (send_message os p m n) = n1\<lparr>net_trace := tr\<rparr>" using fd by (simp add: send_message_def conn loop)
  moreover have "open_on (n1\<lparr>net_trace := tr\<rparr>) p = Some fd"
    using pool.connect_opens [OF ok conn fd] by (simp add: open_on_trace)
  moreover have "fd' = fd" if "open_on n p = Some fd'" for fd' using pool.reuse [OF ok that, of os] conn by auto
  ultimately show ?thesis using fd by auto
qed

lemma pool_floods:
  assumes "healthy os" and "finite P" and "card P \<le> CONNECTIONS" and "length m < 256"
  shows "pool_fits P n \<Longrightarrow> set ps \<subseteq> P \<Longrightarrow> pool_fits P (flood os ps m n)"
  by (induction ps arbitrary: n) (simp_all add: flood_def pool_sends(2) assms)

subsection \<open>The links of a node\<close>

definition links :: "u8 \<Rightarrow> u16 set" where
  "links a = insert SERVER_PORT (node_port ` {b. near a b})"

lemma links: "finite (links a)" "card (links a) \<le> CONNECTIONS"
proof -
  have "finite {b. near a b} \<and> card {b. near a b} \<le> 28"
  proof (cases "unat a < NODE_COUNT")
    case True
    then show ?thesis
      using neighbor_addrs [OF True] card_length [of "neighbor_addrs a"] by (metis List.finite_set order.trans)
  next
    case False
    then have "{b. near a b} = {}" by (simp add: near_def)
    then show ?thesis by simp
  qed
  then have "finite {b. near a b}" "card (node_port ` {b. near a b}) \<le> 28"
    using card_image_le [of "{b. near a b}" node_port] by auto
  then show "finite (links a)" "card (links a) \<le> CONNECTIONS"
    using card_insert_le_m1 [of 29 "node_port ` {b. near a b}" SERVER_PORT] by (simp_all add: links_def CONNECTIONS_def)
qed

definition node_fits :: "node \<Rightarrow> bool" where
  "node_fits nd \<longleftrightarrow> pool_fits (links (nd_addr nd)) (nd_net nd)"

lemma fresh_node_fits: "net_ok (nd_net nd) \<Longrightarrow> \<not> net_init (nd_net nd) \<Longrightarrow> node_fits nd"
  by (simp add: node_fits_def pool_fits_def net_ok_def init_conns_def no_conn_def)

lemma os_transmitted_length: "payload_ok pl \<Longrightarrow> length (os_transmitted os req pl) < 256"
  using length_transmitted [of pl] length_wire_message(2) [of pl] by (simp add: os_transmitted_def)

lemmas link_sends = pool_sends [OF _ _ _ links(1,2)] and link_sends_on = pool_sends_on [OF _ _ _ links(1,2)]
  and link_floods = pool_floods [OF _ links(1,2)]

text \<open>Messages to several neighbours in turn are all sent in full.\<close>

lemma links_in_turn:
  assumes "healthy os" and "\<And>b. b \<in> set bs \<Longrightarrow> near a b" and "\<And>b. length (m b) < 256"
  shows "pool_fits (links a) n \<Longrightarrow> pool_fits (links a) (fold (\<lambda>b n. snd (send_message os (node_port b) (m b) n)) bs n)"
    and "pool_fits (links a) n \<Longrightarrow> bs = xs @ b # ys \<Longrightarrow>
      fst (send_message os (node_port b) (m b) (fold (\<lambda>b n. snd (send_message os (node_port b) (m b) n)) xs n))"
proof -
  have link: "node_port b \<in> links a" if "b \<in> set bs" for b using assms(2) that by (auto simp: links_def)
  have fits: "pool_fits (links a) n \<Longrightarrow> set cs \<subseteq> set bs \<Longrightarrow>
      pool_fits (links a) (fold (\<lambda>b n. snd (send_message os (node_port b) (m b) n)) cs n)" for cs n
    by (induction cs arbitrary: n) (simp_all add: link_sends(2) [OF assms(1) _ link assms(3)])
  show "pool_fits (links a) n \<Longrightarrow> pool_fits (links a) (fold (\<lambda>b n. snd (send_message os (node_port b) (m b) n)) bs n)"
    using fits by simp
  show "fst (send_message os (node_port b) (m b) (fold (\<lambda>b n. snd (send_message os (node_port b) (m b) n)) xs n))"
    if "pool_fits (links a) n" "bs = xs @ b # ys"
    using link_sends(1) [OF assms(1) fits [OF that(1), of xs] link assms(3)] that(2) by auto
qed

text \<open>Handling a packet uses links only, and answers never fail.\<close>

lemma replies_sent:
  assumes "healthy os" and "node_fits nd" and "\<And>h g. (h, g) \<in># outgoing fl nd \<Longrightarrow> near (nd_addr nd) h"
    and "\<And>h q. (h, Reply q) \<in># outgoing fl nd \<Longrightarrow> packet_ok q"
  shows "\<not> reply_fails os fl nd"
proof
  assume "reply_fails os fl nd"
  then obtain h g where hg: "(h, g) \<in># outgoing fl nd" "case g of Search _ \<Rightarrow> False
      | Reply q \<Rightarrow> \<not> fst (send_message os (node_port h) (reply_message os q) (nd_net nd))"
    by (auto simp: reply_fails_def)
  then obtain q where hq: "(h, Reply q) \<in># outgoing fl nd" "\<not> fst (send_message os (node_port h) (reply_message os q) (nd_net nd))"
    by (cases g) auto
  have "node_port h \<in> links (nd_addr nd)" using assms(3) [OF hq(1)] by (auto simp: links_def)
  moreover have "length (reply_message os q) < 256"
    using os_transmitted_length [of "Packet q"] assms(4) [OF hq(1)] by (simp add: reply_message_def)
  ultimately show False using link_sends(1) [OF assms(1)] assms(2) hq(2) by (simp add: node_fits_def)
qed

lemma reply_links:
  assumes "healthy os" and "node_fits nd" and "near (nd_addr nd) h" and "packet_ok q"
  shows "pool_fits (links (nd_addr nd)) (snd (send_message os (node_port h) (reply_message os q) (nd_net nd)))"
  using link_sends(2) [OF assms(1), of "nd_addr nd" "nd_net nd" "node_port h"] assms os_transmitted_length [of "Packet q"]
  by (auto simp: node_fits_def links_def reply_message_def)

lemma search_fits:
  assumes "healthy os" and "node_ok nd" and "node_fits nd" and "unat (nd_addr nd) < NODE_COUNT" and "packet_ok p"
    and near: "\<And>h g. (h, g) \<in># outgoing (Search p) nd \<Longrightarrow> near (nd_addr nd) h"
    and "handle_flight os (Search p) nd = Some (ok, nd')"
  shows "node_fits nd'"
proof -
  have nd': "nd' = snd (route_direct os p nd)" "nd_addr nd' = nd_addr nd"
    using assms(7) keeps_route_direct [of nd os p] by (auto simp: handle_flight_def handle_node_route_direct_eq [OF assms(5)] keeps_def)
  consider "\<not> accepts nd p" | "relays nd p" | "accepts nd p" "np_receiver_addr p = nd_addr nd" by (auto simp: relays_accepts)
  then have "pool_fits (links (nd_addr nd)) (nd_net nd')"
  proof cases
    case 1
    then show ?thesis using route_direct_ignores [OF assms(2)] assms(3) by (simp add: nd'(1) node_fits_def)
  next
    case 2
    have "set (map node_port (neighbor_addrs (nd_addr nd))) \<subseteq> links (nd_addr nd)"
      using neighbor_addrs(1) [OF assms(4)] by (auto simp: links_def)
    moreover have "length (os_transmitted os REQUEST_ROUTE_DIRECT (Packet (flood_copy (nd_addr nd) p))) < 256"
      using assms(5) by (intro os_transmitted_length) simp
    ultimately show ?thesis
      unfolding nd'(1) relays_floods [OF assms(2) 2 assms(4)]
      using link_floods [OF assms(1)] assms(3) by (simp add: node_fits_def)
  next
    case 3
    then have d: "nd' = snd (delivered os p (met p nd))" using route_direct_accepts [OF assms(2) 3(1)] by (simp add: nd'(1))
    show ?thesis
    proof (cases "unanswered (ap_id (np_app p)) nd \<and> routing_map (learn_direct p (nd_routing nd)) (np_sender_addr p) \<noteq> None")
      case False
      then have "\<not> unanswered (ap_id (np_app p)) nd \<or> routing_map (learn_direct p (nd_routing nd)) (np_sender_addr p) = None" by blast
      then have "nd_net nd' = nd_net nd" by (elim disjE) (simp_all add: d delivered_def unanswered_def Let_def case_prod_beta)
      then show ?thesis using assms(3) by (simp add: node_fits_def)
    next
      case True
      then obtain h k where hk: "routing_map (learn_direct p (nd_routing nd)) (np_sender_addr p) = Some (h, k)" by auto
      have "(h, Reply (answer (nd_addr nd) p)) \<in># outgoing (Search p) nd" using 3 True hk by (simp add: relays_accepts)
      from reply_links [OF assms(1,3) near [OF this], of "answer (nd_addr nd) p"]
      have sent: "pool_fits (links (nd_addr nd)) (snd (send_message os (node_port h) (reply_message os (answer (nd_addr nd) p)) (nd_net nd)))"
        using answer_fields(1) [OF assms(5)] by simp
      have "SERVER_PORT \<in> links (nd_addr nd)" by (simp add: links_def)
      note report = link_sends(2) [OF assms(1) sent this os_transmitted_length]
      show ?thesis
        unfolding d delivered_met(2) [OF 3(2,1) conjunct1 [OF True] hk] using sent report by simp
    qed
  qed
  then show ?thesis by (simp add: node_fits_def nd'(2))
qed

lemma reply_fits:
  assumes "healthy os" and "node_fits nd" and "packet_ok q" and near: "\<And>h g. (h, g) \<in># outgoing (Reply q) nd \<Longrightarrow> near (nd_addr nd) h"
    and "handle_flight os (Reply q) nd = Some (ok, nd')"
  shows "node_fits nd'"
proof -
  have nd': "nd' = snd (route_inverse os q nd)"
    using assms(5) by (simp add: handle_flight_def handle_node_route_inverse_eq [OF assms(3)] split: if_splits)
  show ?thesis
  proof (cases "valid_crc q \<and> np_sender_addr q \<noteq> nd_addr nd \<and> routing_map (learn_inverse q (nd_routing nd)) (np_sender_addr q) \<noteq> None")
    case False
    then have "\<not> (valid_crc q \<and> np_sender_addr q \<noteq> nd_addr nd)
        \<or> routing_map (learn_inverse q (nd_routing nd)) (np_sender_addr q) = None" by blast
    then have "nd_net nd' = nd_net nd \<and> nd_addr nd' = nd_addr nd" by (elim disjE) (auto simp: nd' route_inverse_def Let_def)
    then show ?thesis using assms(2) by (simp add: node_fits_def)
  next
    case True
    then obtain h k where hk: "routing_map (learn_inverse q (nd_routing nd)) (np_sender_addr q) = Some (h, k)" by auto
    have "(h, Reply (hop_back (nd_addr nd) q)) \<in># outgoing (Reply q) nd" using True hk by simp
    from reply_links [OF assms(1,2) near [OF this], of "hop_back (nd_addr nd) q"] True hk assms(3)
    show ?thesis by (simp add: nd' node_fits_def route_inverse_eq)
  qed
qed

subsection \<open>In a search everything goes to neighbours\<close>

lemma outgoing_near:
  assumes inv: "talk_ok lossy s r x (nodes, air)" and s: "unat s < NODE_COUNT" "s \<noteq> r" and fl: "(a, fl) \<in># air"
    and out: "(h, g) \<in># outgoing fl (nodes a)"
  shows "near a h"
proof (cases fl)
  case (Search p)
  have pk: "packet_in_search nodes s r (a, p)" "nd_addr (nodes a) = a" using talk_okD(2,7) [OF inv] fl by (auto simp: Search)
  then have p: "np_sender_addr p = s" "near (np_local_sender_addr p) a" "unat a < NODE_COUNT"
    by (simp_all add: packet_in_search_def near_def)
  show ?thesis
  proof (cases "relays (nodes a) p")
    case True
    then show ?thesis using out copies_near [OF p(3)] pk(2) by (auto simp: Search)
  next
    case False
    then obtain k where acc: "accepts (nodes a) p" "routing_map (learn_direct p (nd_routing (nodes a))) s = Some (h, k)"
      using out p(1) by (auto simp: Search split: if_splits option.splits)
    have "route nodes a s = None" "np_app p = x"
      using acc(1) talk_okD(3,7) [OF inv] fl by (auto simp: Search seeker_ok_def accepts_def)
    then have "routing_map (learn_direct p (nd_routing (nodes a))) s \<in> {None, Some (np_local_sender_addr p, packet_metric p)}"
      using routes.relax_origin [of "nd_routing (nodes a)" "np_local_sender_addr p" s "packet_metric p"] talk_okD(1) [OF inv, of a]
        near_hop [OF p(2)] p(1) by (auto simp: learn_direct_relax node_ok_def)
    then show ?thesis using acc(2) near_sym p(2) by auto
  qed
next
  case (Reply q)
  have q: "np_sender_addr q = s" "np_receiver_addr q = r" "near (np_local_sender_addr q) a"
    using talk_okD(6) [OF inv] fl by (auto simp: Reply reply_in_talk_def)
  have "routing_map (learn_inverse q (nd_routing (nodes a))) s = route nodes a s"
    using learn_inverse_other [of "nd_routing (nodes a)" q s] talk_okD(1) [OF inv, of a] near_hop [OF q(3)] q(2) s(2)
    by (simp add: node_ok_def)
  then obtain k where "route nodes a s = Some (h, k)"
    using out q(1) by (auto simp: Reply split: if_splits option.splits)
  then show ?thesis using talk_okD(5) [OF inv, of a] by (simp add: route_in_search_def)
qed

lemma flight_packet_ok:
  assumes "talk_ok lossy s r x (nodes, air)" and "(a, fl) \<in># air"
  shows "fl = Search p \<or> fl = Reply p \<Longrightarrow> packet_ok p" and "(h, Reply q) \<in># outgoing fl (nodes a) \<Longrightarrow> packet_ok q"
proof -
  show ok: "packet_ok p" if "fl = Search p \<or> fl = Reply p" for p
    using that talk_okD(6,7) [OF assms(1)] assms(2) by (auto simp: packet_in_search_def reply_in_talk_def)
  show "packet_ok q" if "(h, Reply q) \<in># outgoing fl (nodes a)"
    using that ok by (cases fl) (auto simp: answer_fields split: if_splits option.splits)
qed

text \<open>With a healthy kernel a node that has only linked to its neighbours handles every packet of a search and still has.\<close>

lemma flight_fits:
  assumes inv: "talk_ok lossy s r x (nodes, air)" and s: "unat s < NODE_COUNT" "s \<noteq> r" and fl: "(a, fl) \<in># air"
    and "healthy os" and "node_fits (nodes a)" and run: "handle_flight os fl (nodes a) = Some (ok, nd')"
  shows "node_fits nd'" and "\<not> reply_fails os fl (nodes a)"
proof -
  have addr: "nd_addr (nodes a) = a" and ok: "node_ok (nodes a)" using talk_okD(1,2) [OF inv] by blast+
  have near: "near (nd_addr (nodes a)) h" if "(h, g) \<in># outgoing fl (nodes a)" for h g
    using outgoing_near [OF inv s fl that] addr by simp
  show "\<not> reply_fails os fl (nodes a)"
    by (rule replies_sent [OF assms(5,6) near flight_packet_ok(2) [OF inv fl]])
  show "node_fits nd'"
  proof (cases fl)
    case (Search p)
    have "near (np_local_sender_addr p) a" using talk_okD(7) [OF inv, of a p] fl by (simp add: Search packet_in_search_def)
    then have node: "unat (nd_addr (nodes a)) < NODE_COUNT" using addr by (simp add: near_def)
    show ?thesis
      by (rule search_fits [OF assms(5) ok assms(6) node flight_packet_ok(1) [OF inv fl] near [unfolded Search] run [unfolded Search]])
        (simp add: Search)
  next
    case (Reply q)
    show ?thesis
      by (rule reply_fits [OF assms(5,6) flight_packet_ok(1) [OF inv fl] near [unfolded Reply] run [unfolded Reply]])
        (simp add: Reply)
  qed
qed

subsection \<open>A report that comes too early\<close>

text \<open>
  A node that is given a unicast reports it as received before it looks at the application; when the
  application then rejects it, the report of the failure comes second.
\<close>

definition report_bytes :: "os \<Rightarrow> notify_type \<Rightarrow> u16 \<Rightarrow> u8 list" where
  "report_bytes os ty mid = os_transmitted os REQUEST_NOTIFY (Notify \<lparr>nt_type = notify_code ty, nt_app_msg_id = mid\<rparr>)"

lemma unicast_reported_early:
  assumes "healthy os" and "node_fits nd" and "packet_ok p" and "valid_crc p" and "np_receiver_addr p = nd_addr nd"
    and "ap_req_type (np_app p) = app_request_code APP_REQUEST_UNICAST" and "\<not> app_handles os (nd_apps nd) (np_app p)"
  shows "\<exists>nd' fd. handle_node_send os p nd = Some (False, nd') \<and> open_on (nd_net nd') SERVER_PORT = Some fd
     \<and> sent fd (node_trace nd') = sent fd (node_trace nd) @ report_bytes os NOTIFY_GOT_MESSAGE (ap_id (np_app p))
         @ report_bytes os NOTIFY_FAIL (ap_id (np_app p))"
proof -
  let ?m = "\<lambda>ty. report_bytes os ty (ap_id (np_app p))"
  have len: "length (?m ty) < 256" for ty by (simp add: report_bytes_def os_transmitted_length)
  have port: "SERVER_PORT \<in> links (nd_addr nd)" by (simp add: links_def)
  define n1 where "n1 = snd (send_message os SERVER_PORT (?m NOTIFY_GOT_MESSAGE) (nd_net nd))"
  define n2 where "n2 = snd (send_message os SERVER_PORT (?m NOTIFY_FAIL) n1)"
  have fits: "pool_fits (links (nd_addr nd)) (nd_net nd)" using assms(2) by (simp add: node_fits_def)
  then have fits1: "pool_fits (links (nd_addr nd)) n1" unfolding n1_def by (rule link_sends(2) [OF assms(1) _ port len])
  obtain fd where fd: "open_on n1 SERVER_PORT = Some fd" "sent fd (net_trace n1) = sent fd (net_trace (nd_net nd)) @ ?m NOTIFY_GOT_MESSAGE"
    using link_sends_on [OF assms(1) fits port len, of NOTIFY_GOT_MESSAGE] by (auto simp: n1_def)
  have "open_on n2 SERVER_PORT = Some fd" "sent fd (net_trace n2) = sent fd (net_trace n1) @ ?m NOTIFY_FAIL"
    using link_sends_on [OF assms(1) fits1 port len, of NOTIFY_FAIL] fd(1) by (auto simp: n2_def)
  moreover have "handle_node_send os p nd = Some (False, nd\<lparr>nd_net := n2\<rparr>)"
    using assms(4-7) by (simp add: handle_node_send_eq [OF assms(3)] deliver_local_def report_def transmit_def report_bytes_def
        n1_def n2_def case_prod_beta Let_def)
  ultimately show ?thesis using fd(2) by (auto simp: node_trace_def)
qed

subsection \<open>What the receiver of a search does\<close>

text \<open>The first copy of a search that reaches its receiver is answered and reported to the server, both in full.\<close>

lemma search_reported:
  assumes "healthy os" and "node_fits nd" and "node_ok nd" and "packet_ok p" and "np_receiver_addr p = nd_addr nd"
    and "accepts nd p" and "unanswered (ap_id (np_app p)) nd" and "routing_map (nd_routing nd) (np_sender_addr p) = None"
    and "unat (np_sender_addr p) < NODE_COUNT" and "near (np_local_sender_addr p) (nd_addr nd)" and "sint (np_time_to_live p) \<le> TTL"
  shows "\<exists>nd' fd m. handle_node_route_direct os p nd = Some (True, nd') \<and> open_on (nd_net nd') SERVER_PORT = Some fd
     \<and> sent fd (node_trace nd') = m @ report_bytes os (if app_handles os (nd_apps nd) (np_app p) then NOTIFY_GOT_MESSAGE else NOTIFY_FAIL)
         (ap_id (np_app p))
     \<and> fst (send_message os (node_port (np_local_sender_addr p)) (reply_message os (answer (nd_addr nd) p)) (nd_net nd))
     \<and> routing_map (nd_routing nd') (np_sender_addr p) = Some (np_local_sender_addr p, packet_metric p)"
proof -
  let ?h = "np_local_sender_addr p" and ?s = "np_sender_addr p" and ?mid = "ap_id (np_app p)"
  let ?r = "report_bytes os (if app_handles os (nd_apps nd) (np_app p) then NOTIFY_GOT_MESSAGE else NOTIFY_FAIL) ?mid"
  have "sint (packet_metric p) = TTL - sint (np_time_to_live p) + 1"
    using assms(6,11) by (intro packet_metric_exact) (simp_all add: accepts_def)
  then have "sint (packet_metric p) > 0" using assms(11) by linarith
  moreover have h: "?h \<noteq> UINT8_MAX" "near (nd_addr nd) ?h" using near_hop [OF assms(10)] by simp_all
  ultimately have learned: "routing_map (learn_direct p (nd_routing nd)) ?s = Some (?h, packet_metric p)"
    using learn_direct_new [of "nd_routing nd" p] assms(3,8,9) by (simp add: node_ok_def)
  have ok: "packet_ok (answer (nd_addr nd) p)" by (rule answer_fields(1) [OF assms(4)])
  define n where "n = send_message os (node_port ?h) (reply_message os (answer (nd_addr nd) p)) (nd_net nd)"
  have "node_port ?h \<in> links (nd_addr nd)" using h(2) by (auto simp: links_def)
  moreover have "length (reply_message os (answer (nd_addr nd) p)) < 256"
    using os_transmitted_length [of "Packet (answer (nd_addr nd) p)"] ok by (simp add: reply_message_def)
  ultimately have n: "fst n" "pool_fits (links (nd_addr nd)) (snd n)"
    using link_sends [OF assms(1) assms(2) [unfolded node_fits_def]] by (simp_all add: n_def)
  have port: "SERVER_PORT \<in> links (nd_addr nd)" by (simp add: links_def)
  have "length ?r < 256" by (simp add: report_bytes_def os_transmitted_length)
  then obtain fd where fd: "open_on (snd (send_message os SERVER_PORT ?r (snd n))) SERVER_PORT = Some fd"
    "sent fd (net_trace (snd (send_message os SERVER_PORT ?r (snd n)))) = sent fd (net_trace (snd n)) @ ?r"
    using link_sends_on [OF assms(1) n(2) port] by blast
  let ?nd = "snd (delivered os p (met p nd))"
  note met = delivered_met [OF assms(5-7) learned, of os, folded n_def]
  have net: "nd_net ?nd = snd (send_message os SERVER_PORT ?r (snd n))" using met(2) n(1) by (simp add: report_bytes_def)
  have "fst (route_direct os p nd)"
    using assms(5,6) direct_first [OF assms(3,6)] by (simp add: route_direct_def accepts_def Let_def case_prod_beta)
  moreover have "snd (route_direct os p nd) = ?nd" using route_direct_accepts [OF assms(3,6)] assms(5) by simp
  ultimately have "handle_node_route_direct os p nd = Some (True, ?nd)"
    by (simp add: handle_node_route_direct_eq [OF assms(4)] prod_eq_iff)
  moreover have "routing_map (nd_routing ?nd) ?s = Some (?h, packet_metric p)" using met(1) n(1) learned by simp
  ultimately show ?thesis using fd n(1) net by (auto simp: node_trace_def n_def)
qed

end
