(* ===== verification/Mesh_Rounds.thy ===== *)
theory Mesh_Rounds
  imports Pool
begin

text \<open>
  A search with healthy kernels, without losses, in which every hop takes the same time: the packets
  of one round are handled, in any order, before those they cause.  Then every node of the grid is
  reached, by a shortest way, long before the time to live of the packets runs out, and the answer
  gets home.
\<close>

subsection \<open>Ways through the grid\<close>

text \<open>
  Ways of \<open>n\<close> hops from \<open>s\<close> that do not pass through the receiver, which does not flood the packets
  it gets.
\<close>

inductive walk :: "u8 \<Rightarrow> u8 \<Rightarrow> nat \<Rightarrow> u8 \<Rightarrow> bool" for s r where
  start: "walk s r 0 s"
| hop: "walk s r n a \<Longrightarrow> a \<noteq> r \<Longrightarrow> near a b \<Longrightarrow> walk s r (Suc n) b"

inductive_simps walk_Suc: "walk s r (Suc n) b"
inductive_simps walk_0: "walk s r 0 b"

text \<open>A shortest way with at least one hop (to \<open>s\<close> itself it has two).\<close>

definition distance :: "u8 \<Rightarrow> u8 \<Rightarrow> nat \<Rightarrow> u8 \<Rightarrow> bool" where
  "distance s r n b \<longleftrightarrow> 0 < n \<and> walk s r n b \<and> (\<forall>m. 0 < m \<longrightarrow> m < n \<longrightarrow> \<not> walk s r m b)"

lemma distance_unique: "distance s r n b \<Longrightarrow> distance s r m b \<Longrightarrow> m = n"
  by (cases m n rule: linorder_cases) (auto simp: distance_def)

lemma distance_exists:
  assumes "walk s r n b" and "0 < n"
  shows "\<exists>m \<le> n. distance s r m b"
proof -
  define m where "m = (LEAST m. 0 < m \<and> walk s r m b)"
  have n: "0 < n \<and> walk s r n b" using assms by simp
  have "0 < m \<and> walk s r m b" unfolding m_def using n by (rule LeastI)
  moreover have "m \<le> n" unfolding m_def using n by (rule Least_le)
  moreover have "\<not> (0 < l \<and> walk s r l b)" if "l < m" for l using that unfolding m_def by (rule not_less_Least)
  ultimately have "m \<le> n \<and> distance s r m b" unfolding distance_def by blast
  then show ?thesis ..
qed

lemma distance_previous:
  assumes "distance s r (Suc n) b" and "0 < n"
  shows "\<exists>a. distance s r n a \<and> a \<noteq> r \<and> near a b"
proof -
  obtain a where a: "walk s r n a" "a \<noteq> r" "near a b" using assms(1) by (auto simp: distance_def walk_Suc)
  have "\<not> walk s r m a" if "0 < m" "m < n" for m
    using walk.hop [OF _ a(2,3), of s m] assms(1) that by (auto simp: distance_def)
  then show ?thesis using a assms(2) by (auto simp: distance_def)
qed

lemma distance_node: "distance s r n b \<Longrightarrow> unat b < NODE_COUNT"
  by (cases n) (auto simp: distance_def walk_Suc near_def)

text \<open>Distances in the grid shrink with a step of one or two rows and columns towards the target.\<close>

definition apart :: "u8 \<Rightarrow> u8 \<Rightarrow> int" where
  "apart a b = max \<bar>row_of b - row_of a\<bar> \<bar>col_of b - col_of a\<bar>"

definition clip :: "int \<Rightarrow> int \<Rightarrow> int" where
  "clip c x = max (- c) (min c x)"

lemma clip_facts:
  assumes "c = 1 \<or> c = 2"
  shows "\<bar>clip c d\<bar> = min c \<bar>d\<bar>" and "\<bar>d - clip c d\<bar> = max (\<bar>d\<bar> - c) 0"
  using assms by (auto simp: clip_def)

lemma max_shrinks:
  fixes x y :: int
  assumes "c = 1 \<or> c = 2" and "3 \<le> max x y"
  shows "max (max (x - c) 0) (max (y - c) 0) \<le> max x y - 1" and "1 \<le> max (max (x - c) 0) (max (y - c) 0)"
  using assms by (auto simp: max_def split: if_splits)

lemma clip_between:
  assumes "c = 1 \<or> c = 2" and "0 \<le> x" and "x < 10" and "0 \<le> y" and "y < 10"
  shows "0 \<le> x + clip c (y - x)" and "x + clip c (y - x) < 10"
  using assms by (auto simp: clip_def)

definition towards :: "int \<Rightarrow> u8 \<Rightarrow> u8 \<Rightarrow> u8" where
  "towards c a b = from_pos (row_of a + clip c (row_of b - row_of a), col_of a + clip c (col_of b - col_of a))"

lemma towards:
  assumes "unat a < NODE_COUNT" and "unat b < NODE_COUNT" and "c = 1 \<or> c = 2" and "3 \<le> apart a b"
  shows "near a (towards c a b)" and "apart (towards c a b) b \<le> apart a b - 1" and "1 \<le> apart (towards c a b) b"
    and "row_of (towards c a b) = row_of a + clip c (row_of b - row_of a)"
    and "col_of (towards c a b) = col_of a + clip c (col_of b - col_of a)"
proof -
  let ?i = "row_of a + clip c (row_of b - row_of a)" and ?j = "col_of a + clip c (col_of b - col_of a)"
  note bounds = row_col_bounds [OF assms(1)] row_col_bounds [OF assms(2)]
  have ij: "0 \<le> ?i" "?i < 10" "0 \<le> ?j" "?j < 10" using clip_between [OF assms(3)] bounds by blast+
  note pos = from_pos_row_col [OF ij, folded towards_def]
  show r: "row_of (towards c a b) = ?i" "col_of (towards c a b) = ?j" using pos by simp_all
  have off: "\<bar>clip c d\<bar> \<le> 2" "1 \<le> \<bar>d\<bar> \<Longrightarrow> clip c d \<noteq> 0" for d
    using assms(3) by (auto simp: clip_def)
  have far: "3 \<le> \<bar>row_of b - row_of a\<bar> \<or> 3 \<le> \<bar>col_of b - col_of a\<bar>" using assms(4) by (simp add: apart_def le_max_iff_disj)
  then have "clip c (row_of b - row_of a) \<noteq> 0 \<or> clip c (col_of b - col_of a) \<noteq> 0"
    using off(2) order.trans [of 1 3] by (metis one_le_numeral)
  then show "near a (towards c a b)"
    using pos(3) assms(1) off(1) by (simp add: near_def near_offset_def r)
  have eq: "apart (towards c a b) b = max (max (\<bar>row_of b - row_of a\<bar> - c) 0) (max (\<bar>col_of b - col_of a\<bar> - c) 0)"
    unfolding apart_def r diff_diff_eq [symmetric] clip_facts(2) [OF assms(3)] ..
  show "apart (towards c a b) b \<le> apart a b - 1" "1 \<le> apart (towards c a b) b"
    unfolding eq using max_shrinks [OF assms(3) assms(4) [unfolded apart_def]] unfolding apart_def .
qed

lemma towards_differ:
  assumes "unat a < NODE_COUNT" and "unat b < NODE_COUNT" and "3 \<le> apart a b"
  shows "towards 1 a b \<noteq> towards 2 a b"
proof
  assume eq: "towards 1 a b = towards 2 a b"
  let ?i = "row_of b - row_of a" and ?j = "col_of b - col_of a"
  have "clip 1 ?i = clip 2 ?i" "clip 1 ?j = clip 2 ?j"
    using towards(4,5) [OF assms(1,2) _ assms(3), of 1] towards(4,5) [OF assms(1,2) _ assms(3), of 2] eq by simp_all
  then have "\<bar>clip 1 ?i\<bar> = \<bar>clip 2 ?i\<bar>" "\<bar>clip 1 ?j\<bar> = \<bar>clip 2 ?j\<bar>" by (simp_all only:)
  then have "min 1 \<bar>?i\<bar> = min 2 \<bar>?i\<bar>" "min 1 \<bar>?j\<bar> = min 2 \<bar>?j\<bar>"
    by (simp_all only: clip_facts simp_thms)
  moreover have "3 \<le> \<bar>?i\<bar> \<or> 3 \<le> \<bar>?j\<bar>" using assms(3) by (simp add: apart_def le_max_iff_disj)
  ultimately show False by (auto simp only: min_def split: if_splits)
qed

lemma near_if_close:
  assumes "unat a < NODE_COUNT" and "unat b < NODE_COUNT" and "a \<noteq> b" and "apart a b \<le> 2"
  shows "near a b"
proof -
  have "row_of b \<noteq> row_of a \<or> col_of b \<noteq> col_of a" using assms(3) from_pos_of_row_col by metis
  moreover have "\<bar>row_of b - row_of a\<bar> \<le> 2" "\<bar>col_of b - col_of a\<bar> \<le> 2" using assms(4) by (simp_all add: apart_def)
  ultimately show ?thesis using assms(1,2) by (simp add: near_def near_offset_def)
qed

lemma walk_closer:
  "walk s r n a \<Longrightarrow> a \<noteq> r \<Longrightarrow> a \<noteq> b \<Longrightarrow> unat a < NODE_COUNT \<Longrightarrow> unat b < NODE_COUNT \<Longrightarrow> apart a b \<le> int m + 2 \<Longrightarrow>
    \<exists>k. n < k \<and> k \<le> n + m + 1 \<and> walk s r k b"
proof (induction m arbitrary: n a)
  case 0
  then have "walk s r (Suc n) b" using near_if_close [of a b] walk.hop [of s r n a b] by simp
  then show ?case by (intro exI [of _ "Suc n"]) simp
next
  case (Suc m)
  show ?case
  proof (cases "apart a b \<le> 2")
    case True
    then have "walk s r (Suc n) b" using Suc.prems near_if_close [of a b] walk.hop [of s r n a b] by simp
    then show ?thesis by (intro exI [of _ "Suc n"]) simp
  next
    case False
    then have far: "3 \<le> apart a b" by simp
    obtain c where c: "c = 1 \<or> c = 2" "towards c a b \<noteq> r" using towards_differ [OF Suc.prems(4,5) far] by metis
    note t = towards(1-3) [OF Suc.prems(4,5) c(1) far]
    have "walk s r (Suc n) (towards c a b)" using walk.hop [OF Suc.prems(1,2) t(1)] .
    moreover have "towards c a b \<noteq> b" using t(3) by (auto simp: apart_def)
    moreover have "unat (towards c a b) < NODE_COUNT" using t(1) by (simp add: near_def)
    ultimately obtain k where "Suc n < k" "k \<le> Suc n + m + 1" "walk s r k b"
      using Suc.IH [of "Suc n" "towards c a b"] c(2) Suc.prems(5,6) t(2) by auto
    then show ?thesis by (intro exI [of _ k]) simp
  qed
qed

lemma apart_bound: "unat a < NODE_COUNT \<Longrightarrow> unat b < NODE_COUNT \<Longrightarrow> apart a b \<le> 9"
  using row_col_bounds [of a] row_col_bounds [of b] by (auto simp: apart_def)

lemma another_neighbour:
  assumes "unat s < NODE_COUNT"
  shows "\<exists>a. near s a \<and> a \<noteq> r"
proof -
  let ?b = "from_pos (if row_of s \<le> 4 then 9 else 0, col_of s)"
  note bounds = row_col_bounds [OF assms]
  have b: "unat ?b < NODE_COUNT" "row_of ?b = (if row_of s \<le> 4 then 9 else 0)"
    using from_pos_row_col [of "if row_of s \<le> 4 then 9 else 0" "col_of s"] bounds by auto
  have "3 \<le> apart s ?b" unfolding apart_def b(2) using bounds by auto
  then show ?thesis
    using towards(1) [OF assms b(1), of 1] towards(1) [OF assms b(1), of 2] towards_differ [OF assms b(1)] by metis
qed

text \<open>Every node is reached within eight hops, even around the receiver.\<close>

lemma distance_bound:
  assumes "unat s < NODE_COUNT" and "unat b < NODE_COUNT" and "s \<noteq> r"
  shows "\<exists>n \<le> 8. distance s r n b"
proof (cases "b = s")
  case True
  obtain a where a: "near s a" "a \<noteq> r" using another_neighbour [OF assms(1)] by blast
  then have "walk s r (Suc 0) a" using walk.hop [OF walk.start assms(3)] by blast
  from walk.hop [OF this a(2)] have "walk s r 2 b" using a(1) near_sym True by (simp add: numeral_2_eq_2)
  from distance_exists [OF this] obtain n where "n \<le> 2" "distance s r n b" by auto
  then show ?thesis by (intro exI [of _ n]) simp
next
  case False
  then obtain k where "0 < k" "k \<le> 8" "walk s r k b"
    using walk_closer [OF walk.start assms(3), of b 7] assms apart_bound [of s b] by auto
  from distance_exists [OF this(3,1)] this(2) show ?thesis by (meson order.trans)
qed

lemma distance_small: "distance s r n b \<Longrightarrow> unat s < NODE_COUNT \<Longrightarrow> s \<noteq> r \<Longrightarrow> n \<le> 8"
  using distance_bound distance_node distance_unique by metis

subsection \<open>Rounds\<close>

text \<open>The round, the nodes, the packets of this round still to be handled and those of the next.\<close>

type_synonym rounds = "nat \<times> (u8 \<Rightarrow> node) \<times> (u8 \<times> flight) multiset \<times> (u8 \<times> flight) multiset"

inductive round_step :: "rounds \<Rightarrow> rounds \<Rightarrow> bool" where
  handle: "(a, fl) \<in># now \<Longrightarrow> healthy os \<Longrightarrow> handle_flight os fl (nodes a) = Some (ok, nd') \<Longrightarrow>
    round_step (k, nodes, now, later) (k, nodes(a := nd'), now - {#(a, fl)#}, later + outgoing fl (nodes a))"
| advance: "later \<noteq> {#} \<Longrightarrow> round_step (k, nodes, {#}, later) (Suc k, nodes, later, {#})"

inductive round_reachable :: "node_packet \<Rightarrow> rounds \<Rightarrow> bool" for p where
  start: "untouched (np_sender_addr p) (np_receiver_addr p) (ap_id (np_app p)) nodes \<Longrightarrow> \<forall>a. node_fits (nodes a) \<Longrightarrow>
    round_reachable p (1, nodes, launched (np_sender_addr p) p, {#})"
| step: "round_reachable p x \<Longrightarrow> round_step x y \<Longrightarrow> round_reachable p y"

text \<open>A run in rounds is one of the mesh without losses, in which answers never fail.\<close>

definition in_air :: "rounds \<Rightarrow> talk" where
  "in_air x = (case x of (k, nodes, now, later) \<Rightarrow> (nodes, now + later))"

lemma in_air_simp [simp]: "in_air (k, nodes, now, later) = (nodes, now + later)"
  by (simp add: in_air_def)

lemma round_talk_step:
  assumes "round_step x y" and "talk_ok False s r a (in_air x)" and "\<forall>b. node_fits (fst (in_air x) b)"
    and "unat s < NODE_COUNT" and "s \<noteq> r"
  shows "(talk_step False (in_air x) (in_air y) \<or> in_air y = in_air x \<and> fst x < fst y) \<and> (\<forall>b. node_fits (fst (in_air y) b))"
  using assms(1)
proof cases
  case (handle b fl now os nodes ok nd' k later)
  have inv: "talk_ok False s r a (nodes, now + later)" "node_fits (nodes b)" "(b, fl) \<in># now + later"
    using assms(2,3) handle by simp_all
  note fits = flight_fits [OF inv(1) assms(4,5) inv(3) handle(4) inv(2) handle(5)]
  have "talk_step False (nodes, now + later) (nodes(b := nd'), now + later - {#(b, fl)#} + outgoing fl (nodes b))"
    by (rule talk_step.handle [where nodes = nodes, OF inv(3) handle(5) fits(2)]) simp_all
  then show ?thesis using assms(3) fits(1) handle by (simp add: add.assoc)
qed (use assms(3) in simp)

lemma round_talk:
  assumes "round_reachable p x" and "proper p"
  shows "talk_reachable False p (in_air x) \<and> (\<forall>b. node_fits (fst (in_air x) b))"
  using assms(1)
proof (induction rule: round_reachable.induct)
  case (start nodes)
  then show ?case by (simp add: talk_reachable.start)
next
  case (step x y)
  have "talk_ok False (np_sender_addr p) (np_receiver_addr p) (np_app p) (in_air x)"
    using talk_reachable_ok assms(2) step.IH by blast
  from round_talk_step [OF step.hyps(2) this] show ?case
    using step.IH assms(2) talk_reachable.step [of False p "in_air x" "in_air y"] by (auto simp: proper_def)
qed

subsection \<open>The wave front\<close>

definition wave :: "u8 \<Rightarrow> u8 \<Rightarrow> nat \<Rightarrow> (u8 \<times> flight) multiset \<Rightarrow> bool" where
  "wave s r k air \<longleftrightarrow> (\<forall>b q. (b, Search q) \<in># air \<longrightarrow> walk s r k b \<and> sint (np_time_to_live q) = TTL - int k)"

definition seeks :: "u8 \<Rightarrow> (u8 \<times> flight) multiset \<Rightarrow> bool" where
  "seeks b air \<longleftrightarrow> (\<exists>q. (b, Search q) \<in># air)"

text \<open>A node that has met the message did so in the round of its distance, and knows that distance.\<close>

definition met_at :: "u8 \<Rightarrow> u8 \<Rightarrow> u16 \<Rightarrow> nat \<Rightarrow> (u8 \<Rightarrow> node) \<Rightarrow> u8 \<Rightarrow> bool" where
  "met_at s r mid k nodes b \<longleftrightarrow> (handled (nodes b) mid \<longrightarrow>
     (\<exists>n \<le> k. distance s r n b \<and> (\<exists>h m. route nodes b s = Some (h, m) \<and> sint m = int n + 1)))"

definition front_ok :: "u8 \<Rightarrow> u8 \<Rightarrow> u16 \<Rightarrow> rounds \<Rightarrow> bool" where
  "front_ok s r mid x \<longleftrightarrow> (case x of (k, nodes, now, later) \<Rightarrow>
     0 < k \<and> wave s r k now \<and> wave s r (Suc k) later \<and> (\<forall>b. met_at s r mid k nodes b)
     \<and> (\<forall>b n. distance s r n b \<longrightarrow> n < k \<longrightarrow> handled (nodes b) mid)
     \<and> (\<forall>b. distance s r k b \<longrightarrow> handled (nodes b) mid \<or> seeks b now)
     \<and> (\<forall>a b. distance s r k a \<longrightarrow> a \<noteq> r \<longrightarrow> handled (nodes a) mid \<longrightarrow> near a b \<longrightarrow> seeks b later))"

lemma in_diff_other: "x \<noteq> y \<Longrightarrow> x \<in># A - {#y#} \<longleftrightarrow> x \<in># A"
  by (simp add: in_diff_count)

lemma seeks_simps [simp]: "seeks b (air + air') \<longleftrightarrow> seeks b air \<or> seeks b air'"
  "seeks b (air - {#(a, Reply q)#}) \<longleftrightarrow> seeks b air" "\<not> seeks b {#}"
  "b \<noteq> a \<Longrightarrow> seeks b (air - {#(a, fl)#}) \<longleftrightarrow> seeks b air"
  by (simp_all add: seeks_def in_diff_other ex_disj_distrib)

lemma wave_simps [simp]: "wave s r k (air + air') \<longleftrightarrow> wave s r k air \<and> wave s r k air'" "wave s r k {#}"
  by (auto simp: wave_def)

lemma wave_less: "wave s r k air \<Longrightarrow> wave s r k (air - y)"
  by (auto simp: wave_def dest: in_diffD)

text \<open>The copies a node sends go one hop further.\<close>

lemma copies_front:
  assumes "unat a < NODE_COUNT" and "walk s r k a" and "a \<noteq> r" and "sint (np_time_to_live (flood_copy a p)) = TTL - int (Suc k)"
  shows "wave s r (Suc k) (image_mset (\<lambda>(b, q). (b, Search q)) (copies a p))"
    and "near a b \<Longrightarrow> seeks b (image_mset (\<lambda>(b, q). (b, Search q)) (copies a p))"
proof -
  have "walk s r (Suc k) b \<and> sint (np_time_to_live q) = TTL - int (Suc k)" if "(b, q) \<in># copies a p" for b q
    using copies_near [OF assms(1) that] walk.hop [OF assms(2,3)] assms(4) by blast
  then show "wave s r (Suc k) (image_mset (\<lambda>(b, q). (b, Search q)) (copies a p))" by (auto simp: wave_def)
  have "(b, flood_copy a p) \<in># copies a p" if "near a b" for b
    using neighbor_addrs(1) [OF assms(1)] that by (simp add: copies_def)
  then show "near a b \<Longrightarrow> seeks b (image_mset (\<lambda>(b, q). (b, Search q)) (copies a p))"
    by (force simp: seeks_def)
qed

lemma front_start:
  assumes "untouched s r mid nodes" and "unat s < NODE_COUNT" and "s \<noteq> r"
  shows "front_ok s r mid (1, nodes, launched s p, {#})"
proof -
  have "sint (np_time_to_live (flood_copy s (first_packet p))) = TTL - int (Suc 0)" using first_packet_ttl [of s p] by simp
  note launched = copies_front [OF assms(2) walk.start assms(3) this, folded launched_def]
  have "distance s r 1 b \<Longrightarrow> near s b" for b by (auto simp: distance_def walk_Suc walk_0)
  moreover have "\<not> distance s r 0 b" for b by (simp add: distance_def)
  ultimately show ?thesis
    using assms(1) launched by (auto simp: front_ok_def untouched_def met_at_def less_Suc_eq)
qed

declare outgoing.simps [simp del]

lemma wave_replies: "wave s r k (outgoing (Reply q) nd)" "np_receiver_addr p = nd_addr nd \<Longrightarrow> wave s r k (outgoing (Search p) nd)"
  by (auto simp: wave_def relays_def outgoing.simps split: if_splits option.splits)

text \<open>Answers do not disturb the front.\<close>

lemma front_handle_reply:
  assumes inv: "talk_ok False s r x (nodes, now + later)" and front: "front_ok s r (ap_id x) (k, nodes, now, later)"
    and s: "s \<noteq> r" and q: "(a, Reply q) \<in># now" and run: "handle_flight os (Reply q) (nodes a) = Some (ok, nd')"
    and sent: "\<not> reply_fails os (Reply q) (nodes a)"
  shows "front_ok s r (ap_id x) (k, nodes(a := nd'), now - {#(a, Reply q)#}, later + outgoing (Reply q) (nodes a))"
proof -
  define ns where "ns = nodes(a := nd')"
  have qk: "packet_ok q" "np_receiver_addr q = r" "near (np_local_sender_addr q) a"
    using talk_okD(6) [OF inv, of a q] q by (simp_all add: reply_in_talk_def)
  note h = reply_handled [OF qk(1) run sent]
  have "routing_ok (nd_routing (nodes a))" using talk_okD(1) [OF inv] by (simp add: node_ok_def)
  then have "routing_map (nd_routing nd') s = routing_map (nd_routing (nodes a)) s"
    using h(1) learn_inverse_other [of "nd_routing (nodes a)" q s] near_hop [OF qk(3)] qk(2) s by simp
  then have same: "route ns b s = route nodes b s" "handled (ns b) mid = handled (nodes b) mid" for b mid
    using h(2) by (simp_all add: ns_def handled_def)
  show ?thesis
    using front wave_less [of s r k now] unfolding ns_def [symmetric] front_ok_def prod.case met_at_def same
    by (auto simp: wave_replies)
qed

text \<open>A packet that is not acted upon is one that arrives after the first.\<close>

lemma front_handle_late:
  assumes inv: "talk_ok False s r x (nodes, now + later)" and front: "front_ok s r (ap_id x) (k, nodes, now, later)"
    and s: "unat s < NODE_COUNT" "s \<noteq> r" and p: "(a, Search p) \<in># now" and late: "\<not> accepts (nodes a) p"
  shows "front_ok s r (ap_id x) (k, nodes, now - {#(a, Search p)#}, later + outgoing (Search p) (nodes a))"
proof -
  have pk: "valid_crc p" "np_app p = x" using talk_okD(7) [OF inv, of a p] p by (simp_all add: packet_in_search_def)
  have "sint (np_time_to_live p) = TTL - int k" using front p by (simp add: front_ok_def wave_def)
  then have "distance s r k a \<Longrightarrow> handled (nodes a) (ap_id x)"
    using distance_small [of s r k a] s late pk by (simp add: accepts_def TTL_eq)
  then have "distance s r k b \<Longrightarrow> handled (nodes b) (ap_id x) \<or> seeks b (now - {#(a, Search p)#})" for b
    using front by (cases "b = a") (auto simp: front_ok_def)
  moreover have "outgoing (Search p) (nodes a) = {#}" using late by (simp add: outgoing.simps relays_accepts)
  ultimately show ?thesis
    using front wave_less [of s r k now] by (auto simp: front_ok_def)
qed

text \<open>The first one to arrive comes in the round of the node's distance.\<close>

lemma front_handle_first:
  assumes inv: "talk_ok False s r x (nodes, now + later)" and front: "front_ok s r (ap_id x) (k, nodes, now, later)"
    and s: "unat s < NODE_COUNT" "s \<noteq> r" and p: "(a, Search p) \<in># now"
    and run: "handle_flight os (Search p) (nodes a) = Some (ok, nd')"
    and sent: "\<not> reply_fails os (Search p) (nodes a)" and acc: "accepts (nodes a) p"
  shows "front_ok s r (ap_id x) (k, nodes(a := nd'), now - {#(a, Search p)#}, later + outgoing (Search p) (nodes a))"
proof -
  define ns where "ns = nodes(a := nd')"
  let ?out = "outgoing (Search p) (nodes a)"
  have in_air: "(a, Search p) \<in># now + later" using p by simp
  have pk: "packet_ok p" "np_app p = x" "np_receiver_addr p = r" "nd_addr (nodes a) = a" "near (np_local_sender_addr p) a"
    using talk_okD(7) [OF inv in_air] talk_okD(2) [OF inv] by (simp_all add: packet_in_search_def)
  have w: "walk s r k a" "sint (np_time_to_live p) = TTL - int k" "0 < k" using front p by (simp_all add: front_ok_def wave_def)
  have fresh: "\<not> handled (nodes a) (ap_id x)" using acc pk(2) by (simp add: accepts_def)
  obtain m where m: "m \<le> k" "distance s r m a" using distance_exists [OF w(1,3)] by blast
  moreover have "m < k \<Longrightarrow> handled (nodes a) (ap_id x)" using front m(2) by (auto simp: front_ok_def)
  ultimately have "m = k" using fresh by (metis le_neq_implies_less)
  note dist = m(2) [unfolded this]
  note t = search_teaches [OF inv s(1) in_air run sent acc]
  have a: "route ns a s = Some (np_local_sender_addr p, packet_metric p)" "handled (ns a) (ap_id x)"
    "sint (packet_metric p) = int k + 1"
    using t(3,4,7) w(2) by (simp_all add: ns_def)
  have other: "b \<noteq> a \<Longrightarrow> route ns b s = route nodes b s" "b \<noteq> a \<Longrightarrow> handled (ns b) mid = handled (nodes b) mid" for b mid
    by (simp_all add: ns_def)
  have met: "met_at s r (ap_id x) k ns b" for b
  proof (cases "b = a")
    case True
    then show ?thesis unfolding met_at_def using a dist by (intro impI exI [of _ k]) simp
  next
    case False
    then show ?thesis using front other by (simp add: front_ok_def met_at_def)
  qed
  have out: "wave s r (Suc k) ?out \<and> (a \<noteq> r \<longrightarrow> (\<forall>b. near a b \<longrightarrow> seeks b ?out))"
  proof (cases "a = r")
    case True
    then show ?thesis using wave_replies(2) [of p "nodes a"] pk(3,4) by simp
  next
    case False
    then have "relays (nodes a) p" using acc pk(3,4) by (simp add: relays_accepts)
    then have eq: "?out = image_mset (\<lambda>(b, q). (b, Search q)) (copies a p)" using pk(4) by (simp add: outgoing.simps)
    have node: "unat a < NODE_COUNT" using pk(5) by (simp add: near_def)
    have "0 < sint (np_time_to_live p)" using acc by (simp add: accepts_def)
    then have "sint (np_time_to_live (flood_copy a p)) = TTL - int (Suc k)" using sint_minus_1 w(2) by simp
    then show ?thesis using copies_front [OF node w(1) False] by (simp add: eq)
  qed
  have "distance s r k b \<Longrightarrow> handled (ns b) (ap_id x) \<or> seeks b (now - {#(a, Search p)#})" for b
    using front a(2) other by (cases "b = a") (auto simp: front_ok_def)
  moreover have "distance s r n b \<Longrightarrow> n < k \<Longrightarrow> handled (ns b) (ap_id x)" for b n
    using front a(2) other by (cases "b = a") (auto simp: front_ok_def)
  moreover have "distance s r k c \<Longrightarrow> c \<noteq> r \<Longrightarrow> handled (ns c) (ap_id x) \<Longrightarrow> near c b \<Longrightarrow> seeks b (later + ?out)" for b c
    using front out other by (cases "c = a") (auto simp: front_ok_def)
  ultimately show ?thesis
    unfolding ns_def [symmetric] front_ok_def prod.case
    using front met out wave_less [of s r k now "{#(a, Search p)#}"] by (auto simp: front_ok_def)
qed

text \<open>When a round is over, all nodes at its distance have met the message and have passed it on.\<close>

lemma front_advance:
  assumes "front_ok s r mid (k, nodes, {#}, later)"
  shows "front_ok s r mid (Suc k, nodes, later, {#})"
proof -
  have front: "0 < k" "wave s r (Suc k) later" "\<And>b. met_at s r mid k nodes b"
    "\<And>b n. distance s r n b \<Longrightarrow> n < k \<Longrightarrow> handled (nodes b) mid" "\<And>b. distance s r k b \<Longrightarrow> handled (nodes b) mid"
    "\<And>a b. distance s r k a \<Longrightarrow> a \<noteq> r \<Longrightarrow> handled (nodes a) mid \<Longrightarrow> near a b \<Longrightarrow> seeks b later"
    using assms by (auto simp: front_ok_def)
  have met: "met_at s r mid (Suc k) nodes b" for b
    using front(3) [of b] by (auto simp: met_at_def intro: le_SucI)
  have before: "distance s r n b \<Longrightarrow> n < Suc k \<Longrightarrow> handled (nodes b) mid" for b n
    using front(4,5) less_Suc_eq by blast
  have "distance s r (Suc k) b \<Longrightarrow> seeks b later" for b
    using distance_previous [of s r k b] front(1,5,6) by blast
  moreover have "distance s r (Suc k) a \<Longrightarrow> \<not> handled (nodes a) mid" for a
    using front(3) [of a] distance_unique [of s r "Suc k" a] by (fastforce simp: met_at_def)
  ultimately show ?thesis using front(2) met before by (auto simp: front_ok_def)
qed

lemma front_step:
  assumes "round_step x y" and "front_ok s r (ap_id a) x" and "talk_ok False s r a (in_air x)" and "\<forall>b. node_fits (fst (in_air x) b)"
    and "unat s < NODE_COUNT" and "s \<noteq> r"
  shows "front_ok s r (ap_id a) y"
  using assms(1)
proof cases
  case (handle b fl now os nodes ok nd' k later)
  have inv: "talk_ok False s r a (nodes, now + later)" and front: "front_ok s r (ap_id a) (k, nodes, now, later)"
    and fits: "node_fits (nodes b)" and fl: "(b, fl) \<in># now + later"
    using assms(2-4) handle by simp_all
  note sent = flight_fits(2) [OF inv assms(5,6) fl handle(4) fits handle(5)]
  show ?thesis
  proof (cases fl)
    case (Reply q)
    show ?thesis
      unfolding handle(2) Reply by (rule front_handle_reply [OF inv front assms(6)]) (use handle sent in \<open>simp_all add: Reply\<close>)
  next
    case (Search p)
    note h = handle(3,5) [unfolded Search] and sent = sent [unfolded Search]
    show ?thesis
    proof (cases "accepts (nodes b) p")
      case True
      then show ?thesis unfolding handle(2) Search by (rule front_handle_first [OF inv front assms(5,6) h sent])
    next
      case False
      have "packet_ok p" using talk_okD(7) [OF inv, of b p] h(1) by (simp add: packet_in_search_def)
      then have "nd' = nodes b" using search_handled(1) [OF talk_okD(1) [OF inv] _ h(2) sent False] by simp
      then show ?thesis using front_handle_late [OF inv front assms(5,6) h(1) False] by (simp add: handle(2) Search)
    qed
  qed
next
  case (advance later k nodes)
  then show ?thesis using assms(2) front_advance by simp
qed

lemma round_reachable_ok:
  assumes "round_reachable p x" and "proper p"
  shows "talk_ok False (np_sender_addr p) (np_receiver_addr p) (np_app p) (in_air x)" and "\<forall>b. node_fits (fst (in_air x) b)"
    and "front_ok (np_sender_addr p) (np_receiver_addr p) (ap_id (np_app p)) x"
proof -
  have talk: "talk_ok False (np_sender_addr p) (np_receiver_addr p) (np_app p) (in_air x) \<and> (\<forall>b. node_fits (fst (in_air x) b))"
    if "round_reachable p x" for x
    using round_talk [OF that assms(2)] talk_reachable_ok [OF _ assms(2)] by blast
  then show "talk_ok False (np_sender_addr p) (np_receiver_addr p) (np_app p) (in_air x)" "\<forall>b. node_fits (fst (in_air x) b)"
    using assms(1) by blast+
  show "front_ok (np_sender_addr p) (np_receiver_addr p) (ap_id (np_app p)) x"
    using assms(1)
  proof (induction rule: round_reachable.induct)
    case (start nodes)
    then show ?case using front_start assms(2) by (simp add: proper_def)
  next
    case (step x y)
    then show ?case using front_step [OF step.hyps(2)] talk assms(2) by (simp add: proper_def)
  qed
qed

text \<open>When nothing is left to handle, every node has been reached.\<close>

lemma front_complete:
  assumes "front_ok s r mid (k, nodes, {#}, {#})" and "distance s r n b"
  shows "handled (nodes b) mid"
proof (rule ccontr)
  assume not: "\<not> handled (nodes b) mid"
  have front: "0 < k" "\<And>b n. distance s r n b \<Longrightarrow> n < k \<Longrightarrow> handled (nodes b) mid"
    "\<And>b. distance s r k b \<Longrightarrow> handled (nodes b) mid"
    "\<And>a b. distance s r k a \<Longrightarrow> a \<noteq> r \<Longrightarrow> handled (nodes a) mid \<Longrightarrow> \<not> near a b"
    using assms(1) by (auto simp: front_ok_def)
  have "\<not> distance s r (Suc k + j) c" for j c
  proof (induction j arbitrary: c)
    case 0
    then show ?case using distance_previous [of s r k c] front(1,3,4) by auto
  next
    case (Suc j)
    then show ?case using distance_previous [of s r "Suc k + j" c] by auto
  qed
  moreover have "\<not> n < k" "n \<noteq> k" using front(2,3) assms(2) not by auto
  then have "n = Suc k + (n - Suc k)" by simp
  ultimately show False using assms(2) by metis
qed

lemma rounds_reach:
  assumes "round_reachable p (k, nodes, {#}, {#})" and "proper p" and "unat b < NODE_COUNT"
  shows "handled (nodes b) (ap_id (np_app p))"
    and "\<exists>n h m. distance (np_sender_addr p) (np_receiver_addr p) n b \<and> n \<le> 8
       \<and> route nodes b (np_sender_addr p) = Some (h, m) \<and> sint m = int n + 1"
proof -
  note ok = round_reachable_ok [OF assms(1,2)]
  obtain n where n: "n \<le> 8" "distance (np_sender_addr p) (np_receiver_addr p) n b"
    using distance_bound [of "np_sender_addr p" b "np_receiver_addr p"] assms(2,3) by (auto simp: proper_def)
  show reached: "handled (nodes b) (ap_id (np_app p))" by (rule front_complete [OF ok(3) n(2)])
  from reached obtain n' h m where "distance (np_sender_addr p) (np_receiver_addr p) n' b"
    "route nodes b (np_sender_addr p) = Some (h, m)" "sint m = int n' + 1"
    using ok(3) by (auto simp: front_ok_def met_at_def)
  then show "\<exists>n h m. distance (np_sender_addr p) (np_receiver_addr p) n b \<and> n \<le> 8
       \<and> route nodes b (np_sender_addr p) = Some (h, m) \<and> sint m = int n + 1"
    using n distance_unique by metis
qed

subsection \<open>Every run in rounds succeeds\<close>

lemma rounds_go_on:
  assumes "round_reachable p (k, nodes, now, later)" and "proper p" and "unat (ap_message_len (np_app p)) \<le> 147"
    and "now \<noteq> {#} \<or> later \<noteq> {#}"
  shows "\<exists>y. round_step (k, nodes, now, later) y"
proof (cases "now = {#}")
  case True
  then show ?thesis using assms(4) round_step.advance by blast
next
  case False
  then obtain a fl where fl: "(a, fl) \<in># now" by (metis multiset_nonemptyE surj_pair)
  obtain os where os: "healthy os" using healthy_exists by blast
  note inv = round_reachable_ok(1) [OF assms(1,2), simplified]
  have "\<exists>ok nd'. handle_flight os fl (nodes a) = Some (ok, nd')"
  proof (cases fl)
    case (Search q)
    then have "packet_ok q" using flight_packet_ok(1) [OF inv, of a] fl by auto
    then show ?thesis using handlers_keep(5) [of q os "nodes a"] by (auto simp: handle_flight_def Search)
  next
    case (Reply q)
    then have "packet_ok q" "np_app q = np_app p"
      using talk_okD(6) [OF inv, of a q] fl by (auto simp: reply_in_talk_def)
    then show ?thesis using handlers_keep(6) [of q os "nodes a"] assms(3) by (auto simp: handle_flight_def Reply)
  qed
  then show ?thesis using round_step.handle [OF fl os] by blast
qed

lemma rounds_wf:
  assumes "proper p"
  shows "wf {(y, x). round_reachable p x \<and> round_step x y}"
proof (rule wf_subset)
  let ?f = "\<lambda>x :: rounds. (image_mset weight (snd (in_air x)), size (snd (snd (snd x))))"
  show "wf (inv_image (mult less_than <*lex*> less_than) ?f)"
    by (intro wf_inv_image wf_lex_prod wf_mult) simp_all
  have less: "(?f y, ?f x) \<in> mult less_than <*lex*> less_than" if "round_reachable p x" "round_step x y" for x y
    using that(2)
  proof cases
    case (advance later k nodes)
    then show ?thesis by (simp add: nonempty_has_size)
  next
    case (handle b fl now os nodes ok nd' k later)
    note ok = round_reachable_ok [OF that(1) assms]
    have "talk_step False (in_air x) (in_air y)"
      using round_talk_step [OF that(2) ok(1,2)] assms handle by (auto simp: proper_def)
    from talk_step_decreases [OF this ok(1)] show ?thesis by simp
  qed
  show "{(y, x). round_reachable p x \<and> round_step x y} \<subseteq> inv_image (mult less_than <*lex*> less_than) ?f"
  proof
    fix z
    assume "z \<in> {(y, x). round_reachable p x \<and> round_step x y}"
    then obtain y x where "z = (y, x)" "round_reachable p x" "round_step x y" by blast
    then show "z \<in> inv_image (mult less_than <*lex*> less_than) ?f" using less [of x y] by (simp only: in_inv_image)
  qed
qed

lemma rounds_finish:
  assumes "round_reachable p x" and "proper p"
  shows "\<exists>y. round_reachable p y \<and> (\<nexists>z. round_step y z)"
  using assms(1)
proof (induction x rule: wf_induct_rule [OF rounds_wf [OF assms(2)]])
  case (1 x)
  then show ?case using round_reachable.step by blast
qed

lemma rounds_succeed:
  assumes "round_reachable p x" and "\<nexists>y. round_step x y" and "proper p" and "unat (ap_message_len (np_app p)) \<le> 147"
  shows "\<exists>k nodes. x = (k, nodes, {#}, {#}) \<and> (\<forall>b. unat b < NODE_COUNT \<longrightarrow> handled (nodes b) (ap_id (np_app p)))
     \<and> (\<forall>b. unat b < NODE_COUNT \<longrightarrow> (\<exists>n h m. distance (np_sender_addr p) (np_receiver_addr p) n b \<and> n \<le> 8
          \<and> route nodes b (np_sender_addr p) = Some (h, m) \<and> sint m = int n + 1))
     \<and> (\<exists>n. leads_to nodes (np_receiver_addr p) (np_sender_addr p) n)"
proof -
  obtain k nodes now later where x: "x = (k, nodes, now, later)" by (metis surj_pair)
  have x: "x = (k, nodes, {#}, {#})"
    using rounds_go_on [OF assms(1) [unfolded x] assms(3,4)] assms(2) by (auto simp: x)
  note reach = rounds_reach [OF assms(1) [unfolded x] assms(3)]
  have "unat (np_receiver_addr p) < NODE_COUNT" using assms(3) by (simp add: proper_def)
  from answer_arrives [OF round_reachable_ok(1) [OF assms(1,3), unfolded x, simplified] reach(1) [OF this]]
  have "\<exists>n. leads_to nodes (np_receiver_addr p) (np_sender_addr p) n" by auto
  then show ?thesis using x reach by blast
qed

end
