(* ===== verification/Mesh_Data.thy ===== *)
theory Mesh_Data
  imports Mesh
begin

text \<open>
  Data packets on their way through the mesh: every node that is not the receiver hands the packet
  on to the next hop of its route.  Where following next hops leads to the receiver, the packet
  arrives there.
\<close>

text \<open>Forwarding sends the packet as it is to the next hop, and changes no table.\<close>

lemma forwards:
  assumes "packet_ok p" and "valid_crc p" and "np_receiver_addr p \<noteq> nd_addr nd"
    and "routing_map (nd_routing nd) (np_receiver_addr p) = Some (h, k)"
  shows "handle_node_send os p nd = Some (True, nd\<lparr>nd_net :=
     snd (send_message os (node_port h) (os_transmitted os REQUEST_SEND (Packet p)) (nd_net nd))\<rparr>)"
  using assms by (simp add: handle_node_send_eq forward_def transmit_def split: prod.split)

text \<open>
  One hop: the packet is at \<open>a\<close>, whose handler sends it to \<open>b\<close>, and the connection does not lose it.
\<close>

inductive data_hop :: "node_packet \<Rightarrow> (u8 \<Rightarrow> node) \<times> u8 \<Rightarrow> (u8 \<Rightarrow> node) \<times> u8 \<Rightarrow> bool" for p where
  hop: "np_receiver_addr p \<noteq> nd_addr (nodes a) \<Longrightarrow> handle_node_send os p (nodes a) = Some (ok, nd') \<Longrightarrow>
    routing_map (nd_routing (nodes a)) (np_receiver_addr p) = Some (b, k) \<Longrightarrow>
    data_hop p (nodes, a) (nodes(a := nd'), b)"

inductive_cases data_hopE: "data_hop p (nodes, a) x"

lemma leads_to_same:
  "leads_to nodes s a n \<Longrightarrow> (\<And>c. nd_routing (nodes' c) = nd_routing (nodes c)) \<Longrightarrow> leads_to nodes' s a n"
  by (induction rule: leads_to.induct) (auto intro: leads_to.intros)

lemma data_hop_closer:
  assumes "data_hop p (nodes, a) (nodes', b)" and "packet_ok p" and "valid_crc p" and "\<And>c. nd_addr (nodes c) = c"
    and "leads_to nodes (np_receiver_addr p) a n"
  shows "\<exists>m. n = Suc m \<and> leads_to nodes' (np_receiver_addr p) b m \<and> (\<forall>c. nd_addr (nodes' c) = c)"
  using assms(1)
proof cases
  case (hop os ok nd' k)
  have nd': "nd_routing nd' = nd_routing (nodes a)" "nd_addr nd' = nd_addr (nodes a)"
    using forwards [OF assms(2,3) hop(2,4), of os] hop(3) by auto
  obtain m where m: "n = Suc m" "leads_to nodes (np_receiver_addr p) b m"
    using assms(5)
  proof cases
    case here
    then show ?thesis using hop(2) assms(4) [of a] by simp
  next
    case (hop h k m)
    then show ?thesis using \<open>routing_map (nd_routing (nodes a)) (np_receiver_addr p) = Some (b, _)\<close> that by simp
  qed
  have "leads_to nodes' (np_receiver_addr p) b m"
    by (rule leads_to_same [OF m(2)]) (simp add: hop(1) nd')
  then show ?thesis using m(1) nd'(2) assms(4) by (auto simp: hop(1))
qed

lemma data_hops_closer:
  assumes "(data_hop p ^^ i) (nodes, a) (nodes', b)" and "packet_ok p" and "valid_crc p" and "\<And>c. nd_addr (nodes c) = c"
    and "leads_to nodes (np_receiver_addr p) a n"
  shows "i \<le> n \<and> leads_to nodes' (np_receiver_addr p) b (n - i) \<and> (\<forall>c. nd_addr (nodes' c) = c)"
  using assms(1)
proof (induction i arbitrary: nodes' b)
  case 0
  then show ?case using assms(4,5) by simp
next
  case (Suc i)
  then obtain ns c where c: "(data_hop p ^^ i) (nodes, a) (ns, c)" "data_hop p (ns, c) (nodes', b)" by auto
  note ih = Suc.IH [OF c(1)]
  obtain m where "n - i = Suc m" "leads_to nodes' (np_receiver_addr p) b m" "\<forall>c. nd_addr (nodes' c) = c"
    using data_hop_closer [OF c(2) assms(2,3)] ih by blast
  moreover from this have "m = n - Suc i" "Suc i \<le> n" by simp_all
  ultimately show ?case by simp
qed

text \<open>So the packet cannot stop before it is at the receiver, which hands it to its application.\<close>

lemma data_arrives:
  assumes "(data_hop p ^^ i) (nodes, a) (nodes', b)" and "\<nexists>x. data_hop p (nodes', b) x"
    and "packet_ok p" and "valid_crc p" and "\<And>c. nd_addr (nodes c) = c" and "leads_to nodes (np_receiver_addr p) a n"
  shows "i \<le> n" and "b = np_receiver_addr p" and "handle_node_send os p (nodes' b) = Some (deliver_local os p (nodes' b))"
proof -
  have run: "i \<le> n" "leads_to nodes' (np_receiver_addr p) b (n - i)" "\<And>c. nd_addr (nodes' c) = c"
    using data_hops_closer [OF assms(1,3-6)] by blast+
  then show "i \<le> n" by simp
  show b: "b = np_receiver_addr p"
    using run(2)
  proof cases
    case (hop h k m)
    show ?thesis
    proof (rule ccontr)
      assume "b \<noteq> np_receiver_addr p"
      then have "np_receiver_addr p \<noteq> nd_addr (nodes' b)" using run(3) by simp
      from data_hop.hop [where nodes = nodes' and a = b, OF this forwards [OF assms(3,4) this hop(2), of undefined] hop(2)]
      show False using assms(2) by blast
    qed
  qed simp
  show "handle_node_send os p (nodes' b) = Some (deliver_local os p (nodes' b))"
    using run(3) [of b] b assms(4) by (simp add: handle_node_send_eq [OF assms(3)])
qed

text \<open>A packet always stops somewhere.\<close>

lemma data_finishes:
  assumes "packet_ok p" and "valid_crc p"
  shows "(\<And>c. nd_addr (nodes c) = c) \<Longrightarrow> leads_to nodes (np_receiver_addr p) a n \<Longrightarrow>
     \<exists>i nodes' b. (data_hop p ^^ i) (nodes, a) (nodes', b) \<and> (\<nexists>x. data_hop p (nodes', b) x)"
proof (induction n arbitrary: nodes a rule: less_induct)
  case (less n)
  show ?case
  proof (cases "\<exists>x. data_hop p (nodes, a) x")
    case False
    then have "(data_hop p ^^ 0) (nodes, a) (nodes, a)" by simp
    then show ?thesis using False by blast
  next
    case True
    then obtain ns b where hop: "data_hop p (nodes, a) (ns, b)" by auto
    then obtain m where m: "n = Suc m" "leads_to ns (np_receiver_addr p) b m" "\<forall>c. nd_addr (ns c) = c"
      using data_hop_closer [OF hop assms less.prems] by blast
    then obtain i nodes' c where i: "(data_hop p ^^ i) (ns, b) (nodes', c)" "\<nexists>x. data_hop p (nodes', c) x"
      using less.IH [of m ns b] by auto
    have "(data_hop p ^^ Suc i) (nodes, a) (nodes', c)" using hop i(1) by (rule relpowp_Suc_I2)
    then show ?thesis using i(2) by blast
  qed
qed

end
