(* ===== verification/Mesh_Scenarios.thy ===== *)
theory Mesh_Scenarios
  imports Mesh_Rounds Mesh_Data Scenarios
begin

text \<open>A mesh of idle nodes in which a search can start.\<close>

lemma demo_unanswered: "unanswered 7 (demo_node a)"
proof -
  let ?s = "set_was_message_by_id (snd (get_was_message_by_id initial_messages 7)) 7 True"
  have "\<not> is_id_set initial_messages 7" by (simp add: initial_messages_def is_id_set_def visible_def)
  then have once: "snd (was_message.once initial_messages 7) = ?s"
    by (simp add: was_message.once_eq [OF messages_ok_initial])
  moreover have "messages_ok ?s"
    using was_message.once_invar [OF messages_ok_initial, of 7] once by simp
  moreover have "\<not> flag_of md_stop_inverse ?s 7" by code_simp
  ultimately have "fst (inverse.once (snd (was_message.once initial_messages 7)) 7)"
    by (simp add: inverse.once_eq)
  then show ?thesis by (simp add: unanswered_def demo_node_def static_node_def)
qed

lemma demo_untouched: "untouched 11 22 7 demo_node" "node_fits (demo_node a)"
proof -
  show "untouched 11 22 7 demo_node"
    by (simp add: untouched_def demo_node_ok demo_no_route demo_fresh demo_unanswered)
  have "net_ok (nd_net (demo_node a))" "\<not> net_init (nd_net (demo_node a))"
    by (simp_all add: demo_node_def static_node_def initial_net_def net_ok_def)
  then show "node_fits (demo_node a)" by (rule fresh_node_fits)
qed

lemma demo_proper: "proper (demo_packet t)" "ap_id demo_app = 7" "ap_message_len demo_app = 1"
  by (simp_all add: proper_def demo_packet_ok settings) (simp_all add: demo_app_def)

lemma demo_rounds: "\<exists>x. round_reachable (demo_packet 0) x \<and> (\<nexists>y. round_step x y)"
proof -
  have "round_reachable (demo_packet 0) (1, demo_node, launched 11 (demo_packet 0), {#})"
    using round_reachable.start [of "demo_packet 0" demo_node] demo_untouched by (simp add: demo_packet_ok demo_proper)
  then show ?thesis using rounds_finish demo_proper(1) by blast
qed

lemma demo_fits: "unat (ap_message_len (np_app (demo_packet 0))) \<le> 147"
  by (simp add: demo_packet_ok demo_proper)

lemma demo_search:
  obtains k nodes where "round_reachable (demo_packet 0) (k, nodes, {#}, {#})" and "\<nexists>y. round_step (k, nodes, {#}, {#}) y"
    and "handled (nodes 22) 7" and "\<exists>n. leads_to nodes 22 11 n"
proof -
  obtain x where x: "round_reachable (demo_packet 0) x" "\<nexists>y. round_step x y" using demo_rounds by blast
  from rounds_succeed [OF x demo_proper(1) demo_fits] obtain k nodes where fin: "x = (k, nodes, {#}, {#})"
    "\<forall>b. unat b < NODE_COUNT \<longrightarrow> handled (nodes b) 7" "\<exists>n. leads_to nodes 22 11 n"
    by (simp only: demo_packet_ok demo_proper) blast
  have "unat (22 :: u8) < NODE_COUNT" by (simp add: settings)
  then show ?thesis using that x fin by blast
qed

text \<open>A unicast for node 22 whose message does not unpack to what its checksum says.\<close>

definition demo_broken_unicast :: node_packet where
  "demo_broken_unicast = seal ((demo_packet 0)\<lparr>np_app := demo_app\<lparr>ap_req_type := app_request_code APP_REQUEST_UNICAST\<rparr>\<rparr>)"

lemma demo_broken_unicast: "packet_ok demo_broken_unicast" "valid_crc demo_broken_unicast" "np_receiver_addr demo_broken_unicast = 22"
  "ap_req_type (np_app demo_broken_unicast) = app_request_code APP_REQUEST_UNICAST"
  "\<not> app_handles (demo_os [] 0) apps (np_app demo_broken_unicast)" "ap_id (np_app demo_broken_unicast) = 7"
proof -
  let ?a = "demo_app\<lparr>ap_req_type := app_request_code APP_REQUEST_UNICAST\<rparr>"
  have "app_ok ?a" using demo_app_ok by (simp add: app_ok_def)
  then have ok: "packet_ok ((demo_packet 0)\<lparr>np_app := ?a\<rparr>)" using demo_packet_ok(1) [of 0] by simp
  have "\<not> app_handles (demo_os [] 0) apps ?a" by code_simp
  then show "packet_ok demo_broken_unicast" "valid_crc demo_broken_unicast" "np_receiver_addr demo_broken_unicast = 22"
    "ap_req_type (np_app demo_broken_unicast) = app_request_code APP_REQUEST_UNICAST"
    "\<not> app_handles (demo_os [] 0) apps (np_app demo_broken_unicast)" "ap_id (np_app demo_broken_unicast) = 7"
    using ok seal_valid [OF ok] by (simp_all add: demo_broken_unicast_def demo_packet_ok demo_proper)
qed

end
