(* ===== verification/Mesh_Properties.thy ===== *)
theory Mesh_Properties
  imports Mesh_Scenarios
begin

text \<open>
  The properties of the mesh during the search for a route and the answer to it: both end, the routes
  they leave behind lead to the two ends without loops, the search reaches everybody and the answer
  gets home, data then arrives; and what goes wrong when a node on the way starts over.
\<close>

section \<open>A search that nothing disturbs\<close>





section \<open>Any order, any losses\<close>


text \<open>
  C2: Routes lead home without loops.  In a mesh where no node knew a route to \<open>s\<close>, at every moment
  of a search that \<open>s\<close> starts, in any interleaving and with any losses, a node that has a route to
  \<open>s\<close> reaches it by following next hops from neighbour to neighbour, in fewer hops than the metric
  of its entry.
\<close>

theorem routes_lead_to_origin:
  assumes "search_reachable s p (nodes, air)" and "unat s < NODE_COUNT" and "packet_ok p" and "np_sender_addr p = s"
    and "routing_map (nd_routing (nodes a)) s = Some (h, k)"
  shows "\<exists>n. leads_to nodes s a n \<and> int n < sint k"
  by (rule search_ok_leads [OF search_reachable_ok [OF assms(1-4)] assms(5)])

theorem routes_lead_to_origin_witness:
  "\<exists>nodes air h k n. search_reachable 11 (demo_packet 0) (nodes, air)
     \<and> routing_map (nd_routing (nodes 12)) 11 = Some (h, k) \<and> leads_to nodes 11 12 n \<and> int n < sint k"
proof -
  let ?p = "first_packet (demo_packet 0)" and ?os = "demo_os [] 0"
  let ?q = "flood_copy 11 ?p"
  have start: "search_reachable 11 (demo_packet 0) (demo_node, copies 11 ?p)"
    by (rule search_reachable.start) (simp_all add: demo_node_ok demo_no_route)
  have "near 11 12" by (simp add: near_def near_offset_def row_of_def col_of_def settings)
  then have "12 \<in> set (neighbor_addrs 11)" using neighbor_addrs(1) [of 11] by (simp add: settings)
  then have air: "(12, ?q) \<in># copies 11 ?p" by (auto simp: copies_def)
  have ok: "packet_ok ?p" by (simp add: first_packet_def demo_packet_ok)
  then have q: "packet_ok ?q" "valid_crc ?q" "np_local_sender_addr ?q \<noteq> UINT8_MAX"
    by (simp_all add: flood_copy_valid settings)
  have ttl: "sint (np_time_to_live ?q) = 19" using first_packet_ttl [of 11 "demo_packet 0"] by (simp add: TTL_eq)
  have ends: "np_sender_addr ?q = 11" "np_receiver_addr ?q = 22" by (simp_all add: first_packet_def demo_packet_ok)
  have rel: "relays (demo_node 12) ?q"
    using q ttl ends by (simp add: relays_def demo_fresh demo_node_ok)
  obtain r nd' where run: "handle_node_route_direct ?os ?q (demo_node 12) = Some (r, nd')"
    using handlers_keep(5) [OF q(1)] by blast
  have "\<exists>h k. routing_map (nd_routing nd') 11 = Some (h, k)"
    using handle_search_packet(3) [OF demo_node_ok(1) q(1,3) run rel] ttl ends by (auto simp: settings)
  then obtain h k where route: "routing_map (nd_routing ((demo_node(12 := nd')) 12)) 11 = Some (h, k)" by auto
  have after: "search_reachable 11 (demo_packet 0) (demo_node(12 := nd'), copies 11 ?p - {#(12, ?q)#} + {#})"
    by (rule search_reachable.step [OF start mesh_step.receive [where nodes = demo_node, OF air run]]) simp
  have "unat (11 :: u8) < NODE_COUNT" by (simp add: settings)
  from routes_lead_to_origin [where nodes = "demo_node(12 := nd')", OF after this demo_packet_ok(1,3) route]
  show ?thesis using after route by blast
qed



text \<open>
  C6: The answer gets home in any order of events: if nothing is lost, then, once the receiver has met
  the message and no answer is in the air any more, next hops lead from the origin to the receiver.
\<close>

theorem answer_gets_home:
  assumes "talk_reachable False p (nodes, air)" and "proper p" and "handled (nodes (np_receiver_addr p)) (ap_id (np_app p))"
    and "\<forall>b q. (b, Reply q) \<notin># air"
  shows "\<exists>n. leads_to nodes (np_receiver_addr p) (np_sender_addr p) n"
  using answer_arrives [OF talk_reachable_ok [OF assms(1,2)] assms(3,4)] by blast

theorem answer_gets_home_witness:
  "\<exists>nodes n. talk_reachable False (demo_packet 0) (nodes, {#}) \<and> leads_to nodes 22 11 n"
proof -
  obtain k nodes where x: "round_reachable (demo_packet 0) (k, nodes, {#}, {#})" and fin: "handled (nodes 22) 7"
    by (rule demo_search)
  have talk: "talk_reachable False (demo_packet 0) (nodes, {#})"
    using round_talk [OF x demo_proper(1)] by simp
  then show ?thesis
    using answer_gets_home [OF talk demo_proper(1)] fin by (auto simp: demo_packet_ok demo_proper)
qed

text \<open>
  C7: Searches and answers together come to an end: no run from the start of a search is infinite,
  although the handler of answers never tests the time to live of a packet.
\<close>

theorem talk_ends:
  assumes "proper p"
  shows "wf {(y, x). talk_reachable lossy p x \<and> talk_step lossy x y}"
  by (rule talk_wf [OF assms])

theorem talk_ends_witness:
  "wf {(y, x). talk_reachable True (demo_packet 0) x \<and> talk_step True x y}"
  by (rule talk_ends [OF demo_proper(1)])

text \<open>
  C29: The 29 slots of the connection table suffice: while the kernel is healthy, a node that has only
  connected to its neighbours and the server sends every message to one of them in full, and still
  has room for the rest.
\<close>

theorem slots_suffice:
  assumes "healthy os" and "node_fits nd" and "near (nd_addr nd) b" and "port \<in> {SERVER_PORT, node_port b}"
    and "payload_ok pl" and "wire_len pl \<le> cap"
  shows "\<exists>n. node_essentials_get_conn_and_send os port (created os cap req pl) (of_nat (wire_len pl)) (nd_net nd) = Some (True, n)
     \<and> node_fits (nd\<lparr>nd_net := n\<rparr>)"
proof -
  have "port \<in> links (nd_addr nd)" using assms(3,4) by (auto simp: links_def)
  note sends = link_sends [OF assms(1) _ this os_transmitted_length [OF assms(5), of os req], of "nd_net nd"]
  show ?thesis
    using created_send_eq [OF assms(5,6), of os port req "nd_net nd"] sends assms(2)
    by (simp add: created_def Let_def node_fits_def prod_eq_iff)
qed

theorem slots_suffice_witness:
  "\<exists>n. node_essentials_get_conn_and_send (demo_os [] 0) SERVER_PORT
      (created (demo_os [] 0) 6 REQUEST_NOTIFY (Notify \<lparr>nt_type = 0, nt_app_msg_id = 7\<rparr>)) 6 (nd_net (demo_node 11)) = Some (True, n)"
proof -
  let ?pl = "Notify \<lparr>nt_type = 0, nt_app_msg_id = 7\<rparr>"
  have pl: "payload_ok ?pl" "wire_len ?pl = 6" by (simp_all add: wire_len.simps)
  have os: "healthy (demo_os [] 0)" by (simp add: healthy_def demo_os_def)
  have "near (nd_addr (demo_node 11)) 12" by (simp add: demo_node_ok near_def near_offset_def row_of_def col_of_def settings)
  from slots_suffice [OF os demo_untouched(2) this, of SERVER_PORT ?pl 6 REQUEST_NOTIFY] pl show ?thesis by auto
qed

section \<open>A search from the middle of a route\<close>

text \<open>
  C36: A node on the way that has lost its routes sends traffic in circles.  It searches again for
  the receiver with a full time to live but under the name of the original sender, so that a
  neighbour takes it for a better way to that sender (metric 2, whatever the distance) and it takes
  the neighbour for its own: each is then the other's next hop to the sender.
\<close>

theorem lost_route_loops:
  assumes "node_ok nb" and "node_ok nc" and "packet_ok p" and "valid_crc p" and "unat (np_sender_addr p) < NODE_COUNT"
    and "nd_addr nb \<noteq> UINT8_MAX" and "nd_addr nc \<noteq> UINT8_MAX"
    and "np_receiver_addr p \<notin> {nd_addr nb, nd_addr nc}"
    and "\<not> handled nb (ap_id (np_app p))" and "\<not> handled nc (ap_id (np_app p))"
    and "routing_map (nd_routing nc) (np_receiver_addr p) = None" and "routing_map (nd_routing nc) (np_sender_addr p) = None"
    and "\<forall>h k. routing_map (nd_routing nb) (np_sender_addr p) = Some (h, k) \<longrightarrow> 2 < sint k"
    and "q = flood_copy (nd_addr nc) (first_packet p)"
  shows "\<exists>x nc1 y nb1 z nc2. handle_node_send oc p nc = Some (x, nc1)
     \<and> handle_node_route_direct ob q nb = Some (y, nb1) \<and> relays nb q
     \<and> handle_node_route_direct oc' (flood_copy (nd_addr nb) q) nc1 = Some (z, nc2)
     \<and> routing_map (nd_routing nb1) (np_sender_addr p) = Some (nd_addr nc, 2)
     \<and> routing_map (nd_routing nc2) (np_sender_addr p) = Some (nd_addr nb, 3)"
  unfolding assms(14) by (rule route_loop [OF assms(1-13)])

theorem lost_route_loops_witness:
  "\<exists>x nc1 y nb1 z nc2. handle_node_send (demo_os [] 0) (demo_packet 0) (demo_node 55) = Some (x, nc1)
     \<and> handle_node_route_direct (demo_os [] 0) (flood_copy 55 (first_packet (demo_packet 0))) (demo_node 56) = Some (y, nb1)
     \<and> handle_node_route_direct (demo_os [] 0) (flood_copy 56 (flood_copy 55 (first_packet (demo_packet 0)))) nc1 = Some (z, nc2)
     \<and> routing_map (nd_routing nb1) 11 = Some (55, 2) \<and> routing_map (nd_routing nc2) 11 = Some (56, 3)"
  using lost_route_loops [OF demo_node_ok(1) demo_node_ok(1) demo_packet_ok(1,2), of 0 56 55 _ "demo_os [] 0" "demo_os [] 0" "demo_os [] 0"]
  by (simp add: demo_packet_ok demo_node_ok demo_fresh demo_no_route settings) blast

end
