(* ===== verification/Mesh_Local.thy ===== *)
theory Mesh_Local
  imports Pool
begin

text \<open>
  Unicasts and broadcasts, which stay in the neighbourhood of the node they start at.  A broadcast is
  a data packet for every neighbour.  For a unicast the node offers the message to all neighbours,
  each of them claims it, and the first to do so is sent the data.  As in \<open>Mesh\<close>, messages in the
  air are values with their destination.
\<close>

subsection \<open>What a node does with either message\<close>

datatype local_msg = Offer unicast_contest | Claim unicast_contest | Data node_packet

definition handle_local :: "os \<Rightarrow> local_msg \<Rightarrow> node \<Rightarrow> node option" where
  "handle_local os m nd = (case m of
      Offer u \<Rightarrow> handle_unicast_contest os u nd
    | Claim u \<Rightarrow> handle_unicast_first os u nd
    | Data p \<Rightarrow> map_option snd (handle_node_send os p nd))"

text \<open>The message a handler sends to another node in turn; data has arrived.\<close>

fun answers :: "local_msg \<Rightarrow> node \<Rightarrow> (u8 \<times> local_msg) multiset" where
  "answers (Offer u) nd = {#(uc_node_addr u, Claim (u\<lparr>uc_node_addr := nd_addr nd\<rparr>))#}"
| "answers (Claim u) nd = (if is_id_set (nd_messages nd) (ap_id (uc_app u)) then {#}
     else {#(uc_node_addr u, Data (unicast_packet (nd_addr nd) u))#})"
| "answers (Data p) nd = {#}"

primrec message_of :: "os \<Rightarrow> local_msg \<Rightarrow> u8 list" where
  "message_of os (Offer u) = os_transmitted os REQUEST_UNICAST_CONTEST (Unicast u)"
| "message_of os (Claim u) = os_transmitted os REQUEST_UNICAST_FIRST (Unicast u)"
| "message_of os (Data p) = os_transmitted os REQUEST_SEND (Packet p)"

primrec local_ok :: "local_msg \<Rightarrow> bool" where
  "local_ok (Offer u) = unicast_ok u"
| "local_ok (Claim u) = unicast_ok u"
| "local_ok (Data p) = packet_ok p"

lemma unicast_packet_simps [simp]: "packet_ok (unicast_packet a u) = unicast_ok u"
  "np_receiver_addr (unicast_packet a u) = uc_node_addr u" "np_app (unicast_packet a u) = uc_app u"
  by (simp_all add: unicast_packet_def packet_ok_def unicast_ok_def)

lemma unicast_packet_valid: "unicast_ok u \<Longrightarrow> valid_crc (unicast_packet a u)"
  by (simp add: unicast_packet_def seal_valid packet_ok_def unicast_ok_def)

lemma claim_status:
  assumes "node_ok nd"
  shows "fst (get_unicast_status_by_id (nd_messages nd) mid)
    = (if is_id_set (nd_messages nd) mid then Some (flag_of md_unicast_first (nd_messages nd) mid) else None)"
  using unicast_first.get_cases(2) [of "nd_messages nd"] assms by (simp add: node_ok_def)

text \<open>The handlers keep the invariant and send what \<open>answers\<close> says.\<close>

lemma local_keeps:
  assumes "local_ok m"
  shows "\<exists>nd'. handle_local os m nd = Some nd' \<and> keeps nd nd'"
  using assms handlers_keep(4) [of _ os nd] unicast_handlers_keep [of _ os nd]
  by (cases m) (fastforce simp: handle_local_def)+

lemma claim_handled:
  assumes "node_ok nd" and "unicast_ok u" and "handle_local os (Claim u) nd = Some nd'"
  shows "contest_won nd' (ap_id (uc_app u))"
  using unicast_first_won [of nd u os nd'] assms by (simp add: handle_local_def node_ok_def)

lemma claim_ignored:
  assumes "node_ok nd" and "unicast_ok u" and "handle_local os (Claim u) nd = Some nd'" and "contest_won nd (ap_id (uc_app u))"
  shows "nd' = nd"
  using unicast_first_ignored [of nd u os] assms by (simp add: handle_local_def node_ok_def)

lemma local_sends:
  assumes "node_ok nd" and "local_ok m" and "handle_local os m nd = Some nd'" and "answers m nd = {#(h, g)#}"
  shows "local_ok g" and "nd_net nd' = snd (send_message os (node_port h) (message_of os g) (nd_net nd))"
proof -
  show "local_ok g" using assms(2,4) by (cases m) (auto simp: unicast_ok_def split: if_splits)
  show "nd_net nd' = snd (send_message os (node_port h) (message_of os g) (nd_net nd))"
  proof (cases m)
    case (Claim u)
    then have "fst (get_unicast_status_by_id (nd_messages nd) (ap_id (uc_app u))) = None"
      using assms(4) claim_status [OF assms(1)] by (simp split: if_splits)
    then show ?thesis
      using assms(2-4) by (auto simp: Claim handle_local_def handle_unicast_first_eq Let_def case_prod_beta transmit_def split: if_splits)
  qed (use assms(2-4) in \<open>auto simp: handle_local_def handle_unicast_contest_eq transmit_def case_prod_beta\<close>)
qed

text \<open>With a healthy kernel nothing of this is lost for want of a connection.\<close>

lemma message_of_length: "local_ok m \<Longrightarrow> length (message_of os m) < 256"
  by (cases m) (simp_all add: os_transmitted_length)

lemma local_sent:
  assumes "healthy os" and "node_fits nd" and "near (nd_addr nd) h"
    and "node_ok nd" and "local_ok m" and "handle_local os m nd = Some nd'" and "answers m nd = {#(h, g)#}"
  shows "fst (send_message os (node_port h) (message_of os g) (nd_net nd))" and "node_fits nd'"
proof -
  note sends = local_sends [OF assms(4-7)]
  have port: "node_port h \<in> links (nd_addr nd)" using assms(3) by (auto simp: links_def)
  note link = link_sends [OF assms(1) assms(2) [unfolded node_fits_def] port message_of_length [OF sends(1)]]
  show "fst (send_message os (node_port h) (message_of os g) (nd_net nd))" by (rule link(1))
  have "nd_addr nd' = nd_addr nd" using local_keeps [OF assms(5), of os nd] assms(6) by (auto simp: keeps_def)
  then show "node_fits nd'" using link(2) [of os] sends(2) by (simp add: node_fits_def)
qed

subsection \<open>Steps\<close>

text \<open>
  The nodes, the messages in the air, and what was delivered to the applications of which node, the
  latest first.  In a \<open>lossy\<close> mesh a message may be lost at any time; in one that is not, the kernels
  are healthy.
\<close>

type_synonym local_mesh = "(u8 \<Rightarrow> node) \<times> (u8 \<times> local_msg) multiset \<times> (u8 \<times> app_payload) list"

primrec is_data :: "local_msg \<Rightarrow> bool" where
  "is_data (Offer u) = False"
| "is_data (Claim u) = False"
| "is_data (Data p) = True"

fun delivers_to :: "local_msg \<Rightarrow> node \<Rightarrow> (u8 \<times> app_payload) list" where
  "delivers_to (Data p) nd = (if valid_crc p \<and> np_receiver_addr p = nd_addr nd then [(nd_addr nd, np_app p)] else [])"
| "delivers_to m nd = []"

lemma delivers_to_Some: "packet_ok p \<Longrightarrow> delivers_to (Data p) nd \<noteq> [] \<Longrightarrow> handle_local os (Data p) nd = Some (snd (deliver_local os p nd))"
  by (simp add: handle_local_def handle_node_send_eq split: if_splits)

inductive local_step :: "bool \<Rightarrow> local_mesh \<Rightarrow> local_mesh \<Rightarrow> bool" for lossy where
  handle: "(a, m) \<in># air \<Longrightarrow> handle_local os m (nodes a) = Some nd' \<Longrightarrow> new \<subseteq># answers m (nodes a) \<Longrightarrow>
    lossy \<or> healthy os \<and> new = answers m (nodes a) \<Longrightarrow>
    local_step lossy (nodes, air, got) (nodes(a := nd'), air - {#(a, m)#} + new, delivers_to m (nodes a) @ got)"
| lose: "lossy \<Longrightarrow> (a, m) \<in># air \<Longrightarrow> local_step lossy (nodes, air, got) (nodes, air - {#(a, m)#}, got)"

inductive_cases local_stepE: "local_step lossy x y"

text \<open>Every message is followed by one that comes later in the exchange, so that every run ends.\<close>

primrec to_come :: "local_msg \<Rightarrow> nat" where
  "to_come (Offer u) = 2"
| "to_come (Claim u) = 1"
| "to_come (Data p) = 0"

lemma answers_later: "(h, g) \<in># answers m nd \<Longrightarrow> to_come g < to_come m"
  by (cases m) (auto split: if_splits)

lemma local_step_decreases:
  assumes "local_step lossy x y"
  shows "(image_mset (to_come \<circ> snd) (fst (snd y)), image_mset (to_come \<circ> snd) (fst (snd x))) \<in> mult less_than"
  using assms
proof cases
  case (handle a m air os nodes nd' new got)
  have "(to_come \<circ> snd) y < (to_come \<circ> snd) (a, m)" if "y \<in># new" for y
    using answers_later [of "fst y" "snd y"] mset_subset_eqD [OF handle(5) that] by simp
  from replace_lighter [where f = "to_come \<circ> snd", OF handle(3) this] show ?thesis by (simp add: handle(1,2))
qed (simp add: remove_lighter)

lemma local_wf: "wf {(y, x). local_step lossy x y}"
proof (rule wf_subset)
  show "wf (inv_image (mult less_than) (\<lambda>x :: local_mesh. image_mset (to_come \<circ> snd) (fst (snd x))))"
    by (intro wf_inv_image wf_mult) simp
qed (auto simp: inv_image_def dest!: local_step_decreases)

subsection \<open>A unicast\<close>

text \<open>
  It starts when the server hands the message to \<open>s\<close>, which has not met its id: \<open>s\<close> offers the message,
  as the application packs it, to its neighbours.
\<close>

definition offer_of :: "os \<Rightarrow> u8 \<Rightarrow> node_packet \<Rightarrow> unicast_contest" where
  "offer_of os s p = \<lparr>uc_req = request_code REQUEST_UNICAST_CONTEST, uc_node_addr = s, uc_app = delivery os (np_app p)\<rparr>"

definition offers :: "os \<Rightarrow> u8 \<Rightarrow> node_packet \<Rightarrow> (u8 \<times> local_msg) multiset" where
  "offers os s p = image_mset (\<lambda>b. (b, Offer (offer_of os s p))) (mset (neighbor_addrs s))"

inductive unicast_reachable :: "bool \<Rightarrow> os \<Rightarrow> u8 \<Rightarrow> node_packet \<Rightarrow> local_mesh \<Rightarrow> bool" for lossy os s p where
  start: "\<forall>a. node_ok (nodes a) \<and> nd_addr (nodes a) = a \<Longrightarrow> \<not> is_id_set (nd_messages (nodes s)) (ap_id (np_app p)) \<Longrightarrow>
    handle_server_unicast os p (nodes s) = Some nd' \<Longrightarrow> air \<subseteq># offers os s p \<Longrightarrow> lossy \<or> healthy os \<and> air = offers os s p \<Longrightarrow>
    unicast_reachable lossy os s p (nodes(s := nd'), air, [])"
| step: "unicast_reachable lossy os s p x \<Longrightarrow> local_step lossy x y \<Longrightarrow> unicast_reachable lossy os s p y"

text \<open>The handler does send these offers.\<close>

lemma unicast_offers:
  assumes "node_ok nd" and "packet_ok p" and "unat (nd_addr nd) < NODE_COUNT"
  shows "handle_server_unicast os p nd = Some (nd\<lparr>nd_net := flood os (map node_port (neighbor_addrs (nd_addr nd)))
     (message_of os (Offer (offer_of os (nd_addr nd) p))) (nd_net nd)\<rparr>)"
proof -
  have "neighbor_ports (nd_neighbors nd) = map node_port (neighbor_addrs (nd_addr nd))"
    using fill_neighbors [OF assms(3)] assms(1) by (auto simp: node_ok_def)
  then show ?thesis by (simp add: handle_server_unicast_eq [OF assms(2)] offer_of_def)
qed

primrec in_unicast :: "u8 \<Rightarrow> app_payload \<Rightarrow> u8 \<Rightarrow> local_msg \<Rightarrow> bool" where
  "in_unicast s a b (Offer u) = (uc_node_addr u = s \<and> uc_app u = a \<and> near s b)"
| "in_unicast s a b (Claim u) = (b = s \<and> uc_app u = a \<and> near s (uc_node_addr u))"
| "in_unicast s a b (Data q) = (packet_ok q \<and> valid_crc q \<and> np_receiver_addr q = b \<and> near s b \<and> np_app q = a)"

definition data_in :: "(u8 \<times> local_msg) multiset \<Rightarrow> nat" where
  "data_in air = size (filter_mset (is_data \<circ> snd) air)"

lemma data_in_simps [simp]: "data_in {#} = 0" "data_in (x + y) = data_in x + data_in y"
  "data_in (add_mset z x) = (if is_data (snd z) then 1 else 0) + data_in x"
  by (simp_all add: data_in_def)

lemma data_in_none: "(\<And>b m. (b, m) \<in># air \<Longrightarrow> \<not> is_data m) \<Longrightarrow> data_in air = 0"
  by (induction air) fastforce+

lemma data_in_mono: "x \<subseteq># y \<Longrightarrow> data_in x \<le> data_in y"
  unfolding data_in_def by (intro size_mset_mono multiset_filter_mono)

lemma data_in_remove: "(a, m) \<in># air \<Longrightarrow> data_in (air - {#(a, m)#}) = data_in air - (if is_data m then 1 else 0)"
  and data_in_pos: "(a, m) \<in># air \<Longrightarrow> is_data m \<Longrightarrow> 0 < data_in air"
  by (auto dest!: multi_member_split)

text \<open>
  The data was given away at most once, and if nothing is lost exactly once as soon as the contest is
  won; before that something is on its way.
\<close>

definition unicast_inv :: "bool \<Rightarrow> u8 \<Rightarrow> app_payload \<Rightarrow> local_mesh \<Rightarrow> bool" where
  "unicast_inv lossy s a x \<longleftrightarrow> (case x of (nodes, air, got) \<Rightarrow>
     (\<forall>b. node_ok (nodes b) \<and> nd_addr (nodes b) = b) \<and> (\<forall>b m. (b, m) \<in># air \<longrightarrow> in_unicast s a b m)
     \<and> (\<forall>(b, x) \<in> set got. near s b \<and> x = a)
     \<and> (if contest_won (nodes s) (ap_id a) then length got + data_in air \<le> 1 \<and> (lossy \<or> length got + data_in air = 1)
        else got = [] \<and> data_in air = 0 \<and> \<not> is_id_set (nd_messages (nodes s)) (ap_id a) \<and> (lossy \<or> air \<noteq> {#})))"

lemma in_unicast_ok: "app_ok a \<Longrightarrow> in_unicast s a b m \<Longrightarrow> local_ok m"
  by (cases m) (auto simp: unicast_ok_def)

lemma answers_in_unicast:
  assumes "app_ok a" and "in_unicast s a b m" and "nd_addr nd = b" and "(h, g) \<in># answers m nd"
  shows "in_unicast s a h g"
  using assms by (cases m) (auto simp: unicast_packet_valid unicast_ok_def split: if_splits)

lemma unicast_inv_handle:
  assumes inv: "unicast_inv lossy s a (nodes, air, got)" and app: "app_ok a" and m: "(b, m) \<in># air"
    and run: "handle_local os m (nodes b) = Some nd'" and new: "new \<subseteq># answers m (nodes b)" "lossy \<or> new = answers m (nodes b)"
  shows "unicast_inv lossy s a (nodes(b := nd'), air - {#(b, m)#} + new, delivers_to m (nodes b) @ got)"
proof -
  let ?won = "\<lambda>nd. contest_won nd (ap_id a)"
  have nodes: "node_ok (nodes c)" "nd_addr (nodes c) = c" and airm: "in_unicast s a b m" for c
    using inv m by (auto simp: unicast_inv_def)
  have ok: "local_ok m" using in_unicast_ok [OF app airm] .
  have nd': "node_ok nd'" "nd_addr nd' = b" using local_keeps [OF ok, of os "nodes b"] run nodes [of b] by (auto simp: keeps_def)
  have air: "in_unicast s a c g" if "(c, g) \<in># air - {#(b, m)#} + new" for c g
    using that inv answers_in_unicast [OF app airm nodes(2)] mset_subset_eqD [OF new(1)]
    by (auto simp: unicast_inv_def dest: in_diffD)
  have data_to: "delivers_to m (nodes b) = (if is_data m then [(b, a)] else [])"
    using airm nodes(2) [of b] by (cases m) simp_all
  have got: "\<forall>(c, x) \<in> set (delivers_to m (nodes b) @ got). near s c \<and> x = a"
    using inv airm by (cases m) (auto simp: unicast_inv_def)
  have data: "data_in (air - {#(b, m)#} + new) = data_in air - (if is_data m then 1 else 0) + data_in new"
    using data_in_remove [OF m] by simp
  let ?count = "\<lambda>nd air got. if ?won nd then length got + data_in air \<le> 1 \<and> (lossy \<or> length got + data_in air = 1)
        else got = [] \<and> data_in air = 0 \<and> \<not> is_id_set (nd_messages nd) (ap_id a) \<and> (lossy \<or> air \<noteq> {#})"
  have old: "?count (nodes s) air got" using inv unfolding unicast_inv_def prod.case by blast
  have "?count ((nodes(b := nd')) s) (air - {#(b, m)#} + new) (delivers_to m (nodes b) @ got)"
  proof (cases m)
    case (Offer u)
    then have "b \<noteq> s" using airm near_irrefl by auto
    moreover have "data_in new = 0"
      using data_in_mono [OF new(1)] by (simp add: Offer)
    moreover have "lossy \<or> new \<noteq> {#}" using new(2) by (auto simp: Offer)
    ultimately show ?thesis using old data data_to by (auto simp: Offer)
  next
    case (Claim u)
    then have b: "b = s" and u: "uc_app u = a" "unicast_ok u" using airm ok by auto
    show ?thesis
    proof (cases "?won (nodes s)")
      case True
      then have "nd' = nodes s" "new = {#}"
        using claim_ignored [OF nodes(1) u(2) run [unfolded Claim b]] new(1) by (auto simp: Claim b u contest_won_def)
      then show ?thesis using old True data data_to by (simp add: Claim b)
    next
      case False
      then have "answers m (nodes b) = {#(uc_node_addr u, Data (unicast_packet s u))#}" using old nodes(2) by (simp add: Claim b u)
      then have "data_in new \<le> 1" "lossy \<or> data_in new = 1"
        using new(2) data_in_mono [OF new(1)] by auto
      moreover have "?won nd'" using claim_handled [OF nodes(1) u(2) run [unfolded Claim b]] u by simp
      ultimately show ?thesis using old False data data_to by (auto simp: Claim b)
    qed
  next
    case (Data q)
    then have "b \<noteq> s" "new = {#}" using airm near_irrefl new(1) by auto
    moreover have "0 < data_in air" using data_in_pos [OF m] by (simp add: Data)
    ultimately show ?thesis using old data data_to by (auto simp: Data split: if_splits)
  qed
  then show ?thesis using nodes nd' air got unfolding unicast_inv_def prod.case by auto
qed

lemma unicast_inv_step:
  assumes "local_step lossy x y" and "unicast_inv lossy s a x" and "app_ok a"
  shows "unicast_inv lossy s a y"
  using assms(1)
proof cases
  case (handle b m air os nodes nd' new got)
  then show ?thesis using unicast_inv_handle [OF assms(2) [unfolded handle(1)] assms(3) handle(3-5)] by blast
next
  case (lose b m air nodes got)
  then show ?thesis using assms(2) data_in_remove [OF lose(4)]
    by (auto simp: unicast_inv_def dest: in_diffD split: if_splits)
qed

lemma some_neighbor:
  assumes "unat s < NODE_COUNT"
  shows "neighbor_addrs s \<noteq> []"
proof -
  define j where "j = (if col_of s = 0 then 1 else col_of s - 1)"
  have "near s (from_pos (row_of s, j))"
    using row_col_bounds [OF assms] assms from_pos_row_col [of "row_of s" j] by (auto simp: near_def near_offset_def j_def)
  then show ?thesis using neighbor_addrs(1) [OF assms] by force
qed

lemma unicast_reachable_inv:
  assumes "unicast_reachable lossy os s p x" and "packet_ok p" and "unat s < NODE_COUNT"
  shows "unicast_inv lossy s (delivery os (np_app p)) x"
  using assms(1)
proof induction
  case (start nodes nd' air)
  let ?a = "delivery os (np_app p)"
  have app: "app_ok (np_app p)" using assms(2) by (simp add: packet_ok_def)
  have s: "node_ok (nodes s)" "nd_addr (nodes s) = s" using start(1) by auto
  have "keeps (nodes s) nd'" "nd_messages nd' = nd_messages (nodes s)"
    using handlers_keep(3) [OF assms(2), of os "nodes s"] unicast_offers [OF s(1) assms(2), of os] start(3) s(2) assms(3) by auto
  then have nd': "node_ok nd'" "nd_addr nd' = s" "\<not> is_id_set (nd_messages nd') (ap_id ?a)"
    using s start(2) app by (auto simp: keeps_def)
  have "in_unicast s ?a b m \<and> \<not> is_data m" if "(b, m) \<in># air" for b m
    using mset_subset_eqD [OF start(4) that] neighbor_addrs(1) [OF assms(3)] by (auto simp: offers_def offer_of_def)
  moreover from this have "data_in air = 0" by (intro data_in_none) blast
  moreover have "lossy \<or> air \<noteq> {#}" using start(5) some_neighbor [OF assms(3)] by (auto simp: offers_def)
  ultimately show ?case using start(1) nd' by (auto simp: unicast_inv_def contest_won_def)
next
  case (step x y)
  have "app_ok (delivery os (np_app p))" using assms(2) by (simp add: packet_ok_def)
  then show ?case using unicast_inv_step [OF step(2,3)] by blast
qed

text \<open>Every message in the air can be handled.\<close>

lemma local_goes_on:
  assumes "(b, m) \<in># air" and "local_ok m"
  shows "\<exists>y. local_step lossy (nodes, air, got) y"
proof -
  obtain os where os: "healthy os" using healthy_exists by blast
  obtain nd' where "handle_local os m (nodes b) = Some nd'" using local_keeps [OF assms(2), of os "nodes b"] by blast
  from local_step.handle [where nodes = nodes, OF assms(1) this, of "answers m (nodes b)" lossy] os show ?thesis by blast
qed

text \<open>So at most one neighbour is given the message; and exactly one when nothing is lost.\<close>

lemma unicast_at_most_one:
  assumes "unicast_reachable lossy os s p (nodes, air, got)" and "packet_ok p" and "unat s < NODE_COUNT"
  shows "got = [] \<or> (\<exists>b. got = [(b, delivery os (np_app p))] \<and> near s b)"
proof -
  have "length got \<le> 1" "\<forall>(b, x) \<in> set got. near s b \<and> x = delivery os (np_app p)"
    using unicast_reachable_inv [OF assms] by (auto simp: unicast_inv_def split: if_splits)
  then show ?thesis by (cases got) auto
qed

lemma unicast_exactly_one:
  assumes "unicast_reachable False os s p x" and "\<nexists>y. local_step False x y" and "packet_ok p" and "unat s < NODE_COUNT"
  shows "\<exists>nodes b. x = (nodes, {#}, [(b, delivery os (np_app p))]) \<and> near s b"
proof -
  obtain nodes air got where x: "x = (nodes, air, got)" by (metis surj_pair)
  note inv = unicast_reachable_inv [OF assms(1) [unfolded x] assms(3,4)]
  have app: "app_ok (delivery os (np_app p))" using assms(3) by (simp add: packet_ok_def)
  have "air = {#}"
  proof (rule ccontr)
    assume "air \<noteq> {#}"
    then obtain b m where m: "(b, m) \<in># air" by (metis multiset_nonemptyE surj_pair)
    moreover have "local_ok m" using inv m by (intro in_unicast_ok [OF app]) (auto simp: unicast_inv_def)
    ultimately show False using local_goes_on assms(2) by (simp add: x)
  qed
  moreover from this have "length got = 1" using inv by (auto simp: unicast_inv_def split: if_splits)
  ultimately show ?thesis using unicast_at_most_one [OF assms(1) [unfolded x] assms(3,4)] by (auto simp: x)
qed

subsection \<open>A broadcast\<close>

text \<open>It starts when the server hands the message to \<open>s\<close>, which addresses it to each neighbour in turn.\<close>

definition broadcast_copy :: "os \<Rightarrow> node_packet \<Rightarrow> u8 \<Rightarrow> node_packet" where
  "broadcast_copy os p b = addressed (p\<lparr>np_app := delivery os (np_app p)\<rparr>) (node_port b)"

definition broadcast_copies :: "os \<Rightarrow> u8 \<Rightarrow> node_packet \<Rightarrow> (u8 \<times> local_msg) multiset" where
  "broadcast_copies os s p = image_mset (\<lambda>b. (b, Data (broadcast_copy os p b))) (mset (neighbor_addrs s))"

inductive broadcast_reachable :: "bool \<Rightarrow> os \<Rightarrow> u8 \<Rightarrow> node_packet \<Rightarrow> local_mesh \<Rightarrow> bool" for lossy os s p where
  start: "\<forall>a. node_ok (nodes a) \<and> nd_addr (nodes a) = a \<Longrightarrow> handle_broadcast os p (nodes s) = Some nd' \<Longrightarrow>
    air \<subseteq># broadcast_copies os s p \<Longrightarrow> lossy \<or> healthy os \<and> air = broadcast_copies os s p \<Longrightarrow>
    broadcast_reachable lossy os s p (nodes(s := nd'), air, [])"
| step: "broadcast_reachable lossy os s p x \<Longrightarrow> local_step lossy x y \<Longrightarrow> broadcast_reachable lossy os s p y"

text \<open>The handler does send these copies.\<close>

lemma broadcast_sends:
  assumes "node_ok nd" and "packet_ok p" and "unat (nd_addr nd) < NODE_COUNT"
  shows "handle_broadcast os p nd = Some (nd\<lparr>nd_net := fold (\<lambda>b n. snd (send_message os (node_port b)
     (message_of os (Data (broadcast_copy os p b))) n)) (neighbor_addrs (nd_addr nd)) (nd_net nd)\<rparr>)"
proof -
  have "neighbor_ports (nd_neighbors nd) = map node_port (neighbor_addrs (nd_addr nd))"
    using fill_neighbors [OF assms(3)] assms(1) by (auto simp: node_ok_def)
  then show ?thesis
    by (simp add: handle_broadcast_eq [OF assms(2)] broadcast_all_def broadcast_copy_def fold_map comp_def)
qed

definition broadcast_inv :: "bool \<Rightarrow> u8 \<Rightarrow> app_payload \<Rightarrow> local_mesh \<Rightarrow> bool" where
  "broadcast_inv lossy s a x \<longleftrightarrow> (case x of (nodes, air, got) \<Rightarrow>
     (\<forall>b. node_ok (nodes b) \<and> nd_addr (nodes b) = b) \<and> (\<forall>b m. (b, m) \<in># air \<longrightarrow> is_data m \<and> in_unicast s a b m)
     \<and> (\<forall>(b, x) \<in> set got. x = a) \<and> mset (map fst got) + image_mset fst air \<subseteq># mset (neighbor_addrs s)
     \<and> (lossy \<or> mset (map fst got) + image_mset fst air = mset (neighbor_addrs s)))"

lemma broadcast_copy_simps:
  assumes "packet_ok p" and "unat b < NODE_COUNT"
  shows "packet_ok (broadcast_copy os p b)" and "valid_crc (broadcast_copy os p b)" and "np_receiver_addr (broadcast_copy os p b) = b"
    and "np_app (broadcast_copy os p b) = delivery os (np_app p)"
  using assms by (simp_all add: broadcast_copy_def addressed_def packet_ok_def seal_valid)

lemma broadcast_inv_step:
  assumes "local_step lossy x y" and "broadcast_inv lossy s a x" and "app_ok a"
  shows "broadcast_inv lossy s a y"
  using assms(1)
proof cases
  case (handle b m air os nodes nd' new got)
  have inv: "is_data m" "in_unicast s a b m" "node_ok (nodes b)" "nd_addr (nodes b) = b"
    using assms(2) handle(3) by (auto simp: broadcast_inv_def handle(1))
  then obtain q where q: "m = Data q" by (cases m) auto
  have new: "new = {#}" using handle(5) by (simp add: q)
  have to: "delivers_to m (nodes b) = [(b, a)]" using inv by (simp add: q)
  have nd': "node_ok nd'" "nd_addr nd' = b"
    using local_keeps [OF in_unicast_ok [OF assms(3) inv(2)], of os "nodes b"] handle(4) inv(3,4) by (auto simp: keeps_def)
  obtain rest where air: "air = add_mset (b, m) rest" using handle(3) by (metis insert_DiffM)
  show ?thesis using assms(2) nd' by (auto simp: broadcast_inv_def handle(1,2) new to air)
next
  case (lose b m air nodes got)
  obtain rest where air: "air = add_mset (b, m) rest" using lose(4) by (metis insert_DiffM)
  then show ?thesis using assms(2) lose(3)
    by (auto simp: broadcast_inv_def lose(1,2) dest!: mset_subset_eq_insertD intro: subset_mset.less_imp_le)
qed

lemma broadcast_reachable_inv:
  assumes "broadcast_reachable lossy os s p x" and "packet_ok p" and "unat s < NODE_COUNT"
  shows "broadcast_inv lossy s (delivery os (np_app p)) x"
  using assms(1)
proof induction
  case (start nodes nd' air)
  have "node_ok (nodes s)" "nd_addr (nodes s) = s" using start(1) by auto
  then have nd': "node_ok nd'" "nd_addr nd' = s"
    using handlers_keep(2) [OF assms(2), of os "nodes s"] start(2) by (auto simp: keeps_def)
  have "is_data m \<and> in_unicast s (delivery os (np_app p)) b m" if "(b, m) \<in># air" for b m
  proof -
    have b: "near s b" "m = Data (broadcast_copy os p b)"
      using mset_subset_eqD [OF start(3) that] neighbor_addrs(1) [OF assms(3)] by (auto simp: broadcast_copies_def)
    then have "unat b < NODE_COUNT" by (simp add: near_def)
    then show ?thesis using broadcast_copy_simps [OF assms(2)] b by simp
  qed
  moreover have "image_mset fst (broadcast_copies os s p) = mset (neighbor_addrs s)"
    by (simp add: broadcast_copies_def multiset.map_comp comp_def)
  ultimately show ?case
    using start(1,4) nd' image_mset_subseteq_mono [OF start(3), of fst] by (auto simp: broadcast_inv_def)
next
  case (step x y)
  have "app_ok (delivery os (np_app p))" using assms(2) by (simp add: packet_ok_def)
  then show ?case using broadcast_inv_step [OF step(2,3)] by blast
qed

text \<open>No neighbour is given the message twice, and if nothing is lost all are given it.\<close>

lemma broadcast_at_most_once:
  assumes "broadcast_reachable lossy os s p (nodes, air, got)" and "packet_ok p" and "unat s < NODE_COUNT"
  shows "distinct (map fst got) \<and> (\<forall>(b, x) \<in> set got. near s b \<and> x = delivery os (np_app p))"
proof -
  have sub: "mset (map fst got) \<subseteq># mset (neighbor_addrs s)" and got: "\<forall>(b, x) \<in> set got. x = delivery os (np_app p)"
    using broadcast_reachable_inv [OF assms] subset_mset.order_trans [OF mset_subset_eq_add_left]
    by (auto simp: broadcast_inv_def)
  have "distinct (map fst got)"
    using sub neighbor_addrs(2) [OF assms(3)] by (metis distinct_append mset_append mset_eq_imp_distinct_iff subset_mset.le_iff_add ex_mset)
  moreover have "near s b" if "(b, x) \<in> set got" for b x
    using set_mset_mono [OF sub] neighbor_addrs(1) [OF assms(3)] that by force
  ultimately show ?thesis using got by blast
qed

lemma broadcast_all_neighbours:
  assumes "broadcast_reachable False os s p x" and "\<nexists>y. local_step False x y" and "packet_ok p" and "unat s < NODE_COUNT"
  shows "\<exists>nodes got. x = (nodes, {#}, got) \<and> distinct (map fst got)
     \<and> set got = {b. near s b} \<times> {delivery os (np_app p)}"
proof -
  obtain nodes air got where x: "x = (nodes, air, got)" by (metis surj_pair)
  note inv = broadcast_reachable_inv [OF assms(1) [unfolded x] assms(3,4)]
  note once = broadcast_at_most_once [OF assms(1) [unfolded x] assms(3,4)]
  have app: "app_ok (delivery os (np_app p))" using assms(3) by (simp add: packet_ok_def)
  have "air = {#}"
  proof (rule ccontr)
    assume "air \<noteq> {#}"
    then obtain b m where m: "(b, m) \<in># air" by (metis multiset_nonemptyE surj_pair)
    moreover have "local_ok m" using inv m by (intro in_unicast_ok [OF app]) (auto simp: broadcast_inv_def)
    ultimately show False using local_goes_on assms(2) by (simp add: x)
  qed
  from this inv have "mset (map fst got) = mset (neighbor_addrs s)" by (simp add: broadcast_inv_def)
  from mset_eq_setD [OF this] have all: "fst ` set got = {b. near s b}" using neighbor_addrs(1) [OF assms(4)] by simp
  have "(b, delivery os (np_app p)) \<in> set got" if "near s b" for b
  proof -
    have "b \<in> fst ` set got" using that all by simp
    then obtain x where "(b, x) \<in> set got" by auto
    then show ?thesis using once by auto
  qed
  then have "set got = {b. near s b} \<times> {delivery os (np_app p)}" using once by auto
  then show ?thesis using once \<open>air = {#}\<close> by (simp add: x)
qed

subsection \<open>Runs to the end\<close>

lemma local_finishes: "\<exists>y. (local_step lossy)\<^sup>*\<^sup>* x y \<and> (\<nexists>z. local_step lossy y z)"
proof (induction x rule: wf_induct_rule [OF local_wf [of lossy]])
  case (1 x)
  show ?case
  proof (cases "\<exists>y. local_step lossy x y")
    case True
    then obtain y where "local_step lossy x y" by blast
    with 1 show ?thesis by (meson CollectI case_prodI converse_rtranclp_into_rtranclp)
  qed blast
qed

lemma reachable_run:
  "(local_step lossy)\<^sup>*\<^sup>* x y \<Longrightarrow> unicast_reachable lossy os s p x \<Longrightarrow> unicast_reachable lossy os s p y"
  "(local_step lossy)\<^sup>*\<^sup>* x y \<Longrightarrow> broadcast_reachable lossy os s p x \<Longrightarrow> broadcast_reachable lossy os s p y"
  by (induction rule: rtranclp_induct) (blast intro: unicast_reachable.step broadcast_reachable.step)+

end
