(* ===== verification/Local_Properties.thy ===== *)
theory Local_Properties
  imports Mesh_Local Mesh_Scenarios
begin

text \<open>
  The properties of unicasts and broadcasts in the neighbourhood of a node, for every order in which
  the nodes handle the messages: a unicast is given to one neighbour, a broadcast to all.
\<close>

lemma demo_healthy: "healthy (demo_os S k)"
  by (simp add: healthy_def demo_os_def)

lemma demo_new_id: "\<not> is_id_set (nd_messages (demo_node a)) 7"
  by (simp add: demo_node_def static_node_def initial_messages_def is_id_set_def visible_def)

lemma demo_unicast:
  obtains x where "unicast_reachable False (demo_os [] 0) 11 (demo_packet 0) x" and "\<nexists>y. local_step False x y"
proof -
  let ?os = "demo_os [] 0"
  obtain nd' where nd': "handle_server_unicast ?os (demo_packet 0) (demo_node 11) = Some nd'"
    using handlers_keep(3) [OF demo_packet_ok(1)] by blast
  have "unicast_reachable False ?os 11 (demo_packet 0) (demo_node(11 := nd'), offers ?os 11 (demo_packet 0), [])"
    by (rule unicast_reachable.start [where nodes = demo_node, OF _ _ nd'])
      (simp_all add: demo_packet_ok demo_proper demo_new_id demo_healthy demo_node_ok)
  then show ?thesis using that local_finishes reachable_run(1) by metis
qed

lemma demo_broadcast:
  obtains x where "broadcast_reachable False (demo_os [] 0) 11 (demo_packet 0) x" and "\<nexists>y. local_step False x y"
proof -
  let ?os = "demo_os [] 0"
  obtain nd' where nd': "handle_broadcast ?os (demo_packet 0) (demo_node 11) = Some nd'"
    using handlers_keep(2) [OF demo_packet_ok(1)] by blast
  have "broadcast_reachable False ?os 11 (demo_packet 0) (demo_node(11 := nd'), broadcast_copies ?os 11 (demo_packet 0), [])"
    by (rule broadcast_reachable.start [where nodes = demo_node, OF _ nd']) (simp_all add: demo_healthy demo_node_ok)
  then show ?thesis using that local_finishes reachable_run(2) by metis
qed





end
