(* ===== verification/Node_Norm.thy ===== *)
theory Node_Norm
  imports Node_Behaviour
begin

text \<open>
  The handlers do not look behind the end of a message.  Parsing leaves the rest of the message array
  as it was, so that the packet a node reads may differ there from the packet that was written; but
  handlers treat both alike.  Hence a packet in transit can be spoken of as a value.
\<close>

subsection \<open>Application messages\<close>

definition same_app :: "app_payload \<Rightarrow> app_payload \<Rightarrow> bool" where
  "same_app a b \<longleftrightarrow> app_ok a \<and> app_ok b \<and> app_norm a = app_norm b"

lemma same_appD:
  assumes "same_app a b"
  shows "app_ok a" and "app_ok b" and "ap_req_type a = ap_req_type b" and "ap_addr_to a = ap_addr_to b" and "ap_id a = ap_id b"
    and "ap_message_len a = ap_message_len b" and "ap_crc a = ap_crc b"
    and "take (unat (ap_message_len b)) (ap_message a) = take (unat (ap_message_len b)) (ap_message b)"
  using assms by (auto simp: same_app_def app_norm_iff)

lemma same_app_overwrite: "same_app a b \<Longrightarrow> a\<lparr>ap_message := m, ap_message_len := n\<rparr> = b\<lparr>ap_message := m, ap_message_len := n\<rparr>"
  by (cases a, cases b) (auto simp: same_app_def app_norm_iff)

lemma same_get_bytes:
  assumes "same_app a b"
  shows "map_option fst (get_bytes (unat (ap_message_len a)) (ap_message a)) = map_option fst (get_bytes (unat (ap_message_len b)) (ap_message b))"
  using same_appD [OF assms] by (simp add: get_bytes_def app_ok_def)

lemma zlib_reads_front:
  "compress_message os m n = map_option (\<lambda>inp. (zlib_buffer os (os_deflate os inp), of_nat (length (take APP_MESSAGE_LEN (os_deflate os inp)))))
     (map_option fst (get_bytes (unat n) m))"
  "decompress_message os m n = map_option (\<lambda>inp. (zlib_buffer os (os_inflate os inp), of_nat (length (take APP_MESSAGE_LEN (os_inflate os inp)))))
     (map_option fst (get_bytes (unat n) m))"
  by (cases "get_bytes (unat n) m"; auto simp: compress_message_def decompress_message_def Let_def)+

lemma same_app_handles:
  assumes "same_app a b"
  shows "app_handles os apps a = app_handles os apps b"
proof -
  have "decompress_message os (ap_message a) (ap_message_len a) = decompress_message os (ap_message b) (ap_message_len b)"
    by (simp add: zlib_reads_front same_get_bytes [OF assms] del: option.map_comp)
  then have "check_message os a = check_message os b"
    using same_app_overwrite [OF assms] same_appD(7) [OF assms]
    by (cases "decompress_message os (ap_message b) (ap_message_len b)") (auto simp: check_message_def Let_def)
  then show ?thesis
    using same_appD [OF assms] by (simp add: app_handles_def node_app_handle_request_def split: option.split app_request.split)
qed

lemma same_delivery:
  assumes "same_app a b"
  shows "same_app (delivery os a) (delivery os b)"
proof -
  note ok = same_appD [OF assms]
  have "app_norm (delivery os a) = app_norm (delivery os b)"
  proof (cases "ap_message_len b = 0")
    case True
    then show ?thesis using assms ok(6) by (simp add: delivery_def node_app_setup_delivery_def same_app_def)
  next
    case False
    have "compress_message os (ap_message a) (ap_message_len a) = compress_message os (ap_message b) (ap_message_len b)"
      by (simp add: zlib_reads_front same_get_bytes [OF assms] del: option.map_comp)
    then show ?thesis
      using False ok(6) same_app_overwrite [OF assms]
      by (cases "compress_message os (ap_message b) (ap_message_len b)") (auto simp: delivery_def node_app_setup_delivery_def)
  qed
  then show ?thesis using ok by (simp add: same_app_def)
qed

subsection \<open>Packets and contests\<close>

definition same_packet :: "node_packet \<Rightarrow> node_packet \<Rightarrow> bool" where
  "same_packet p q \<longleftrightarrow> packet_ok p \<and> packet_ok q \<and> packet_norm p = packet_norm q"

lemma same_packetD:
  assumes "same_packet p q"
  shows "packet_ok p" and "packet_ok q" and "np_sender_addr p = np_sender_addr q" and "np_receiver_addr p = np_receiver_addr q"
    and "np_local_sender_addr p = np_local_sender_addr q" and "np_time_to_live p = np_time_to_live q" and "np_crc p = np_crc q"
    and "same_app (np_app p) (np_app q)" and "ap_id (np_app p) = ap_id (np_app q)" and "valid_crc p = valid_crc q"
    and "ap_message_len (np_app p) = ap_message_len (np_app q)" and "ap_req_type (np_app p) = ap_req_type (np_app q)"
proof -
  show ok: "packet_ok p" "packet_ok q" using assms by (simp_all add: same_packet_def)
  have norm: "packet_norm p = packet_norm q" using assms by (simp add: same_packet_def)
  show "np_sender_addr p = np_sender_addr q" "np_receiver_addr p = np_receiver_addr q" "np_local_sender_addr p = np_local_sender_addr q"
    "np_time_to_live p = np_time_to_live q" "np_crc p = np_crc q" "valid_crc p = valid_crc q"
    using packet_norm_parts [OF norm] packet_norm_head(2) [OF norm] valid_crc_norm [OF norm ok] by blast+
  show app: "same_app (np_app p) (np_app q)"
    using ok packet_norm_parts [OF norm] by (simp add: same_app_def packet_ok_def)
  show "ap_id (np_app p) = ap_id (np_app q)" "ap_message_len (np_app p) = ap_message_len (np_app q)"
    "ap_req_type (np_app p) = ap_req_type (np_app q)" using same_appD [OF app] by blast+
qed

lemma same_packetI:
  assumes "same_app (np_app p) (np_app q)" and "np_sender_addr p = np_sender_addr q" and "np_receiver_addr p = np_receiver_addr q"
    and "np_local_sender_addr p = np_local_sender_addr q" and "np_time_to_live p = np_time_to_live q" and "np_crc p = np_crc q"
  shows "same_packet p q"
  using assms by (cases p, cases q) (simp add: same_packet_def same_app_def packet_norm_def packet_ok_def)

lemma same_packet_updates:
  assumes "same_packet p q"
  shows "same_packet (p\<lparr>np_local_sender_addr := a\<rparr>) (q\<lparr>np_local_sender_addr := a\<rparr>)"
    and "same_packet (p\<lparr>np_time_to_live := t\<rparr>) (q\<lparr>np_time_to_live := t\<rparr>)"
    and "same_packet (p\<lparr>np_receiver_addr := a\<rparr>) (q\<lparr>np_receiver_addr := a\<rparr>)"
    and "same_packet (p\<lparr>np_crc := c\<rparr>) (q\<lparr>np_crc := c\<rparr>)"
    and "same_app x y \<Longrightarrow> same_packet (p\<lparr>np_app := x\<rparr>) (q\<lparr>np_app := y\<rparr>)"
  using same_packetD [OF assms] by (auto intro!: same_packetI)

lemma same_seal: "same_packet p q \<Longrightarrow> same_packet (seal p) (seal q)"
  using packet_norm_crc [of p q] by (auto simp: seal_def same_packet_updates same_packet_def [of p q] split: option.split)

lemma same_wire_len:
  assumes "same_packet p q"
  shows "wire_len (Packet p) = wire_len (Packet q)"
  using same_packetD(1,2,11) [OF assms] by (simp add: wire_len.simps sizeof_packet_ok)

lemma same_transmitted: "same_packet p q \<Longrightarrow> transmitted junk pid req (Packet p) s = transmitted junk pid req (Packet q) s"
  using same_wire_len [of p q] packet_norm_head(4) [of p q] by (simp add: transmitted_def wire_message_def same_packet_def)

lemma same_os_transmitted: "same_packet p q \<Longrightarrow> os_transmitted os req (Packet p) = os_transmitted os req (Packet q)"
  unfolding os_transmitted_def by (rule same_transmitted)

lemma same_one_hop_less: "same_packet p q \<Longrightarrow> same_packet (one_hop_less p) (one_hop_less q)"
  using same_packetD(6) [of p q] unfolding one_hop_less_def by (auto intro: same_seal same_packet_updates)

subsection \<open>The handlers\<close>

lemma same_relay: "same_packet p q \<Longrightarrow> relay os p nd = relay os q nd"
  using same_os_transmitted [OF same_one_hop_less] by (simp add: relay_def)

lemma same_transmit: "same_packet p q \<Longrightarrow> transmit os port req (Packet p) nd = transmit os port req (Packet q) nd"
  using same_os_transmitted [of p q] by (simp add: transmit_def)

lemma same_deliver_local: "same_packet p q \<Longrightarrow> deliver_local os p nd = deliver_local os q nd"
  using same_app_handles [OF same_packetD(8), of p q] same_packetD(9,12) [of p q] by (simp add: deliver_local_def Let_def)

lemma same_learn:
  assumes "same_packet p q"
  shows "learn_direct p t = learn_direct q t" and "learn_inverse p t = learn_inverse q t" and "packet_metric p = packet_metric q"
  using same_packetD(3-6) [OF assms] by (simp_all add: learn_direct_def learn_inverse_def packet_metric_def Let_def)

lemma same_forward: "same_packet p q \<Longrightarrow> forward os p nd = forward os q nd"
  using same_packetD(4) [of p q] same_transmit [of p q] same_relay [OF same_packet_updates(2) [OF same_packet_updates(1)], of p q]
  by (auto simp: forward_def split: option.split)

lemma same_node_send:
  assumes "same_packet p q"
  shows "handle_node_send os p nd = handle_node_send os q nd"
  using same_packetD [OF assms] same_deliver_local [OF assms] same_forward [OF assms] by (simp add: handle_node_send_eq)

lemma same_delivered: "same_packet p q \<Longrightarrow> delivered os p nd = delivered os q nd"
  using same_packetD(3,9) [of p q] same_app_handles [OF same_packetD(8), of p q]
    same_transmit [OF same_seal [OF same_packet_updates(1) [OF same_packet_updates(2)]], of p q]
  by (auto simp: delivered_def answer_def Let_def split: option.split prod.split)

lemma same_route_direct:
  assumes "same_packet p q"
  shows "handle_node_route_direct os p nd = handle_node_route_direct os q nd"
  using same_packetD [OF assms] same_learn(3) [OF assms] same_delivered [OF assms] same_relay [OF same_packet_updates(1) [OF assms]]
  by (simp add: handle_node_route_direct_eq route_direct_def Let_def case_prod_beta)

lemma same_route_inverse:
  assumes "same_packet p q"
  shows "handle_node_route_inverse os p nd = handle_node_route_inverse os q nd"
proof -
  have "route_inverse os p nd = route_inverse os q nd"
    using same_packetD [OF assms] same_learn(2) [OF assms] same_transmit [OF same_one_hop_less [OF same_packet_updates(1) [OF assms]]]
    by (auto simp: route_inverse_def hop_back_def Let_def case_prod_beta split: option.split)
  then show ?thesis using same_packetD [OF assms] same_learn(2) [OF assms] by (simp add: handle_node_route_inverse_eq)
qed

lemma same_server_send:
  assumes "same_packet p q"
  shows "server_send os p nd = server_send os q nd"
proof -
  let ?p = "p\<lparr>np_app := delivery os (np_app p)\<rparr>" and ?q = "q\<lparr>np_app := delivery os (np_app q)\<rparr>"
  have same: "same_packet ?p ?q" by (rule same_packet_updates(5) [OF assms same_delivery [OF same_packetD(8) [OF assms]]])
  show ?thesis
    using same_packetD [OF assms] same_app_handles [OF same_packetD(8) [OF same]] same_transmit [OF same_seal [OF same]]
      same_relay [OF same_packet_updates(2) [OF same_packet_updates(1) [OF same]]]
    by (auto simp: server_send_def Let_def split: option.split)
qed

definition same_contest :: "unicast_contest \<Rightarrow> unicast_contest \<Rightarrow> bool" where
  "same_contest u v \<longleftrightarrow> uc_node_addr u = uc_node_addr v \<and> uc_req u = uc_req v \<and> same_app (uc_app u) (uc_app v)"

lemma same_contest_norm: "unicast_ok u \<Longrightarrow> unicast_ok v \<Longrightarrow> unicast_norm u = unicast_norm v \<Longrightarrow> same_contest u v"
  by (cases u, cases v) (simp add: same_contest_def same_app_def unicast_ok_def unicast_norm_def)

lemma same_contest_transmitted:
  assumes "same_contest u v"
  shows "transmitted junk pid req (Unicast u) s = transmitted junk pid req (Unicast v) s"
proof -
  have "unicast_wire u = unicast_wire v"
    using assms app_norm_wire [of "uc_app u" "uc_app v"] by (simp add: same_contest_def unicast_wire_def same_app_def)
  then show ?thesis by (simp add: transmitted_def wire_message_def wire_len.simps)
qed

lemma same_unicast_contest:
  assumes "same_contest u v"
  shows "handle_unicast_contest os u nd = handle_unicast_contest os v nd"
proof -
  have ok: "unicast_ok u" "unicast_ok v" using assms by (simp_all add: same_contest_def same_app_def unicast_ok_def)
  have "same_contest (u\<lparr>uc_node_addr := nd_addr nd\<rparr>) (v\<lparr>uc_node_addr := nd_addr nd\<rparr>)" using assms by (simp add: same_contest_def)
  from same_contest_transmitted [OF this] show ?thesis
    using assms by (simp add: handle_unicast_contest_eq ok transmit_def os_transmitted_def same_contest_def)
qed

lemma same_unicast_first:
  assumes "same_contest u v"
  shows "handle_unicast_first os u nd = handle_unicast_first os v nd"
proof -
  have ok: "unicast_ok u" "unicast_ok v" and app: "same_app (uc_app u) (uc_app v)" and to: "uc_node_addr u = uc_node_addr v"
    using assms by (simp_all add: same_contest_def same_app_def unicast_ok_def)
  have "same_packet (unicast_packet (nd_addr nd) u) (unicast_packet (nd_addr nd) v)"
    unfolding unicast_packet_def by (intro same_seal same_packetI) (simp_all add: app to)
  from same_transmit [OF this] show ?thesis
    using same_appD(5) [OF app] by (simp add: handle_unicast_first_eq ok to Let_def case_prod_beta)
qed

subsection \<open>From one process to the next\<close>

text \<open>The handler of the node that reads a message treats it as the value that was written.\<close>

definition node_handles :: "os \<Rightarrow> request \<Rightarrow> payload \<Rightarrow> node \<Rightarrow> (bool \<times> node) option" where
  "node_handles os req pl nd = (case (req, pl) of
      (REQUEST_SEND, Packet p) \<Rightarrow> handle_node_send os p nd
    | (REQUEST_ROUTE_DIRECT, Packet p) \<Rightarrow> handle_node_route_direct os p nd
    | (REQUEST_ROUTE_INVERSE, Packet p) \<Rightarrow> handle_node_route_inverse os p nd
    | (REQUEST_UNICAST_CONTEST, Unicast u) \<Rightarrow> map_option (Pair True) (handle_unicast_contest os u nd)
    | (REQUEST_UNICAST_FIRST, Unicast u) \<Rightarrow> map_option (Pair True) (handle_unicast_first os u nd)
    | _ \<Rightarrow> Some (False, nd))"

definition node_message :: "request \<Rightarrow> payload \<Rightarrow> bool" where
  "node_message req pl \<longleftrightarrow> payload_ok pl \<and> (case pl of
      Packet _ \<Rightarrow> req \<in> {REQUEST_SEND, REQUEST_ROUTE_DIRECT, REQUEST_ROUTE_INVERSE}
    | Unicast _ \<Rightarrow> req \<in> {REQUEST_UNICAST_CONTEST, REQUEST_UNICAST_FIRST}
    | _ \<Rightarrow> False)"

lemma node_message_carries: "node_message req pl \<Longrightarrow> carries req pl \<and> payload_ok pl"
  by (cases pl) (auto simp: node_message_def carries_def)

lemma handle_request_message:
  assumes "node_message req pl" and "delivers os fd S" and "S = received fd (node_trace nd) @ os_transmitted os' req pl @ rest"
  shows "\<exists>tr. received fd tr = received fd (node_trace nd) @ os_transmitted os' req pl
     \<and> handle_request os fd nd = map_option (\<lambda>(_, nd). (True, nd)) (node_handles os req pl (nd\<lparr>nd_net := (nd_net nd)\<lparr>net_trace := tr\<rparr>\<rparr>))"
proof -
  note ok = node_message_carries [OF assms(1)]
  obtain pl' buf tr where r: "read_frame os fd (node_trace nd) = (Some buf, tr)"
    "received fd tr = received fd (node_trace nd) @ os_transmitted os' req pl"
    "format_define_sender buf = Some (sender_code REQUEST_SENDER_NODE)"
    "format_parse (os_junk os) buf = Some (Some req, pl', False)" "payload_ok pl'"
    "payload_norm (os_getpid os') pl' = payload_norm (os_getpid os') pl"
    using receive_payload [of req pl os fd S "node_trace nd" "os_junk os'" "os_getpid os'" REQUEST_SENDER_NODE rest] ok assms(2,3)
    by (auto simp: os_transmitted_def)
  let ?nd = "nd\<lparr>nd_net := (nd_net nd)\<lparr>net_trace := tr\<rparr>\<rparr>"
  have bind: "Option.bind x (\<lambda>(_, nd). Some (True, nd)) = map_option (\<lambda>(_, nd). (True, nd)) x" for x :: "(bool \<times> node) option"
    by (cases x) auto
  have "handle_request os fd nd = map_option (\<lambda>(_, nd). (True, nd)) (handle_node os buf ?nd)"
    by (simp add: handle_request_def r(1,3) node_listener_handle_request_def Let_def bind)
  also have "handle_node os buf ?nd = node_handles os req pl ?nd"
  proof (cases pl)
    case (Packet p)
    then obtain q where q: "pl' = Packet q" using r(6) by (cases pl') auto
    then have "same_packet q p" using r(5,6) ok by (simp add: Packet same_packet_def)
    then show ?thesis using assms(1) r(4)
      by (auto simp: handle_node_def node_parse_def node_handles_def node_message_def Packet q
          same_node_send same_route_direct same_route_inverse)
  next
    case (Unicast u)
    then obtain v where v: "pl' = Unicast v" using r(6) by (cases pl') auto
    then have "same_contest v u" using r(5,6) ok by (simp add: Unicast same_contest_norm)
    then show ?thesis using assms(1) r(4)
      by (auto simp: handle_node_def node_parse_def node_handles_def node_message_def Unicast v
          same_unicast_contest same_unicast_first)
  qed (use assms(1) in \<open>simp_all add: node_message_def\<close>)
  finally show ?thesis using r(2) by blast
qed

end
