(* ===== verification/Client.thy ===== *)
theory Client
  imports Format_Wire Io Libc
begin

text \<open>
  The command line client: \<^verbatim>\<open>client/src/client.c\<close>.  Arguments are strings; \<open>arg args i\<close> is
  \<^verbatim>\<open>argv[i]\<close>, and \<open>None\<close>, undefined, for the null pointer behind the last one (the library routines
  it is handed to do not accept it).  Memory the client never writes holds \<open>os_junk\<close>.
\<close>

subsection \<open>Arguments\<close>

definition arg :: "string list \<Rightarrow> nat \<Rightarrow> string option" where
  "arg args i = (if i < length args then Some (args ! i) else None)"

text \<open>\<open>(uint8_t) strtol(argv[i], &endptr, 10)\<close>; the inner \<open>None\<close> when nothing is converted.\<close>

definition arg_u8 :: "string list \<Rightarrow> nat \<Rightarrow> u8 option option" where
  "arg_u8 args i = map_option (\<lambda>s. map_option word_of_int (strtol10 s)) (arg args i)"

definition create_addr_payload :: "string list \<Rightarrow> nat \<Rightarrow> (bool \<times> payload) option" where
  "create_addr_payload args i = do {
     addr \<leftarrow> arg_u8 args i;
     Some (case addr of None \<Rightarrow> (False, Null) | Some a \<Rightarrow> (True, Addr a)) }"

text \<open>
  A loop over all arguments that handles options: \<open>Inl ()\<close> is \<^verbatim>\<open>return false\<close>, and the state is
  that of the local variables.
\<close>

fun option_loop :: "(nat \<Rightarrow> string \<Rightarrow> 's \<Rightarrow> (unit + 's) option) \<Rightarrow> nat \<Rightarrow> string list \<Rightarrow> 's \<Rightarrow> (unit + 's) option" where
  "option_loop f i [] s = Some (Inr s)"
| "option_loop f i (a # as) s = do {
     r \<leftarrow> f i a s;
     (case r of Inl u \<Rightarrow> Some (Inl u) | Inr s \<Rightarrow> option_loop f (Suc i) as s) }"

text \<open>An option with a numeric value, stored by \<open>put\<close>.\<close>

definition numeric_option :: "string list \<Rightarrow> string list \<Rightarrow> (u8 \<Rightarrow> 's \<Rightarrow> 's) \<Rightarrow> nat \<Rightarrow> string \<Rightarrow> 's \<Rightarrow> (unit + 's) option" where
  "numeric_option args names put i a s =
     (if a \<in> set names then do {
        v \<leftarrow> arg_u8 args (Suc i);
        Some (case v of None \<Rightarrow> Inl () | Some v \<Rightarrow> Inr (put v s)) }
      else Some (Inr s))"

definition bind_option :: "(unit + 's) option \<Rightarrow> ('s \<Rightarrow> (unit + 't) option) \<Rightarrow> (unit + 't) option" where
  "bind_option m f = do { r \<leftarrow> m; (case r of Inl u \<Rightarrow> Some (Inl u) | Inr s \<Rightarrow> f s) }"

subsection \<open>The message of an application\<close>

definition bytes_of_string :: "string \<Rightarrow> u8 list" where
  "bytes_of_string s = map (\<lambda>c. of_nat (of_char c)) s"

text \<open>
  \<^verbatim>\<open>char message[APP_MESSAGE_LEN]\<close>: \<^verbatim>\<open>strcpy\<close> stores the terminator, \<^verbatim>\<open>strncpy\<close> of 149 characters
  does not.
\<close>

definition store_message :: "string \<Rightarrow> u8 list \<Rightarrow> u8 list" where
  "store_message s message =
     (let bs = (if length s > APP_MESSAGE_LEN - 1 then bytes_of_string (take (APP_MESSAGE_LEN - 1) s)
                else bytes_of_string s @ [0]) in
      bs @ drop (length bs) message)"

definition message_option :: "string list \<Rightarrow> nat \<Rightarrow> string \<Rightarrow> u8 list \<Rightarrow> u8 list option" where
  "message_option args i a message =
     (if a \<in> {''--app'', ''-a''} then map_option (\<lambda>s. store_message s message) (arg args (Suc i))
      else Some message)"

text \<open>\<^verbatim>\<open>strlen\<close> of an array; undefined when it has no terminator.\<close>

definition strlen :: "u8 list \<Rightarrow> nat option" where
  "strlen message = (if 0 \<in> set message then Some (length (takeWhile (\<lambda>b. b \<noteq> 0) message)) else None)"

text \<open>Length and message of the payload: \<^verbatim>\<open>strlen\<close>, then \<^verbatim>\<open>memcpy\<close> of that many bytes.\<close>

definition set_message :: "u8 list \<Rightarrow> app_payload \<Rightarrow> app_payload option" where
  "set_message message a = do {
     n \<leftarrow> strlen message;
     let len = (of_nat n :: u8);
     Some (a\<lparr>ap_message_len := len, ap_message := take (unat len) message @ drop (unat len) (ap_message a)\<rparr>) }"

subsection \<open>Commands\<close>

text \<open>\<^verbatim>\<open>malloc(sizeof(node_packet_t))\<close>.\<close>

definition junk_packet :: "os \<Rightarrow> node_packet" where
  "junk_packet os = (let j = os_junk os in
     \<lparr>np_sender_addr = j 0, np_receiver_addr = j 1, np_local_sender_addr = j 2, np_time_to_live = j 3,
      np_app = \<lparr>ap_req_type = j 4, ap_addr_from = j 5, ap_addr_to = j 6, ap_id = u16_of_bytes (j 7) (j 8),
        ap_message_len = j 9, ap_message = map (\<lambda>i. j (10 + i)) [0..<APP_MESSAGE_LEN],
        ap_crc = u16_of_bytes (j 160) (j 161)\<rparr>,
      np_crc = u16_of_bytes (j 162) (j 163)\<rparr>)"

record send_opts =
  so_from :: u8
  so_to :: u8
  so_app_from :: u8
  so_app_to :: u8
  so_message :: "u8 list"

text \<open>The local variables before the options are read.\<close>

definition initial_opts :: "os \<Rightarrow> send_opts" where
  "initial_opts os = \<lparr>so_from = UINT8_MAX, so_to = UINT8_MAX, so_app_from = os_junk os 0,
     so_app_to = os_junk os 1, so_message = uninit (os_junk os) APP_MESSAGE_LEN\<rparr>"

definition sender_option :: "string list \<Rightarrow> nat \<Rightarrow> string \<Rightarrow> send_opts \<Rightarrow> (unit + send_opts) option" where
  "sender_option args = numeric_option args [''-s'', ''--sender''] (\<lambda>v s. s\<lparr>so_from := v\<rparr>)"

definition address_options :: "string list \<Rightarrow> nat \<Rightarrow> string \<Rightarrow> send_opts \<Rightarrow> (unit + send_opts) option" where
  "address_options args i a s = bind_option (sender_option args i a s)
     (numeric_option args [''-r'', ''--receiver''] (\<lambda>v s. s\<lparr>so_to := v\<rparr>) i a)"

definition text_option :: "string list \<Rightarrow> nat \<Rightarrow> string \<Rightarrow> send_opts \<Rightarrow> (unit + send_opts) option" where
  "text_option args i a s = map_option (\<lambda>m. Inr (s\<lparr>so_message := m\<rparr>)) (message_option args i a (so_message s))"

definition app_options :: "string list \<Rightarrow> nat \<Rightarrow> string \<Rightarrow> send_opts \<Rightarrow> (unit + send_opts) option" where
  "app_options args i a s = bind_option (text_option args i a s)
     (\<lambda>s. bind_option (numeric_option args [''-ar'', ''--app-receiver''] (\<lambda>v s. s\<lparr>so_app_to := v\<rparr>) i a s)
       (numeric_option args [''-as'', ''--app-sender''] (\<lambda>v s. s\<lparr>so_app_from := v\<rparr>) i a))"

text \<open>The packet object, filled in from the options; without an application part it is empty.\<close>

definition start_packet :: "os \<Rightarrow> send_opts \<Rightarrow> node_packet" where
  "start_packet os s = (junk_packet os)\<lparr>np_sender_addr := so_from s, np_receiver_addr := so_to s\<rparr>"

definition send_packet :: "os \<Rightarrow> bool \<Rightarrow> send_opts \<Rightarrow> node_packet option" where
  "send_packet os with_app s = (let p = start_packet os s in do {
     app \<leftarrow> (if with_app
             then set_message (so_message s) ((np_app p)\<lparr>ap_addr_from := so_app_from s, ap_addr_to := so_app_to s\<rparr>)
             else Some ((np_app p)\<lparr>ap_addr_from := 0, ap_addr_to := 0, ap_message_len := 0\<rparr>));
     let p = p\<lparr>np_app := app\<lparr>ap_req_type := app_request_code APP_REQUEST_DELIVERY\<rparr>\<rparr>;
     crc \<leftarrow> packet_crc p;
     Some (p\<lparr>np_crc := crc\<rparr>) })"

text \<open>The result and the payload pointer.\<close>

definition parse_send_cmd :: "os \<Rightarrow> string list \<Rightarrow> (bool \<times> payload) option" where
  "parse_send_cmd os args = do {
     r \<leftarrow> option_loop (address_options args) 0 args (initial_opts os);
     (case r of
        Inl _ \<Rightarrow> Some (False, Null)
      | Inr s \<Rightarrow>
          if so_to s = UINT8_MAX \<or> so_from s = UINT8_MAX then Some (False, Null)
          else do {
            r \<leftarrow> (if length args > 6 then option_loop (app_options args) 0 args s else Some (Inr s));
            (case r of
               Inl _ \<Rightarrow> Some (False, Packet (start_packet os s))
             | Inr s \<Rightarrow> map_option (\<lambda>p. (True, Packet p)) (send_packet os (length args > 6) s)) }) }"

definition broadcast_packet :: "os \<Rightarrow> app_request \<Rightarrow> bool \<Rightarrow> send_opts \<Rightarrow> node_packet option" where
  "broadcast_packet os app_req with_app s = (let p = (junk_packet os)\<lparr>np_sender_addr := so_from s\<rparr> in do {
     app \<leftarrow> (if with_app then set_message (so_message s) (np_app p)
             else Some ((np_app p)\<lparr>ap_addr_from := 0, ap_addr_to := 0, ap_message_len := 0\<rparr>));
     crc \<leftarrow> crc16 (ap_message app) (unat (ap_message_len app));
     Some (p\<lparr>np_time_to_live := BROADCAST_RADIUS,
       np_app := app\<lparr>ap_req_type := app_request_code app_req, ap_crc := crc\<rparr>\<rparr>) })"

definition parse_broadcast_cmd :: "os \<Rightarrow> string list \<Rightarrow> app_request \<Rightarrow> (bool \<times> payload) option" where
  "parse_broadcast_cmd os args app_req = do {
     r \<leftarrow> option_loop (sender_option args) 0 args (initial_opts os);
     (case r of
        Inl _ \<Rightarrow> Some (False, Null)
      | Inr s \<Rightarrow>
          if so_from s = UINT8_MAX then Some (False, Null)
          else do {
            r \<leftarrow> (if length args \<ge> 6 then option_loop (text_option args) 0 args s else Some (Inr s));
            (case r of
               Inl _ \<Rightarrow> None
             | Inr s \<Rightarrow> map_option (\<lambda>p. (True, Packet p)) (broadcast_packet os app_req (length args \<ge> 6) s)) }) }"

text \<open>
  The first argument that names a command decides; \<^verbatim>\<open>send\<close>, \<^verbatim>\<open>broadcast\<close> and \<^verbatim>\<open>unicast\<close> only do
  with enough arguments.  The middle component is \<^verbatim>\<open>*cmd\<close>, \<open>None\<close> while it is unset.
\<close>

definition client_command :: "os \<Rightarrow> string list \<Rightarrow> nat \<Rightarrow> string \<Rightarrow> (bool \<times> request option \<times> payload) option option" where
  "client_command os args i a =
     (let with_cmd = \<lambda>cmd r. Some (map_option (\<lambda>(ok, pl). (ok, Some cmd, pl)) r) in
      if a = ''send'' \<and> length args \<ge> 6 then with_cmd REQUEST_SEND (parse_send_cmd os args)
      else if a = ''broadcast'' \<and> length args \<ge> 4
      then with_cmd REQUEST_BROADCAST (parse_broadcast_cmd os args APP_REQUEST_BROADCAST)
      else if a = ''unicast'' \<and> length args \<ge> 4
      then with_cmd REQUEST_UNICAST (parse_broadcast_cmd os args APP_REQUEST_UNICAST)
      else if a = ''ping'' then with_cmd REQUEST_PING (create_addr_payload args (Suc i))
      else if a = ''kill'' then with_cmd REQUEST_KILL_NODE (create_addr_payload args (Suc i))
      else if a = ''revive'' then with_cmd REQUEST_REVIVE_NODE (create_addr_payload args (Suc i))
      else None)"

fun client_commands :: "os \<Rightarrow> string list \<Rightarrow> nat \<Rightarrow> string list \<Rightarrow> (bool \<times> request option \<times> payload) option" where
  "client_commands os args i [] = Some (False, None, Null)"
| "client_commands os args i (a # as) =
     (case client_command os args i a of Some r \<Rightarrow> r | None \<Rightarrow> client_commands os args (Suc i) as)"

definition parse_args :: "os \<Rightarrow> string list \<Rightarrow> (bool \<times> request option \<times> payload) option" where
  "parse_args os args =
     (if length args > 2 then client_commands os args 0 args
      else if length args = 2 then
        Some (True, if args ! 1 = ''reset'' then Some REQUEST_RESET else None, Null)
      else Some (False, None, Null))"

subsection \<open>The process\<close>

datatype client_end = Exited int | Terminated \<comment> \<open>by \<^verbatim>\<open>SIGTERM\<close>, which the client does not handle\<close>

text \<open>The status byte that is printed and returned.\<close>

definition client_status :: "recv_result \<Rightarrow> u8" where
  "client_status r = (case r of RecvBytes (b # _) \<Rightarrow> b | _ \<Rightarrow> request_result_code REQUEST_UNKNOWN)"

definition client_main :: "os \<Rightarrow> string list \<Rightarrow> trace \<Rightarrow> (client_end \<times> trace) option" where
  "client_main os args tr = do {
     (ok, cmd, pl) \<leftarrow> parse_args os args;
     (if \<not> ok then Some (Exited 1, tr)
      else case connection_socket_to_send os SERVER_PORT tr of (server_fd, tr) \<Rightarrow>
        if server_fd < 0 then Some (Terminated, tr @ [EvSigterm])
        else do {
          req \<leftarrow> cmd;
          (buf, buf_len, died) \<leftarrow> format_create req pl (os_getpid os)
             (uninit (os_junk os) MAX_MSG_LEN, os_junk os 0) REQUEST_SENDER_CLIENT;
          (if died then Some (Terminated, tr @ [EvSigterm])
           else do {
             (_, tr) \<leftarrow> io_write_all os server_fd buf buf_len tr;
             let r = recv_call os tr server_fd MAX_MSG_LEN;
             Some (Exited (uint (client_status r)),
               tr @ [case r of RecvError \<Rightarrow> EvRecvError server_fd | RecvBytes bs \<Rightarrow> EvRecv server_fd bs,
                     EvClose server_fd]) }) }) }"

end
