(* ===== verification/Client_Spec.thy ===== *)
theory Client_Spec
  imports Client
begin

text \<open>
  What the client's argument parser guarantees: a command it accepts comes with a payload of the
  right kind and size, so that building the message cannot overrun anything; and the packet that
  the documented \<^verbatim>\<open>send\<close> command line stands for.
\<close>

subsection \<open>Option loops\<close>

lemma option_loop_keeps:
  assumes "\<And>i a s s'. f i a s = Some (Inr s') \<Longrightarrow> Q s \<Longrightarrow> Q s'"
    and "option_loop f i as s = Some (Inr s')" and "Q s"
  shows "Q s'"
  using assms(2,3)
proof (induction as arbitrary: i s)
  case (Cons a as)
  from Cons.prems(1) obtain r where r: "f i a s = Some r"
    by (cases "f i a s") auto
  with Cons.prems(1) obtain s1 where "f i a s = Some (Inr s1)" "option_loop f (Suc i) as s1 = Some (Inr s')"
    by (cases r) auto
  with Cons.IH assms(1) Cons.prems(2) show ?case by blast
qed simp

lemma bind_option_Inr:
  "bind_option m f = Some (Inr t) \<longleftrightarrow> (\<exists>s. m = Some (Inr s) \<and> f s = Some (Inr t))"
proof (cases m)
  case (Some r)
  then show ?thesis by (cases r) (auto simp: bind_option_def)
qed (simp add: bind_option_def)

lemma numeric_option_Inr:
  "numeric_option args names put i a s = Some (Inr s') \<Longrightarrow> s' = s \<or> (\<exists>v. s' = put v s)"
  by (auto simp: numeric_option_def bind_eq_Some_conv split: if_splits option.splits)

text \<open>The message array keeps its size.\<close>

definition opts_ok :: "send_opts \<Rightarrow> bool" where
  "opts_ok s \<longleftrightarrow> length (so_message s) = APP_MESSAGE_LEN"

lemma opts_ok_initial: "opts_ok (initial_opts os)"
  by (simp add: opts_ok_def initial_opts_def)

lemma length_store_message: "length m = APP_MESSAGE_LEN \<Longrightarrow> length (store_message s m) = APP_MESSAGE_LEN"
  by (auto simp: store_message_def bytes_of_string_def Let_def settings)

lemma opts_ok_sender: "sender_option args i a s = Some (Inr s') \<Longrightarrow> opts_ok s \<Longrightarrow> opts_ok s'"
  by (auto simp: sender_option_def opts_ok_def dest: numeric_option_Inr)

lemma opts_ok_address: "address_options args i a s = Some (Inr s') \<Longrightarrow> opts_ok s \<Longrightarrow> opts_ok s'"
  by (auto simp: address_options_def bind_option_Inr opts_ok_def dest!: opts_ok_sender numeric_option_Inr)

lemma opts_ok_text: "text_option args i a s = Some (Inr s') \<Longrightarrow> opts_ok s \<Longrightarrow> opts_ok s'"
  by (auto simp: text_option_def message_option_def opts_ok_def length_store_message split: if_splits)

lemma opts_ok_app: "app_options args i a s = Some (Inr s') \<Longrightarrow> opts_ok s \<Longrightarrow> opts_ok s'"
  by (auto simp: app_options_def bind_option_Inr opts_ok_def dest!: opts_ok_text numeric_option_Inr)

subsection \<open>Accepted commands\<close>

lemma strlen_less: "strlen m = Some n \<Longrightarrow> n < length m"
proof -
  have "0 \<in> set m \<Longrightarrow> length (takeWhile (\<lambda>b. b \<noteq> 0) m) < length m" by (induction m) auto
  then show "strlen m = Some n \<Longrightarrow> n < length m" by (auto simp: strlen_def split: if_splits)
qed

lemma set_message_ok:
  assumes "set_message m a = Some a'" and "length m = APP_MESSAGE_LEN" and "length (ap_message a) = APP_MESSAGE_LEN"
  shows "app_ok a'"
proof -
  obtain n where n: "strlen m = Some n" using assms(1) by (auto simp: set_message_def bind_eq_Some_conv)
  then have "n < length m" by (rule strlen_less)
  then have "unat (of_nat n :: u8) = n" "n \<le> APP_MESSAGE_LEN"
    using assms(2) by (simp_all add: settings unat_of_nat)
  then show ?thesis using assms n by (auto simp: set_message_def app_ok_def)
qed

lemma app_ok_updates [simp]:
  "app_ok (a\<lparr>ap_req_type := r\<rparr>) = app_ok a" "app_ok (a\<lparr>ap_crc := c\<rparr>) = app_ok a"
  by (simp_all add: app_ok_def)

lemma junk_app_length [simp]: "length (ap_message (np_app (junk_packet os))) = APP_MESSAGE_LEN"
  by (simp add: junk_packet_def Let_def)

lemma empty_app_ok: "length (ap_message a) = APP_MESSAGE_LEN \<Longrightarrow> app_ok (a\<lparr>ap_addr_from := 0, ap_addr_to := 0, ap_message_len := 0\<rparr>)"
  by (simp add: app_ok_def)

lemma send_packet_ok:
  assumes "send_packet os with_app s = Some p" and "opts_ok s"
  shows "packet_ok p" and "valid_crc p" and "np_sender_addr p = so_from s" and "np_receiver_addr p = so_to s"
proof -
  let ?p = "start_packet os s"
  let ?app = "if with_app
     then set_message (so_message s) ((np_app ?p)\<lparr>ap_addr_from := so_app_from s, ap_addr_to := so_app_to s\<rparr>)
     else Some ((np_app ?p)\<lparr>ap_addr_from := 0, ap_addr_to := 0, ap_message_len := 0\<rparr>)"
  obtain app where app: "?app = Some app"
    using assms(1) by (cases ?app) (auto simp: send_packet_def Let_def)
  have "app_ok app"
    using app assms(2) set_message_ok [of "so_message s"] empty_app_ok
    by (auto simp: start_packet_def opts_ok_def split: if_splits)
  then have ok: "packet_ok (?p\<lparr>np_app := app\<lparr>ap_req_type := app_request_code APP_REQUEST_DELIVERY\<rparr>\<rparr>)" (is "packet_ok ?q")
    by (simp add: packet_ok_def)
  then obtain crc where crc: "packet_crc ?q = Some crc" using packet_crc_Some by blast
  then have "p = ?q\<lparr>np_crc := crc\<rparr>" using assms(1) app by (simp add: send_packet_def Let_def)
  then have p: "p = seal ?q" using packet_crc_seal [OF crc] by simp
  show "packet_ok p" "valid_crc p" "np_sender_addr p = so_from s" "np_receiver_addr p = so_to s"
    using ok seal_valid by (simp_all add: p) (simp_all add: start_packet_def)
qed

lemma parse_send_cmd_cases:
  assumes "parse_send_cmd os args = Some (True, pl)"
  obtains s0 s p where "option_loop (address_options args) 0 args (initial_opts os) = Some (Inr s0)"
    "(if length args > 6 then option_loop (app_options args) 0 args s0 else Some (Inr s0)) = Some (Inr s)"
    "send_packet os (length args > 6) s = Some p" "pl = Packet p"
proof -
  obtain r where r: "option_loop (address_options args) 0 args (initial_opts os) = Some r"
    using assms by (cases "option_loop (address_options args) 0 args (initial_opts os)") (auto simp: parse_send_cmd_def)
  then obtain s0 where s0: "r = Inr s0" "\<not> (so_to s0 = UINT8_MAX \<or> so_from s0 = UINT8_MAX)"
    using assms by (cases r) (auto simp: parse_send_cmd_def split: if_splits)
  let ?apps = "if length args > 6 then option_loop (app_options args) 0 args s0 else Some (Inr s0)"
  obtain q where q: "?apps = Some q"
    using assms r s0 by (cases ?apps) (auto simp: parse_send_cmd_def)
  then obtain s where s: "q = Inr s" using assms r s0 by (cases q) (auto simp: parse_send_cmd_def)
  then show ?thesis using assms r s0 q that by (auto simp: parse_send_cmd_def)
qed

lemma parse_send_cmd_ok:
  assumes "parse_send_cmd os args = Some (True, pl)"
  shows "\<exists>p. pl = Packet p \<and> packet_ok p \<and> valid_crc p"
proof (rule parse_send_cmd_cases [OF assms])
  fix s0 s p
  assume s0: "option_loop (address_options args) 0 args (initial_opts os) = Some (Inr s0)"
    and s: "(if length args > 6 then option_loop (app_options args) 0 args s0 else Some (Inr s0)) = Some (Inr s)"
    and p: "send_packet os (length args > 6) s = Some p" "pl = Packet p"
  have "opts_ok s0" by (rule option_loop_keeps [where Q = opts_ok, OF opts_ok_address s0 opts_ok_initial])
  then have "opts_ok s"
    using s option_loop_keeps [where Q = opts_ok, OF opts_ok_app] by (auto split: if_splits)
  with p show ?thesis using send_packet_ok by blast
qed

lemma broadcast_packet_ok:
  assumes "broadcast_packet os r with_app s = Some p" and "opts_ok s"
  shows "packet_ok p \<and> np_sender_addr p = so_from s \<and> np_time_to_live p = BROADCAST_RADIUS
     \<and> ap_req_type (np_app p) = app_request_code r"
proof -
  let ?p = "(junk_packet os)\<lparr>np_sender_addr := so_from s\<rparr>"
  let ?app = "if with_app then set_message (so_message s) (np_app ?p)
     else Some ((np_app ?p)\<lparr>ap_addr_from := 0, ap_addr_to := 0, ap_message_len := 0\<rparr>)"
  obtain app where app: "?app = Some app"
    using assms(1) by (cases ?app) (auto simp: broadcast_packet_def Let_def)
  have "app_ok app"
    using app assms(2) set_message_ok [of "so_message s"] empty_app_ok
    by (auto simp: opts_ok_def split: if_splits)
  then show ?thesis
    using assms(1) app by (auto simp: broadcast_packet_def Let_def bind_eq_Some_conv packet_ok_def)
qed

lemma parse_broadcast_cmd_ok:
  assumes "parse_broadcast_cmd os args r = Some (True, pl)"
  shows "\<exists>p. pl = Packet p \<and> packet_ok p \<and> np_time_to_live p = BROADCAST_RADIUS
     \<and> ap_req_type (np_app p) = app_request_code r"
proof -
  obtain x where x: "option_loop (sender_option args) 0 args (initial_opts os) = Some x"
    using assms by (cases "option_loop (sender_option args) 0 args (initial_opts os)") (auto simp: parse_broadcast_cmd_def)
  then obtain s0 where s0: "x = Inr s0" "so_from s0 \<noteq> UINT8_MAX"
    using assms by (cases x) (auto simp: parse_broadcast_cmd_def split: if_splits)
  let ?text = "if length args \<ge> 6 then option_loop (text_option args) 0 args s0 else Some (Inr s0)"
  obtain y where y: "?text = Some y"
    using assms x s0 by (cases ?text) (auto simp: parse_broadcast_cmd_def)
  then obtain s where s: "y = Inr s" using assms x s0 by (cases y) (auto simp: parse_broadcast_cmd_def)
  then obtain p where p: "broadcast_packet os r (length args \<ge> 6) s = Some p" "pl = Packet p"
    using assms x s0 y by (auto simp: parse_broadcast_cmd_def)
  have "opts_ok s0" by (rule option_loop_keeps [where Q = opts_ok, OF opts_ok_sender x [unfolded s0] opts_ok_initial])
  then have "opts_ok s"
    using y s option_loop_keeps [where Q = opts_ok, OF opts_ok_text] by (auto split: if_splits)
  with p show ?thesis using broadcast_packet_ok by blast
qed

text \<open>Every accepted command carries a payload that can be formatted.\<close>

definition accepted :: "(bool \<times> request option \<times> payload) option \<Rightarrow> bool" where
  "accepted r \<longleftrightarrow> (case r of Some (True, Some cmd, pl) \<Rightarrow> fits cmd pl \<and> payload_ok pl | _ \<Rightarrow> True)"

lemma create_addr_payload_ok:
  "create_addr_payload args i = Some (True, pl) \<Longrightarrow> \<exists>a. pl = Addr a"
  by (auto simp: create_addr_payload_def bind_eq_Some_conv split: option.splits)

lemma client_command_accepted: "client_command os args i a = Some r \<Longrightarrow> accepted r"
  by (auto simp: client_command_def Let_def accepted_def fits_def is_route_request_def is_addr_request_def
      split: if_splits option.splits bool.splits
      dest!: parse_send_cmd_ok parse_broadcast_cmd_ok create_addr_payload_ok)

lemma client_commands_accepted: "accepted (client_commands os args i as)"
proof (induction as arbitrary: i)
  case (Cons a as)
  then show ?case using client_command_accepted by (auto split: option.split)
qed (simp add: accepted_def)

lemma parse_args_accepted: "accepted (parse_args os args)"
  using client_commands_accepted [of os args 0 args]
  by (simp add: parse_args_def) (simp add: accepted_def fits_def is_addr_request_def)

text \<open>The command line \<^verbatim>\<open>client send -s <a> -r <b>\<close>.\<close>

definition send_command :: "u8 \<Rightarrow> u8 \<Rightarrow> string list" where
  "send_command a b = [''client'', ''send'', ''-s'', decimal (unat a), ''-r'', decimal (unat b)]"

lemma decimal_not_option [simp]: "decimal n \<noteq> CHR ''-'' # cs" "CHR ''-'' # cs \<noteq> decimal n"
proof -
  have "digit_char d \<noteq> CHR ''-''" if "d < 10" for d
  proof
    assume "digit_char d = CHR ''-''"
    then have "of_char (digit_char d) = (of_char (CHR ''-'') :: nat)" by simp
    then show False using that by (simp add: digit_char_def)
  qed
  then show "decimal n \<noteq> CHR ''-'' # cs" "CHR ''-'' # cs \<noteq> decimal n"
    using decimal_first [of n] by (metis list.inject)+
qed

lemma strtol10_u8: "strtol10 (decimal (unat (a :: u8))) = Some (int (unat a))"
proof -
  have "unat a < 2 ^ 63" by (rule order.strict_trans [OF unat_u8_bound]) simp
  then show ?thesis by (intro strtol10_decimal) (simp only: of_nat_less_numeral_power_cancel_iff)
qed

lemma parse_send_command:
  assumes "a \<noteq> UINT8_MAX" and "b \<noteq> UINT8_MAX"
  shows "\<exists>p. parse_args os (send_command a b) = Some (True, Some REQUEST_SEND, Packet p)
     \<and> np_sender_addr p = a \<and> np_receiver_addr p = b \<and> ap_message_len (np_app p) = 0
     \<and> ap_req_type (np_app p) = app_request_code APP_REQUEST_DELIVERY \<and> packet_ok p \<and> valid_crc p"
proof -
  let ?args = "send_command a b"
  let ?s = "(initial_opts os)\<lparr>so_from := a, so_to := b\<rparr>"
  have loop: "option_loop (address_options ?args) 0 ?args (initial_opts os) = Some (Inr ?s)"
    by (simp add: send_command_def address_options_def sender_option_def numeric_option_def bind_option_def
        arg_u8_def arg_def strtol10_u8)
  have len: "length ?args = 6" by (simp add: send_command_def)
  have s: "so_from ?s = a" "so_to ?s = b" "opts_ok ?s"
    using opts_ok_initial by (simp_all add: opts_ok_def)
  define q where "q = (start_packet os ?s)\<lparr>np_app := (np_app (start_packet os ?s))
     \<lparr>ap_addr_from := 0, ap_addr_to := 0, ap_message_len := 0, ap_req_type := app_request_code APP_REQUEST_DELIVERY\<rparr>\<rparr>"
  have "packet_ok q" by (simp add: q_def packet_ok_def app_ok_def start_packet_def)
  then obtain c where "packet_crc q = Some c" using packet_crc_Some by blast
  then have p: "send_packet os False ?s = Some (q\<lparr>np_crc := c\<rparr>)" by (simp add: send_packet_def q_def Let_def)
  have "parse_send_cmd os ?args = Some (True, Packet (q\<lparr>np_crc := c\<rparr>))"
    unfolding parse_send_cmd_def loop using assms by (simp add: s len p)
  then have "parse_args os ?args = Some (True, Some REQUEST_SEND, Packet (q\<lparr>np_crc := c\<rparr>))"
    unfolding parse_args_def len by (simp add: send_command_def client_command_def Let_def)
  then show ?thesis
    using send_packet_ok [OF p s(3)] by (simp add: q_def start_packet_def)
qed

text \<open>The command line \<^verbatim>\<open>client send -s <a> -r <b> -a <text>\<close>.\<close>

definition text_command :: "u8 \<Rightarrow> u8 \<Rightarrow> string \<Rightarrow> string list" where
  "text_command a b t = send_command a b @ [''-a'', t]"

definition plain_text :: "string \<Rightarrow> bool" where
  "plain_text t \<longleftrightarrow> t \<noteq> [] \<and> hd t \<noteq> CHR ''-'' \<and> (\<forall>c \<in> set t. of_char c \<noteq> (0 :: nat))"

lemma plain_not_option [simp]: "plain_text t \<Longrightarrow> t \<noteq> CHR ''-'' # cs"
  by (auto simp: plain_text_def)

lemma bytes_nonzero: "plain_text t \<Longrightarrow> 0 \<notin> set (bytes_of_string t)"
proof -
  have "(of_nat (of_char c) :: u8) \<noteq> 0" if "of_char c \<noteq> (0 :: nat)" for c :: char
    using that nat_of_char_less_256 [of c] by (simp add: word_unat_eq_iff unat_of_nat)
  then show "plain_text t \<Longrightarrow> ?thesis" by (auto simp: bytes_of_string_def plain_text_def)
qed

lemma strlen_store:
  assumes "plain_text t" and "length t < APP_MESSAGE_LEN" and "length m = APP_MESSAGE_LEN"
  shows "strlen (store_message t m) = Some (length t)" and "take (length t) (store_message t m) = bytes_of_string t"
proof -
  have m: "store_message t m = bytes_of_string t @ 0 # drop (Suc (length t)) m"
    using assms(2) by (simp add: store_message_def Let_def bytes_of_string_def settings)
  have "takeWhile (\<lambda>x. x \<noteq> 0) (bytes_of_string t @ 0 # drop (Suc (length t)) m) = bytes_of_string t"
    using bytes_nonzero [OF assms(1)] by (subst takeWhile_append2) auto
  then show "strlen (store_message t m) = Some (length t)"
    by (simp add: strlen_def m) (simp add: bytes_of_string_def)
  show "take (length t) (store_message t m) = bytes_of_string t"
    by (simp add: m) (simp add: bytes_of_string_def)
qed

lemma strlen_overlong:
  assumes "plain_text t" and "APP_MESSAGE_LEN \<le> length t" and "length m = APP_MESSAGE_LEN" and "m ! 149 \<noteq> 0"
  shows "strlen (store_message t m) = None"
proof -
  have m: "store_message t m = bytes_of_string (take 149 t) @ drop 149 m"
    using assms(2) by (simp add: store_message_def Let_def bytes_of_string_def settings min_def)
  have "drop 149 m = [m ! 149]"
    using Cons_nth_drop_Suc [of 149 m] assms(3) by (simp add: settings)
  then have "0 \<notin> set (drop 149 m)" using assms(4) by simp
  moreover have "0 \<notin> set (bytes_of_string (take 149 t))"
    using bytes_nonzero [OF assms(1)] by (auto simp: bytes_of_string_def dest: in_set_takeD)
  ultimately show ?thesis by (simp add: strlen_def m)
qed

lemma parse_text_command:
  assumes "a \<noteq> UINT8_MAX" and "b \<noteq> UINT8_MAX" and "plain_text t"
  shows "parse_args os (text_command a b t) = map_option (\<lambda>p. (True, Some REQUEST_SEND, Packet p))
     (send_packet os True ((initial_opts os)\<lparr>so_from := a, so_to := b,
        so_message := store_message t (so_message (initial_opts os))\<rparr>))"
proof -
  let ?args = "text_command a b t"
  let ?s = "(initial_opts os)\<lparr>so_from := a, so_to := b\<rparr>"
  let ?t = "?s\<lparr>so_message := store_message t (so_message (initial_opts os))\<rparr>"
  have loop: "option_loop (address_options ?args) 0 ?args (initial_opts os) = Some (Inr ?s)"
    using assms(3) by (simp add: text_command_def send_command_def address_options_def sender_option_def numeric_option_def
        bind_option_def arg_u8_def arg_def strtol10_u8)
  have apps: "option_loop (app_options ?args) 0 ?args ?s = Some (Inr ?t)"
    using assms(3) by (simp add: text_command_def send_command_def app_options_def text_option_def message_option_def
        numeric_option_def bind_option_def arg_u8_def arg_def strtol10_u8)
  have len: "length ?args = 8" by (simp add: text_command_def send_command_def)
  have s: "so_from ?s = a" "so_to ?s = b" by simp_all
  have "parse_send_cmd os ?args = map_option (\<lambda>p. (True, Packet p)) (send_packet os True ?t)"
    unfolding parse_send_cmd_def loop using assms(1,2) apps by (simp add: s len)
  then show ?thesis
    unfolding parse_args_def len
    by (simp add: text_command_def send_command_def client_command_def Let_def option.map_comp comp_def)
qed

lemma send_packet_text:
  assumes "opts_ok s" and "strlen (so_message s) = Some n"
  shows "\<exists>p. send_packet os True s = Some p \<and> unat (ap_message_len (np_app p)) = n
     \<and> take n (ap_message (np_app p)) = take n (so_message s)"
proof -
  have n: "n < APP_MESSAGE_LEN" using assms strlen_less by (simp add: opts_ok_def) metis
  then have small: "unat (of_nat n :: u8) = n" by (intro unat_u8_of_nat) (simp add: settings)
  let ?a = "(np_app (start_packet os s))\<lparr>ap_addr_from := so_app_from s, ap_addr_to := so_app_to s\<rparr>"
  define app where "app = ?a\<lparr>ap_message_len := of_nat n, ap_message := take n (so_message s) @ drop n (ap_message ?a)\<rparr>"
  have "set_message (so_message s) ?a = Some app"
    using assms(2) small by (simp add: set_message_def app_def Let_def)
  note set = this
  let ?q = "(start_packet os s)\<lparr>np_app := app\<lparr>ap_req_type := app_request_code APP_REQUEST_DELIVERY\<rparr>\<rparr>"
  have "app_ok app" using small n assms(1) by (simp add: app_ok_def app_def start_packet_def opts_ok_def)
  then have "packet_ok ?q" by (simp add: packet_ok_def)
  then obtain c where "packet_crc ?q = Some c" using packet_crc_Some by blast
  then have "send_packet os True s = Some (?q\<lparr>np_crc := c\<rparr>)" unfolding send_packet_def Let_def by (simp add: set)
  then show ?thesis using small n assms(1) by (simp add: app_def opts_ok_def)
qed

lemma parse_text_fits:
  assumes "a \<noteq> UINT8_MAX" and "b \<noteq> UINT8_MAX" and "plain_text t" and "length t < APP_MESSAGE_LEN"
  shows "\<exists>p. parse_args os (text_command a b t) = Some (True, Some REQUEST_SEND, Packet p)
     \<and> np_sender_addr p = a \<and> np_receiver_addr p = b \<and> packet_ok p \<and> valid_crc p
     \<and> unat (ap_message_len (np_app p)) = length t
     \<and> take (length t) (ap_message (np_app p)) = bytes_of_string t"
proof -
  define s where "s = (initial_opts os)\<lparr>so_from := a, so_to := b, so_message := store_message t (so_message (initial_opts os))\<rparr>"
  have m: "length (so_message (initial_opts os)) = APP_MESSAGE_LEN" using opts_ok_initial by (simp add: opts_ok_def)
  have s: "opts_ok s" "strlen (so_message s) = Some (length t)" "take (length t) (so_message s) = bytes_of_string t"
    "so_from s = a" "so_to s = b"
    using m strlen_store [OF assms(3,4) m] by (simp_all add: opts_ok_def length_store_message s_def)
  obtain p where p: "send_packet os True s = Some p" "unat (ap_message_len (np_app p)) = length t"
    "take (length t) (ap_message (np_app p)) = bytes_of_string t"
    using send_packet_text [OF s(1,2), of os] s(3) by auto
  then show ?thesis
    using send_packet_ok [OF p(1) s(1)] s(4,5) parse_text_command [OF assms(1-3), of os, folded s_def] by simp
qed

lemma parse_text_overlong:
  assumes "a \<noteq> UINT8_MAX" and "b \<noteq> UINT8_MAX" and "plain_text t" and "APP_MESSAGE_LEN \<le> length t"
    and "os_junk os 149 \<noteq> 0"
  shows "parse_args os (text_command a b t) = None"
proof -
  have "length (so_message (initial_opts os)) = APP_MESSAGE_LEN" "so_message (initial_opts os) ! 149 \<noteq> 0"
    using assms(5) by (simp_all add: initial_opts_def uninit_def settings)
  then show ?thesis
    using strlen_overlong [OF assms(3,4)]
    by (simp add: parse_text_command [OF assms(1-3)] send_packet_def set_message_def Let_def)
qed

end
