(* ===== verification/System.thy ===== *)
theory System
  imports Node_Norm Server_Spec Client_Spec Mesh
begin

text \<open>
  The three programs together: a client's message passes through the server to the node it is
  sent from.  Each hop is a byte stream that TCP may cut anywhere.
\<close>

lemma server_request_send:
  assumes "packet_ok p" and "delivers os fd S"
    and "S = received fd (sr_trace s) @ transmitted junk pid REQUEST_SEND (Packet p) REQUEST_SENDER_CLIENT @ rest"
  shows "\<exists>q tr crc. packet_ok q \<and> packet_norm q = packet_norm p \<and>
     (let a = (np_app q)\<lparr>ap_id := sr_app_msg_id s, ap_crc := crc\<rparr>;
          m = server_message os REQUEST_SEND (Packet (seal (q\<lparr>np_app := a\<rparr>)));
          s' = set_client (sr_app_msg_id s) fd (s\<lparr>sr_trace := tr, sr_client_fd := fd, sr_app_msg_id := sr_app_msg_id s + 1\<rparr>) in
      app_crc a = Some crc \<and> app_ok a \<and>
      server_request os fd s = Some (case offer os (np_sender_addr p) m (sr_children s) tr of
        (ok, tr) \<Rightarrow> (ok, s'\<lparr>sr_trace := tr\<rparr>)))"
proof -
  have carries: "carries REQUEST_SEND (Packet p)" by (rule carries_packet)
  obtain q buf tr where r: "read_frame os fd (sr_trace s) = (Some buf, tr)"
    "format_define_sender buf = Some (sender_code REQUEST_SENDER_CLIENT)"
    "format_parse (os_junk os) buf = Some (Some REQUEST_SEND, Packet q, False)" "packet_ok q" "packet_norm q = packet_norm p"
    using receive_packet [OF assms(1) carries assms(2,3)] by blast
  let ?s = "s\<lparr>sr_trace := tr, sr_client_fd := fd\<rparr>"
  obtain crc where acc: "accept_message q ?s = Some (q\<lparr>np_app := (np_app q)\<lparr>ap_id := sr_app_msg_id s, ap_crc := crc\<rparr>\<rparr>,
        set_client (sr_app_msg_id s) fd (?s\<lparr>sr_app_msg_id := sr_app_msg_id s + 1\<rparr>))"
    "app_crc ((np_app q)\<lparr>ap_id := sr_app_msg_id s, ap_crc := crc\<rparr>) = Some crc"
    using accept_message_eq [OF r(4), of ?s] by auto
  let ?a = "(np_app q)\<lparr>ap_id := sr_app_msg_id s, ap_crc := crc\<rparr>"
  have ok: "app_ok ?a" "packet_ok (q\<lparr>np_app := ?a\<rparr>)" using r(4) by (simp_all add: packet_ok_def app_ok_def)
  have sender: "np_sender_addr q = np_sender_addr p"
    using arg_cong [OF r(5), of np_sender_addr] by (simp add: packet_norm_def)
  have "server_request os fd s = handle_client_request os buf ?s"
    by (simp add: server_request_def r(1,2) Let_def server_listener_handle_def)
  also have "\<dots> = Some (case offer os (np_sender_addr p) (server_message os REQUEST_SEND (Packet (seal (q\<lparr>np_app := ?a\<rparr>))))
        (sr_children s) tr of (ok, tr) \<Rightarrow> (ok, (set_client (sr_app_msg_id s) fd
          (?s\<lparr>sr_app_msg_id := sr_app_msg_id s + 1\<rparr>))\<lparr>sr_trace := tr\<rparr>))"
    using handle_client_send_eq [OF ok(2)] sender
    by (simp add: handle_client_request_def server_parse_def r(3) acc(1) with_trace_def set_client_def Let_def
        split: prod.split)
  finally show ?thesis
    using r(4,5) acc(2) ok(1) by (intro exI [of _ q] exI [of _ tr] exI [of _ crc]) (simp add: Let_def)
qed

lemma node_request_send:
  assumes "packet_ok p" and "valid_crc p" and "delivers os fd S"
    and "S = received fd (node_trace nd) @ server_message os' REQUEST_SEND (Packet p) @ rest"
  shows "\<exists>tr. received fd tr = received fd (node_trace nd) @ server_message os' REQUEST_SEND (Packet p)
     \<and> handle_request os fd nd = Some (True, snd (server_send os p (nd\<lparr>nd_net := (nd_net nd)\<lparr>net_trace := tr\<rparr>\<rparr>)))"
proof -
  have carries: "carries REQUEST_SEND (Packet p)" by (rule carries_packet)
  obtain q buf tr where r: "read_frame os fd (node_trace nd) = (Some buf, tr)"
    "received fd tr = received fd (node_trace nd) @ server_message os' REQUEST_SEND (Packet p)"
    "format_define_sender buf = Some (sender_code REQUEST_SENDER_SERVER)"
    "format_parse (os_junk os) buf = Some (Some REQUEST_SEND, Packet q, False)" "packet_ok q" "packet_norm q = packet_norm p"
    using receive_packet [OF assms(1) carries assms(3) assms(4) [unfolded server_message_def]] unfolding server_message_def by blast
  have same: "same_packet q p" using r(5,6) assms(1) by (simp add: same_packet_def)
  have "handle_request os fd nd = Some (True, snd (server_send os q (nd\<lparr>nd_net := (nd_net nd)\<lparr>net_trace := tr\<rparr>\<rparr>)))"
    by (simp add: handle_request_def r(1,3) node_listener_handle_request_def Let_def handle_server_def
        node_parse_def r(4) handle_server_send_eq [OF r(5)] same_packetD(10) [OF same] assms(2) case_prod_beta)
  then show ?thesis using r(2) same_server_send [OF same] by auto
qed

subsection \<open>Starting a node\<close>

text \<open>
  The server hands a node its address as text, in an array of three characters.  Addresses below
  100 arrive; longer ones lose their last digit.
\<close>

lemma decimal_three:
  assumes "100 \<le> n" and "n < 1000"
  shows "take 2 (decimal n) = decimal (n div 10)"
proof -
  have "10 \<le> n div 10" "n div 10 div 10 < 10" using assms by simp_all
  then have "length (decimal (n div 10)) = 2"
    by (simp add: decimal.simps [of "n div 10"] decimal.simps [of "n div 10 div 10"])
  then show ?thesis using assms by (simp add: decimal.simps [of n])
qed

lemma parse_started:
  assumes "n < 256"
  shows "Node.parse_args [name, decimal n] a0 p0 = (True, of_nat n, node_port (of_nat n))"
proof -
  have "int n < 2 ^ 63" using assms by simp
  then show ?thesis by (simp add: Node.parse_args_def strtol10_decimal Let_def)
qed

lemma started_address:
  "Node.parse_args (fst (run_node a)) a0 p0 = (let b = (if unat a < NODE_COUNT then a else of_nat (unat a div 10)) in
     (True, b, node_port b))"
proof (cases "unat a < NODE_COUNT")
  case True
  then show ?thesis using run_node_address(1) [OF True] parse_started [OF unat_u8_bound, of _ a] by simp
next
  case False
  then have n: "100 \<le> unat a" by (simp add: settings)
  have "unat a < 1000" by (rule order.strict_trans [OF unat_u8_bound]) simp
  note n = n this
  then have "fst (run_node a) = [''mesh_node'', decimal (unat a div 10)]"
    using decimal_three by (simp add: run_node_def snprintf_d_def)
  moreover have "unat a div 10 < 256" using n(2) by simp
  ultimately show ?thesis using parse_started [of "unat a div 10"] False by (simp add: Let_def)
qed

subsection \<open>From the command line to the sending node\<close>

lemma app_norm_take:
  "app_norm a = app_norm b \<Longrightarrow> ap_message_len a = ap_message_len b \<and>
     take (unat (ap_message_len b)) (ap_message a) = take (unat (ap_message_len b)) (ap_message b)"
  unfolding app_norm_iff by auto

lemma text_to_server:
  assumes "a \<noteq> UINT8_MAX" and "b \<noteq> UINT8_MAX" and "plain_text t" and "length t < APP_MESSAGE_LEN"
  shows "\<exists>p. Client.parse_args os (text_command a b t) = Some (True, Some REQUEST_SEND, Packet p) \<and>
     (\<forall>os' (s :: server) fd S junk pid rest. delivers os' fd S \<longrightarrow>
        S = received fd (sr_trace s) @ transmitted junk pid REQUEST_SEND (Packet p) REQUEST_SENDER_CLIENT @ rest \<longrightarrow>
        (\<exists>q tr s'. packet_ok q \<and> valid_crc q \<and> np_receiver_addr q = b \<and> ap_id (np_app q) = sr_app_msg_id s
           \<and> app_crc (np_app q) = Some (ap_crc (np_app q))
           \<and> unat (ap_message_len (np_app q)) = length t \<and> take (length t) (ap_message (np_app q)) = bytes_of_string t
           \<and> server_request os' fd s = Some (case offer os' a (server_message os' REQUEST_SEND (Packet q)) (sr_children s) tr of
               (ok, tr) \<Rightarrow> (ok, s'\<lparr>sr_trace := tr\<rparr>))))"
proof -
  obtain p where p: "Client.parse_args os (text_command a b t) = Some (True, Some REQUEST_SEND, Packet p)"
    "np_sender_addr p = a" "np_receiver_addr p = b" "packet_ok p" "unat (ap_message_len (np_app p)) = length t"
    "take (length t) (ap_message (np_app p)) = bytes_of_string t"
    using parse_text_fits [OF assms, of os] by blast
  show ?thesis
  proof (rule exI [of _ p], rule conjI [OF p(1)], intro allI impI)
    fix os' :: os and s :: server and fd S junk pid rest
    assume S: "delivers os' fd S" "S = received fd (sr_trace s) @ transmitted junk pid REQUEST_SEND (Packet p) REQUEST_SENDER_CLIENT @ rest"
    obtain q tr crc where q: "packet_ok q" "packet_norm q = packet_norm p"
      and req: "let a' = (np_app q)\<lparr>ap_id := sr_app_msg_id s, ap_crc := crc\<rparr>;
          m = server_message os' REQUEST_SEND (Packet (seal (q\<lparr>np_app := a'\<rparr>)));
          s' = set_client (sr_app_msg_id s) fd (s\<lparr>sr_trace := tr, sr_client_fd := fd, sr_app_msg_id := sr_app_msg_id s + 1\<rparr>) in
        app_crc a' = Some crc \<and> app_ok a' \<and>
        server_request os' fd s = Some (case offer os' (np_sender_addr p) m (sr_children s) tr of (ok, tr) \<Rightarrow> (ok, s'\<lparr>sr_trace := tr\<rparr>))"
      using server_request_send [OF p(4) S] by blast
    define a' where "a' = (np_app q)\<lparr>ap_id := sr_app_msg_id s, ap_crc := crc\<rparr>"
    define q' where "q' = seal (q\<lparr>np_app := a'\<rparr>)"
    have a': "app_crc a' = Some crc" "app_ok a'" using req by (simp_all add: a'_def Let_def)
    then have ok: "packet_ok (q\<lparr>np_app := a'\<rparr>)" using q(1) by simp
    have "app_norm (np_app q) = app_norm (np_app p)" "np_receiver_addr q = b"
      using q(2) p(3) packet_norm_parts [of q p] by auto
    then have "ap_message_len (np_app q) = ap_message_len (np_app p)"
      "take (length t) (ap_message (np_app q)) = take (length t) (ap_message (np_app p))"
      using app_norm_take [of "np_app q" "np_app p"] p(5) by auto
    then have "packet_ok q'" "valid_crc q'" "np_receiver_addr q' = b" "ap_id (np_app q') = sr_app_msg_id s"
      "app_crc (np_app q') = Some (ap_crc (np_app q'))"
      "unat (ap_message_len (np_app q')) = length t" "take (length t) (ap_message (np_app q')) = bytes_of_string t"
      using ok seal_valid [OF ok] a' p(5,6) \<open>np_receiver_addr q = b\<close> by (simp_all add: q'_def) (simp_all add: a'_def)
    then show "\<exists>q tr s'. packet_ok q \<and> valid_crc q \<and> np_receiver_addr q = b \<and> ap_id (np_app q) = sr_app_msg_id s
           \<and> app_crc (np_app q) = Some (ap_crc (np_app q))
           \<and> unat (ap_message_len (np_app q)) = length t \<and> take (length t) (ap_message (np_app q)) = bytes_of_string t
           \<and> server_request os' fd s = Some (case offer os' a (server_message os' REQUEST_SEND (Packet q)) (sr_children s) tr of
               (ok, tr) \<Rightarrow> (ok, s'\<lparr>sr_trace := tr\<rparr>))"
      using req p(2) unfolding Let_def a'_def [symmetric] q'_def [symmetric] by blast
  qed
qed

subsection \<open>What a flooded packet teaches\<close>

text \<open>One node floods a packet on; another reads the copy off a connection and learns the way to its origin.\<close>

lemma flood_teaches:
  assumes "node_ok nd" and "packet_ok p" and "sint (np_time_to_live p) > 1" and "sint (np_time_to_live p) \<le> TTL"
    and "unat (np_sender_addr p) < NODE_COUNT" and "a \<noteq> UINT8_MAX"
    and "\<not> handled nd (ap_id (np_app p))" and "np_receiver_addr p \<noteq> nd_addr nd"
    and "delivers os fd S"
    and "S = received fd (node_trace nd) @ os_transmitted os' REQUEST_ROUTE_DIRECT (Packet (flood_copy a p)) @ rest"
  shows "\<exists>nd' hop k. handle_request os fd nd = Some (True, nd')
     \<and> routing_map (nd_routing nd') (np_sender_addr p) = Some (hop, k) \<and> sint k \<le> TTL - sint (np_time_to_live p) + 2"
proof -
  let ?c = "flood_copy a p"
  have c: "packet_ok ?c" "valid_crc ?c" using assms(2) flood_copy_valid by simp_all
  have msg: "node_message REQUEST_ROUTE_DIRECT (Packet ?c)" using c(1) by (simp add: node_message_def)
  obtain tr where run: "handle_request os fd nd = map_option (\<lambda>(_, nd). (True, nd))
      (handle_node_route_direct os ?c (nd\<lparr>nd_net := (nd_net nd)\<lparr>net_trace := tr\<rparr>\<rparr>))"
    using handle_request_message [OF msg assms(9,10)] by (auto simp: node_handles_def)
  let ?nd = "nd\<lparr>nd_net := (nd_net nd)\<lparr>net_trace := tr\<rparr>\<rparr>"
  have nd: "node_ok ?nd" "handled ?nd m = handled nd m" for m
    using assms(1) keeps_trace [of nd tr] by (simp_all add: keeps_def handled_def)
  have ttl: "sint (np_time_to_live ?c) = sint (np_time_to_live p) - 1" using assms(3) sint_minus_1 by simp
  have rel: "relays ?nd ?c" using assms(3,7,8) c(2) nd(2) ttl by (simp add: relays_def)
  obtain r nd' where h: "handle_node_route_direct os ?c ?nd = Some (r, nd')"
    using handlers_keep(5) [OF c(1)] by blast
  have "\<exists>h k. routing_map (nd_routing nd') (np_sender_addr ?c) = Some (h, k) \<and> sint k \<le> TTL - sint (np_time_to_live ?c) + 1"
    using assms(4,5,6) ttl by (intro handle_search_packet(3) [OF nd(1) c(1) _ h rel]) simp_all
  then show ?thesis using run h ttl by auto
qed

end
