(* ===== verification/Spec2Isabelle.thy ===== *)
theory Spec2Isabelle
  imports Logger Node_Properties Wire_Properties Server_Properties Mesh_Properties Local_Properties System
begin

text \<open>
  A verification library for the mesh network of application nodes: a server process that starts a
  hundred node processes in a 10 by 10 grid, nodes that flood searches for routes and forward
  messages of the applications on them, and a command line client.

  Parts and their interaction.  A client (\<^verbatim>\<open>client/src/client.c\<close>) sends one request to the server and
  waits for the answer.  The server (\<^verbatim>\<open>server/src\<close>) forks the nodes, learns their addresses from the
  update each node sends, numbers and seals every message (\<^verbatim>\<open>handle_client_send\<close>), hands it to the
  sending node and remembers the client's descriptor until a node reports the outcome.  A node
  (\<^verbatim>\<open>node/src\<close>) delivers a message, forwards it along its routing table, or floods a search for a
  route (\<^verbatim>\<open>route_direct\<close>), which the receiver answers on the way back (\<^verbatim>\<open>route_inverse\<close>).  All of them
  speak one binary format over TCP (\<^verbatim>\<open>common/src\<close>) and wait in the same poll loop.

  Theories and sources.

  \<^item> \<open>Mesh_Prelude\<close>: words of the widths of \<^verbatim>\<open>stdint.h\<close>, little-endian objects, C memory as byte
    lists with reads and writes that fail out of bounds, loops that can fail (\<open>mfold\<close>), the
    collections of simplification rules.
  \<^item> \<open>Settings\<close>: the macros of \<^verbatim>\<open>settings.h\<close> at their defaults, addresses and ports.
  \<^item> \<open>Crc\<close>: \<^verbatim>\<open>crc.c\<close>, the static table included, against the bit-serial checksum.
  \<^item> \<open>Codec\<close>, \<open>Format_App\<close>, \<open>Format\<close>: \<^verbatim>\<open>format_app.c\<close> and \<^verbatim>\<open>format.c\<close>; \<open>Format_Wire\<close> gives the bytes of
    every message as a function and the round trip through them, \<open>Format_Safety\<close> what parsing does
    on arbitrary bytes.
  \<^item> \<open>Io\<close>: the system calls as oracles and a trace, the loops of \<^verbatim>\<open>io.c\<close>, the sockets of
    \<^verbatim>\<open>connection.c\<close>; \<open>Framing\<close>: reading one message off a stream.
  \<^item> \<open>Serving\<close>: \<^verbatim>\<open>serving.c\<close>, the watched descriptors and the poll loop.
  \<^item> \<open>Routing\<close>: \<^verbatim>\<open>routing.c\<close>; \<open>Messages\<close>: the table of handled messages in \<^verbatim>\<open>node_handler.c\<close>;
    \<open>Neighbors\<close>: \<^verbatim>\<open>fill_broadcast_neighbors\<close>; \<open>Node_Essentials\<close>: the connection pool and what a node
    sends (\<^verbatim>\<open>node_essentials.c\<close>); \<open>Node_App\<close>: \<^verbatim>\<open>node_app.c\<close>.
  \<^item> \<open>Node_Handler\<close>: every handler of \<^verbatim>\<open>node_handler.c\<close> with its local buffers; \<open>Node_Spec\<close> the protocol
    steps they implement and the invariant; \<open>Node_Listener\<close>: \<^verbatim>\<open>node_listener.c\<close>; \<open>Node\<close>: \<^verbatim>\<open>node.c\<close>, the
    reachable states of a process; \<open>Node_Behaviour\<close>: consequences over several requests; \<open>Node_Norm\<close>:
    what a node reads off a connection it handles as the value that was written.
  \<^item> \<open>Server_Handler\<close>: \<^verbatim>\<open>server_handler.c\<close>, \<^verbatim>\<open>server_essentials.c\<close>; \<open>Server\<close>: \<^verbatim>\<open>server_listener.c\<close>,
    \<^verbatim>\<open>server.c\<close>; \<open>Server_Spec\<close>: their equations and invariant.
  \<^item> \<open>Libc\<close>, \<open>Client\<close>, \<open>Client_Spec\<close>: \<^verbatim>\<open>strtol\<close> and the like, \<^verbatim>\<open>client.c\<close>, the command lines it accepts.
  \<^item> \<open>Logger\<close>: \<^verbatim>\<open>custom_logger.c\<close> and \<^verbatim>\<open>die_\<close>.
  \<^item> \<open>Mesh\<close>: all nodes and the packets of searches between them; \<open>Mesh_Talk\<close>: searches together with
    the answers to them, in any order and with losses; \<open>Pool\<close>: what a node achieves on a healthy
    kernel, and why its connection slots are enough; \<open>Mesh_Rounds\<close>: searches that proceed hop by hop;
    \<open>Mesh_Data\<close>: data packets on the routes found; \<open>Mesh_Local\<close>: unicasts and broadcasts; \<open>System\<close>: client, server and node in a row.
  \<^item> \<open>Wire_Properties\<close>, \<open>Node_Properties\<close>, \<open>Server_Properties\<close>, \<open>Mesh_Properties\<close>, \<open>Local_Properties\<close> and this theory: the
    properties C1, C2 and so on, each with an instance in the environment of \<open>Scenarios\<close>,
    \<open>Server_Scenarios\<close> and \<open>Mesh_Scenarios\<close>.

  How the state corresponds to the code.  The record \<open>node\<close> is \<^verbatim>\<open>node_server_t\<close> with the static
  variables of the node's files, \<open>server\<close> is \<^verbatim>\<open>server_t\<close> with those of the server; a C array is a list
  of its fixed length, a buffer a list of bytes, an object behind \<^verbatim>\<open>void*\<close> a constructor of \<open>payload\<close>.
  The result \<open>None\<close> means undefined behaviour (an access outside an object, a read of an unassigned
  variable) and nothing else; failure that the code reports is a Boolean or an option inside the
  result.  Uninitialised memory has the contents \<open>os_junk\<close>.  The operating system is a record \<open>os\<close> of
  functions from the trace of all earlier calls to the result of the next one, so that a statement
  for all \<open>os\<close> holds for every behaviour of the kernel and the peers; \<open>delivers os fd S\<close> restricts it
  to a connection on which the bytes \<open>S\<close> arrive in pieces of any size.

  What the lemmas show.  Locales state the contracts between components: a codec, a routing table, a
  table of flags, a pool of connections, a ring of pending replies; each is interpreted on the
  code's definitions and its facts carry the handlers' proofs.  The handlers are first shown
  to be defined and equal to short protocol steps; invariants, delivery and the search for routes
  are then proved about these.  Bytes written by one process are followed to the handler of the
  next, and the search is a step relation of all nodes in which any packet may be handled or lost
  at any time: the routes it leaves have no loops.  Where no packet is lost the answer gets home in
  any order of events.  That the search reaches every node and finds shortest ways is shown under
  two more assumptions, which the definitions \<open>healthy\<close> and \<open>round_step\<close> state: connections are made
  and take what is written to them, and the packets of one hop are handled before those of the next
  (which they are when hops take equal time; within a hop the order is arbitrary).  Unicasts and
  broadcasts stay among neighbours: in any order of events one neighbour, or every neighbour, is
  delivered the message, if nothing is lost, and never more.

  Termination and bounds.  No definition has fuel.  The loops over system calls recurse on the bytes
  still to come, the scan of the poll loop on the entries it has not visited (an accepted
  connection counts for its listening entry), the table loops on the table, the flooding loop on the
  neighbours (at most 28, in an array of 29).  A hop count fits its byte: no two nodes are more
  than eight hops apart and a packet lives for twenty.  The main loops may run for ever; they are the
  relations \<open>node_reachable\<close> and \<open>server_reachable\<close>, one step per round of the poll loop or signal.
  The parameters of \<^verbatim>\<open>settings.h\<close> have their default values.

  Not modelled: the calls of the logger, which only stands for itself in \<open>Logger\<close>: elsewhere it is
  taken to return, which it does unless it cannot open or lock its file; the build files, scripts and tests; zlib, which is outside the repository and appears as the
  parameters \<open>os_deflate\<close> and \<open>os_inflate\<close>; socket options, addresses other than the port, and the
  closing of descriptors the program does not look at again; failure of \<^verbatim>\<open>malloc\<close>.  Signals take
  effect between rounds of the poll loop, where the code tests its flag, and the child's side of
  \<^verbatim>\<open>fork\<close> ends with the argument vector it executes.
\<close>

section \<open>From the command line to the mesh\<close>



text \<open>
  C19: What the server offers to a node, the node handles as \<open>server_send\<close>: it delivers the message
  itself, sends it along a route, or searches for one.
\<close>

theorem message_reaches_node:
  assumes "packet_ok p" and "valid_crc p" and "delivers os fd S"
    and "S = received fd (node_trace nd) @ server_message os' REQUEST_SEND (Packet p) @ rest"
  shows "\<exists>tr. received fd tr = received fd (node_trace nd) @ server_message os' REQUEST_SEND (Packet p)
     \<and> handle_request os fd nd = Some (True, snd (server_send os p (nd\<lparr>nd_net := (nd_net nd)\<lparr>net_trace := tr\<rparr>\<rparr>)))"
  by (rule node_request_send [OF assms])

theorem message_reaches_node_witness:
  "\<exists>tr. handle_request (demo_os (server_message (demo_os [] 0) REQUEST_SEND (Packet (demo_packet 0))) 2) 9 (demo_node 11)
     = Some (True, snd (server_send (demo_os (server_message (demo_os [] 0) REQUEST_SEND (Packet (demo_packet 0))) 2) (demo_packet 0)
         ((demo_node 11)\<lparr>nd_net := (nd_net (demo_node 11))\<lparr>net_trace := tr\<rparr>\<rparr>)))"
  using message_reaches_node [OF demo_packet_ok(1,2) demo_delivers, of "server_message (demo_os [] 0) REQUEST_SEND (Packet (demo_packet 0))"
      9 "demo_node 11" "demo_os [] 0" 0 "[]" 2]
  by (auto simp: demo_node_trace)



text \<open>
  C35: A failed unicast is reported as delivered.  A node reports a unicast to the server before its
  application has looked at it.  When the application rejects the message, the report of the failure
  follows on the same connection; but the server, which reads the first one, has by then told the
  client that all is well and forgotten it.
\<close>

theorem unicast_failure_hidden:
  assumes "healthy os" and "node_fits nd" and "packet_ok p" and "valid_crc p" and "np_receiver_addr p = nd_addr nd"
    and "ap_req_type (np_app p) = app_request_code APP_REQUEST_UNICAST" and "\<not> app_handles os (nd_apps nd) (np_app p)"
    and "server_ok s" and "pending s (ap_id (np_app p)) = client_fd" and "client_fd > 0"
  shows "\<exists>nd' fd m. handle_node_send os p nd = Some (False, nd') \<and> open_on (nd_net nd') SERVER_PORT = Some fd
     \<and> sent fd (node_trace nd') = sent fd (node_trace nd) @ m
     \<and> (\<forall>os' sfd S rest. delivers os' sfd S \<longrightarrow> S = received sfd (sr_trace s) @ m @ rest \<longrightarrow>
          (\<exists>ok s'. server_request os' sfd s = Some (ok, s') \<and> pending s' (ap_id (np_app p)) = -1
             \<and> (ok \<longrightarrow> sent client_fd (sr_trace s') = sent client_fd (sr_trace s) @ [request_result_code REQUEST_OK])))"
proof -
  let ?m = "\<lambda>ty. report_bytes os ty (ap_id (np_app p))"
  have "\<exists>ok s'. server_request os' sfd s = Some (ok, s') \<and> pending s' (ap_id (np_app p)) = -1
       \<and> (ok \<longrightarrow> sent client_fd (sr_trace s') = sent client_fd (sr_trace s) @ [request_result_code REQUEST_OK])"
    if "delivers os' sfd S" "S = received sfd (sr_trace s) @ (?m NOTIFY_GOT_MESSAGE @ ?m NOTIFY_FAIL) @ rest" for os' sfd S rest
    using server_answers [OF assms(8-10) _ that(1), of NOTIFY_GOT_MESSAGE "os_junk os" "os_getpid os" "?m NOTIFY_FAIL @ rest"] that(2)
    by (simp add: report_bytes_def os_transmitted_def)
  then show ?thesis using unicast_reported_early [OF assms(1-7)] by fast
qed

theorem unicast_failure_hidden_witness:
  "\<exists>nd' fd m. handle_node_send (demo_os [] 0) demo_broken_unicast (demo_node 22) = Some (False, nd')
     \<and> open_on (nd_net nd') SERVER_PORT = Some fd \<and> sent fd (node_trace nd') = m
     \<and> (\<exists>ok s'. server_request (demo_os m 0) 9 (set_client 7 6 demo_server) = Some (ok, s') \<and> pending s' 7 = -1)"
proof -
  let ?s = "set_client 7 6 demo_server"
  have ok: "server_ok ?s" "pending ?s 7 = 6"
    using replies.pending_post [OF demo_server_ok, of 7 6] demo_server_unused demo_server_ok server_ok_set_client by auto
  have tr: "received 9 (sr_trace ?s) = []" by (simp add: set_client_def demo_server_def static_server_def Let_def)
  have to: "np_receiver_addr demo_broken_unicast = nd_addr (demo_node 22)" by (simp add: demo_broken_unicast demo_node_ok)
  have "pending ?s (ap_id (np_app demo_broken_unicast)) = 6" using ok(2) by (simp add: demo_broken_unicast)
  from unicast_failure_hidden [OF demo_healthy demo_untouched(2) demo_broken_unicast(1,2) to demo_broken_unicast(4,5) ok(1) this]
  obtain nd' fd m where sent: "handle_node_send (demo_os [] 0) demo_broken_unicast (demo_node 22) = Some (False, nd')"
      "open_on (nd_net nd') SERVER_PORT = Some fd" "sent fd (node_trace nd') = m"
    and reads: "\<And>os' sfd S rest. delivers os' sfd S \<Longrightarrow> S = received sfd (sr_trace ?s) @ m @ rest \<Longrightarrow>
      \<exists>ok s'. server_request os' sfd ?s = Some (ok, s') \<and> pending s' 7 = -1"
    by (fastforce simp: demo_node_trace demo_broken_unicast)
  have "\<exists>ok s'. server_request (demo_os m 0) 9 ?s = Some (ok, s') \<and> pending s' 7 = -1"
    by (rule reads [OF demo_delivers, of _ _ "[]"]) (simp add: tr)
  with sent show ?thesis by blast
qed

text \<open>
  C15: A message that one node transmits is handled by the node at the other end of the connection as
  the value that was sent, by the handler of its request, however TCP cuts the stream and whatever the
  rest of the reader's buffers holds; exactly its bytes are taken off the stream.  This is what lets a
  message in the air be a value in the models of the mesh.
\<close>

theorem packet_between_nodes:
  assumes "node_message req pl" and "delivers os fd S" and "S = received fd (node_trace nd) @ os_transmitted os' req pl @ rest"
  shows "\<exists>tr. received fd tr = received fd (node_trace nd) @ os_transmitted os' req pl
     \<and> handle_request os fd nd = map_option (\<lambda>(_, nd). (True, nd)) (node_handles os req pl (nd\<lparr>nd_net := (nd_net nd)\<lparr>net_trace := tr\<rparr>\<rparr>))"
  by (rule handle_request_message [OF assms])

theorem packet_between_nodes_witness:
  "\<exists>tr. handle_request (demo_os (os_transmitted (demo_os [] 0) REQUEST_SEND (Packet (demo_packet 0))) 0) 9 (demo_node 33)
       = map_option (\<lambda>(_, nd). (True, nd)) (handle_node_send (demo_os (os_transmitted (demo_os [] 0) REQUEST_SEND (Packet (demo_packet 0))) 0)
           (demo_packet 0) ((demo_node 33)\<lparr>nd_net := (nd_net (demo_node 33))\<lparr>net_trace := tr\<rparr>\<rparr>))"
proof -
  have msg: "node_message REQUEST_SEND (Packet (demo_packet 0))" by (simp add: node_message_def demo_packet_ok)
  show ?thesis
    using packet_between_nodes [OF msg demo_delivers, of "os_transmitted (demo_os [] 0) REQUEST_SEND (Packet (demo_packet 0))"
      9 "demo_node 33" "demo_os [] 0" "[]" 0]
    by (auto simp: demo_node_trace node_handles_def)
qed

text \<open>
  Flooding teaches routes across processes: when the copy of a packet that one node floods
  arrives in the stream of another that has not met the message, that node knows a route to the
  packet's sender afterwards, at most one hop longer than the first node's.
\<close>

theorem flood_teaches_route:
  assumes "node_ok nd" and "packet_ok p" and "sint (np_time_to_live p) > 1" and "sint (np_time_to_live p) \<le> TTL"
    and "unat (np_sender_addr p) < NODE_COUNT" and "a \<noteq> UINT8_MAX"
    and "\<not> handled nd (ap_id (np_app p))" and "np_receiver_addr p \<noteq> nd_addr nd"
    and "delivers os fd S"
    and "S = received fd (node_trace nd) @ os_transmitted os' REQUEST_ROUTE_DIRECT (Packet (flood_copy a p)) @ rest"
  shows "\<exists>nd' hop k. handle_request os fd nd = Some (True, nd')
     \<and> routing_map (nd_routing nd') (np_sender_addr p) = Some (hop, k) \<and> sint k \<le> TTL - sint (np_time_to_live p) + 2"
  by (rule flood_teaches [OF assms])

theorem flood_teaches_route_witness:
  "\<exists>nd' hop k. handle_request (demo_os (os_transmitted (demo_os [] 0) REQUEST_ROUTE_DIRECT (Packet (flood_copy 12 (demo_packet 19)))) 4) 9
       (demo_node 33) = Some (True, nd') \<and> routing_map (nd_routing nd') 11 = Some (hop, k)"
  using flood_teaches_route [OF demo_node_ok(1) demo_packet_ok(1) _ _ _ _ _ _ demo_delivers, of 19 12 33
      "os_transmitted (demo_os [] 0) REQUEST_ROUTE_DIRECT (Packet (flood_copy 12 (demo_packet 19)))" 9 "demo_os [] 0" "[]" 4]
  by (auto simp: demo_packet_ok demo_node_ok demo_fresh demo_node_trace settings)

section \<open>Starting nodes\<close>

text \<open>
  C33: A node that the server starts reads its address back from its argument if the address is below
  100.  A larger one loses its last digit, so that a child reset before it has announced itself, whose
  address is still 255, is started a second time as node 25.
\<close>

theorem started_node_address:
  "Node.parse_args (fst (run_node a)) a0 p0 = (True, if unat a < NODE_COUNT then a else of_nat (unat a div 10),
     node_port (if unat a < NODE_COUNT then a else of_nat (unat a div 10)))"
  using started_address [of a a0 p0] by (simp add: Let_def)

theorem started_node_address_witness:
  "Node.parse_args (fst (run_node UINT8_MAX)) 0 0 = (True, 25, node_port 25)"
  using started_node_address [of UINT8_MAX 0 0] by (simp add: settings)

section \<open>The client\<close>



text \<open>
  C40: A text of 150 characters or more makes the client read past its message array: the copy is cut
  to 149 characters but not terminated, and unless the last byte of the array happens to be zero,
  \<^verbatim>\<open>strlen\<close> runs on.
\<close>

theorem long_text_undefined:
  assumes "a \<noteq> UINT8_MAX" and "b \<noteq> UINT8_MAX" and "plain_text t" and "APP_MESSAGE_LEN \<le> length t"
    and "os_junk os 149 \<noteq> 0"
  shows "Client.parse_args os (text_command a b t) = None"
  by (rule parse_text_overlong [OF assms])

theorem long_text_undefined_witness:
  "Client.parse_args (demo_os [] 0) (text_command 11 22 (replicate 150 (CHR ''x''))) = None"
  by (rule long_text_undefined) (simp_all add: settings plain_text_def demo_os_def)

end
